(* ===== verification/Prelude.thy ===== *)
theory Prelude
  imports Complex_Main "HOL-Library.AList" "HOL-Library.Word" "HOL-Library.Sublist"
    "HOL-Library.Log_Nat" "HOL-Library.List_Lexorder" "HOL-Library.Monad_Syntax" "HOL-Library.Char_ord"
begin

text \<open>
  Shared vocabulary of the development: Go maps as association lists, 64-bit
  integer arithmetic with its wrap-around, results of fallible calls, and the
  generic lemmas and rule collections the component theories use.
\<close>

section \<open>Rule collections\<close>

named_theorems go_map \<open>rewriting of Go map operations to lookups\<close>
named_theorems go_inv \<open>preservation of component invariants by operations\<close>

section \<open>Go maps\<close>

text \<open>
  A Go map is an association list with distinct keys. The order of the list is
  the order in which one \<open>range\<close> over the map visits it; Go leaves that order
  unspecified, so statements that range over a map hold for every order of the
  list they are given, or speak of lookups only.
\<close>

declare map_of_eq_Some_iff [simp del] Some_eq_map_of_iff [simp del]

type_synonym ('k, 'v) gomap = "('k \<times> 'v) list"

abbreviation mget :: "('k, 'v) gomap \<Rightarrow> 'k \<Rightarrow> 'v option" where
  "mget \<equiv> map_of"

abbreviation mput :: "'k \<Rightarrow> 'v \<Rightarrow> ('k, 'v) gomap \<Rightarrow> ('k, 'v) gomap" where
  "mput \<equiv> AList.update"

abbreviation mdel :: "'k \<Rightarrow> ('k, 'v) gomap \<Rightarrow> ('k, 'v) gomap" where
  "mdel \<equiv> AList.delete"

abbreviation mkeys :: "('k, 'v) gomap \<Rightarrow> 'k set" where
  "mkeys m \<equiv> fst ` set m"

abbreviation wf_map :: "('k, 'v) gomap \<Rightarrow> bool" where
  "wf_map m \<equiv> distinct (map fst m)"

text \<open>The one-value form \<open>m[k]\<close>: the zero value where the key is missing.\<close>

definition mget0 :: "'v \<Rightarrow> ('k, 'v) gomap \<Rightarrow> 'k \<Rightarrow> 'v" where
  "mget0 z m k = (case mget m k of None \<Rightarrow> z | Some v \<Rightarrow> v)"

definition mhas :: "('k, 'v) gomap \<Rightarrow> 'k \<Rightarrow> bool" where
  "mhas m k = (mget m k \<noteq> None)"

lemma mget_mput [simp, go_map]: "mget (mput k v m) k' = (if k' = k then Some v else mget m k')"
  by (simp add: update_conv)

lemma mget_mdel [simp, go_map]: "mget (mdel k m) k' = (if k' = k then None else mget m k')"
  by (simp add: delete_conv')

lemma wf_mput [simp, go_inv]: "wf_map m \<Longrightarrow> wf_map (mput k v m)"
  by (rule distinct_update)

lemma wf_mdel [simp, go_inv]: "wf_map m \<Longrightarrow> wf_map (mdel k m)"
  by (rule distinct_delete)

lemma mhas_mput [simp, go_map]: "mhas (mput k v m) k' \<longleftrightarrow> k' = k \<or> mhas m k'"
  by (simp add: mhas_def)

lemma mhas_mdel [simp, go_map]: "mhas (mdel k m) k' \<longleftrightarrow> k' \<noteq> k \<and> mhas m k'"
  by (simp add: mhas_def)

lemma mhas_iff: "mhas m k \<longleftrightarrow> k \<in> mkeys m"
  by (metis map_of_eq_None_iff mhas_def)

lemma mget0_mput [simp, go_map]:
  "mget0 z (mput k v m) k' = (if k' = k then v else mget0 z m k')"
  by (simp add: mget0_def)

lemma mget0_mdel [simp, go_map]:
  "mget0 z (mdel k m) k' = (if k' = k then z else mget0 z m k')"
  by (simp add: mget0_def)

lemma mget0_Nil [simp, go_map]: "mget0 z [] k = z"
  by (simp add: mget0_def)

lemma mhas_Nil [simp, go_map]: "\<not> mhas [] k"
  by (simp add: mhas_def)

lemma mget_in_set: "wf_map m \<Longrightarrow> mget m k = Some v \<longleftrightarrow> (k, v) \<in> set m"
  by (simp add: map_of_eq_Some_iff)

text \<open>
  Two orders of one map: the same keys and values, possibly visited differently.
\<close>

definition same_map :: "('k, 'v) gomap \<Rightarrow> ('k, 'v) gomap \<Rightarrow> bool" where
  "same_map m m' \<longleftrightarrow> (\<forall>k. mget m k = mget m' k)"

lemma same_map_refl [simp]: "same_map m m"
  by (simp add: same_map_def)

lemma same_map_set:
  assumes "wf_map m" and "wf_map m'" and "same_map m m'"
  shows "set m = set m'"
proof -
  have "p \<in> set m \<longleftrightarrow> p \<in> set m'" for p
    using assms mget_in_set [OF assms(1), of "fst p" "snd p"]
      mget_in_set [OF assms(2), of "fst p" "snd p"] by (simp add: same_map_def)
  then show ?thesis by blast
qed

lemma map_of_sort_key:
  assumes "distinct (map fst xs)"
  shows "map_of (sort_key f xs) = map_of xs"
proof -
  have "distinct (map fst (sort_key f xs))" using assms by (simp add: distinct_map)
  then show ?thesis using map_of_inject_set [OF _ assms] by simp
qed

section \<open>Maps changed pointwise\<close>

text \<open>
  Ranging over a map and rewriting each value in place, or keeping only some
  entries.
\<close>

definition mmap :: "('k \<Rightarrow> 'v \<Rightarrow> 'w) \<Rightarrow> ('k, 'v) gomap \<Rightarrow> ('k, 'w) gomap" where
  "mmap f m = map (\<lambda>(k, v). (k, f k v)) m"

definition mfilter :: "('k \<Rightarrow> 'v \<Rightarrow> bool) \<Rightarrow> ('k, 'v) gomap \<Rightarrow> ('k, 'v) gomap" where
  "mfilter P m = filter (\<lambda>(k, v). P k v) m"

lemma mget_mmap [simp, go_map]: "mget (mmap f m) k = map_option (f k) (mget m k)"
  by (induction m) (auto simp: mmap_def)

lemma fst_mmap [simp]: "map fst (mmap f m) = map fst m"
  by (simp add: mmap_def case_prod_beta comp_def)

lemma mkeys_mfilter: "mkeys (mfilter P m) \<subseteq> mkeys m"
  by (auto simp: mfilter_def)

lemma wf_mfilter [simp, go_inv]: "wf_map m \<Longrightarrow> wf_map (mfilter P m)"
  by (simp add: mfilter_def distinct_map_filter)

lemma mget_mfilter [simp, go_map]:
  "wf_map m \<Longrightarrow>
   mget (mfilter P m) k = (case mget m k of None \<Rightarrow> None | Some v \<Rightarrow> if P k v then Some v else None)"
proof (induction m)
  case (Cons p m)
  obtain a b where p: "p = (a, b)" by (cases p)
  have "mget m a = None" using Cons.prems p by (simp add: map_of_eq_None_iff)
  then show ?case using Cons p by (auto simp: mfilter_def split: option.splits)
qed (simp add: mfilter_def)

section \<open>64-bit integers\<close>

text \<open>
  Go's \<open>int\<close> and \<open>int64\<close> (64 bits on every platform the agent is built for) are
  integers kept in range by \<open>wrap64\<close> after each operation that can leave it.
\<close>

definition wrap64 :: "int \<Rightarrow> int" where
  "wrap64 x = (x + 2 ^ 63) mod 2 ^ 64 - 2 ^ 63"

definition is_int64 :: "int \<Rightarrow> bool" where
  "is_int64 x \<longleftrightarrow> - (2 ^ 63) \<le> x \<and> x < 2 ^ 63"

definition add64 :: "int \<Rightarrow> int \<Rightarrow> int" where
  "add64 a b = wrap64 (a + b)"

definition sub64 :: "int \<Rightarrow> int \<Rightarrow> int" where
  "sub64 a b = wrap64 (a - b)"

definition mul64 :: "int \<Rightarrow> int \<Rightarrow> int" where
  "mul64 a b = wrap64 (a * b)"

text \<open>Integer division truncates towards zero.\<close>

definition quot64 :: "int \<Rightarrow> int \<Rightarrow> int" where
  "quot64 a b = sgn a * sgn b * (\<bar>a\<bar> div \<bar>b\<bar>)"

definition rem64 :: "int \<Rightarrow> int \<Rightarrow> int" where
  "rem64 a b = a - b * quot64 a b"

lemma wrap64_id [simp]: "is_int64 x \<Longrightarrow> wrap64 x = x"
  by (simp add: wrap64_def is_int64_def)

lemma is_int64_wrap64 [simp]: "is_int64 (wrap64 x)"
proof -
  have "0 \<le> (x + 2 ^ 63) mod 2 ^ 64" "(x + 2 ^ 63) mod 2 ^ 64 < (2 ^ 64 :: int)" by simp_all
  then show ?thesis by (simp add: is_int64_def wrap64_def)
qed

lemma wrap64_sint: "wrap64 x = sint (word_of_int x :: 64 word)"
  by (simp add: wrap64_def sint_sbintrunc' signed_take_bit_eq_take_bit_shift take_bit_eq_mod)

lemma wrap64_add_left [simp]: "wrap64 (wrap64 a + b) = wrap64 (a + b)"
proof -
  have "(((a + 2 ^ 63) mod 2 ^ 64 - 2 ^ 63) + b + 2 ^ 63) mod (2 ^ 64 :: int)
        = ((a + 2 ^ 63) mod 2 ^ 64 + b) mod 2 ^ 64"
    by (simp add: algebra_simps)
  also have "\<dots> = (a + 2 ^ 63 + b) mod 2 ^ 64"
    by (rule mod_add_left_eq)
  finally show ?thesis by (simp add: wrap64_def algebra_simps)
qed

lemma wrap64_add_right [simp]: "wrap64 (a + wrap64 b) = wrap64 (a + b)"
  by (metis add.commute wrap64_add_left)

lemma is_int64_add64 [simp]: "is_int64 (add64 a b)"
  by (simp add: add64_def)

lemma is_int64_small: "0 \<le> x \<Longrightarrow> x < 2 ^ 63 \<Longrightarrow> is_int64 x"
  by (simp add: is_int64_def)

section \<open>Folds over maps\<close>

lemma fold_mput_other:
  "(\<forall>x \<in> set xs. key x \<noteq> k) \<Longrightarrow>
   mget (fold (\<lambda>x m. mput (key x) (val x) m) xs m0) k = mget m0 k"
  by (induction xs arbitrary: m0) auto

lemma fold_mput_dom:
  "mhas (fold (\<lambda>x m. mput (key x) (val x) m) xs m0) k \<longleftrightarrow> k \<in> key ` set xs \<or> mhas m0 k"
  by (induction xs arbitrary: m0) auto

lemma wf_fold_mput [simp, go_inv]:
  "wf_map m0 \<Longrightarrow> wf_map (fold (\<lambda>x m. mput (key x) (val x) m) xs m0)"
  by (induction xs arbitrary: m0) auto

end
