(* ===== verification/Go_Strings.thy ===== *)
theory Go_Strings
  imports Prelude
begin

text \<open>
  The functions of Go's \<^verbatim>\<open>strings\<close> and \<^verbatim>\<open>strconv\<close> packages that the program
  calls. A Go string is its list of bytes. Case folding and white space are the
  ASCII ones: on strings of ASCII bytes, which is what panel identifiers,
  protocol names and HTTP header fields are, they agree with Go's functions.
\<close>

section \<open>White space, case, prefixes\<close>

definition code :: "char \<Rightarrow> nat" where
  "code c = of_char c"

definition is_space :: "char \<Rightarrow> bool" where
  "is_space c \<longleftrightarrow> (9 \<le> code c \<and> code c \<le> 13) \<or> code c = 32"

definition TrimSpace :: "string \<Rightarrow> string" where
  "TrimSpace s = rev (dropWhile is_space (rev (dropWhile is_space s)))"

definition lower_char :: "char \<Rightarrow> char" where
  "lower_char c = (if 65 \<le> code c \<and> code c \<le> 90 then char_of (code c + 32) else c)"

definition ToLower :: "string \<Rightarrow> string" where
  "ToLower s = map lower_char s"

definition EqualFold :: "string \<Rightarrow> string \<Rightarrow> bool" where
  "EqualFold s t \<longleftrightarrow> ToLower s = ToLower t"

fun HasPrefix :: "string \<Rightarrow> string \<Rightarrow> bool" where
  "HasPrefix s [] = True"
| "HasPrefix [] (p # ps) = False"
| "HasPrefix (c # s) (p # ps) = (c = p \<and> HasPrefix s ps)"

definition TrimPrefix :: "string \<Rightarrow> string \<Rightarrow> string" where
  "TrimPrefix s p = (if HasPrefix s p then drop (length p) s else s)"

fun Contains :: "string \<Rightarrow> string \<Rightarrow> bool" where
  "Contains [] t = (t = [])"
| "Contains (c # s) t = (HasPrefix (c # s) t \<or> Contains s t)"

definition TrimLeftSet :: "string \<Rightarrow> string \<Rightarrow> string" where
  "TrimLeftSet s cs = dropWhile (\<lambda>c. c \<in> set cs) s"

definition TrimRight :: "string \<Rightarrow> string \<Rightarrow> string" where
  "TrimRight s cs = rev (dropWhile (\<lambda>c. c \<in> set cs) (rev s))"

definition Trim :: "string \<Rightarrow> string \<Rightarrow> string" where
  "Trim s cs = TrimRight (TrimLeftSet s cs) cs"

text \<open>\<open>strings.IndexByte\<close>: the position of the first occurrence, \<open>None\<close> for \<open>-1\<close>.\<close>

fun IndexByte :: "string \<Rightarrow> char \<Rightarrow> nat option" where
  "IndexByte [] b = None"
| "IndexByte (c # s) b = (if c = b then Some 0 else map_option Suc (IndexByte s b))"

text \<open>\<open>strings.Fields\<close>: the maximal runs of non-space bytes.\<close>

function Fields :: "string \<Rightarrow> string list" where
  "Fields s =
     (let t = dropWhile is_space s in
      if t = [] then []
      else takeWhile (\<lambda>c. \<not> is_space c) t # Fields (dropWhile (\<lambda>c. \<not> is_space c) t))"
  by pat_completeness auto
termination
proof (relation "measure length", simp)
  fix s t :: string
  assume t: "t = dropWhile is_space s" and ne: "t \<noteq> []"
  have "\<not> is_space (hd t)" using t ne hd_dropWhile by metis
  then have "length (dropWhile (\<lambda>c. \<not> is_space c) t) < length t"
    using ne by (cases t) (simp_all add: length_dropWhile_le le_imp_less_Suc)
  also have "\<dots> \<le> length s" using t by (simp add: length_dropWhile_le)
  finally show "(dropWhile (\<lambda>c. \<not> is_space c) t, s) \<in> measure length" by simp
qed

declare Fields.simps [simp del]

text \<open>\<open>strings.Join\<close> and \<open>strings.Split\<close> on a one-byte separator.\<close>

fun Join :: "string list \<Rightarrow> string \<Rightarrow> string" where
  "Join [] sep = []"
| "Join [s] sep = s"
| "Join (s # t # ss) sep = s @ sep @ Join (t # ss) sep"

fun SplitByte :: "string \<Rightarrow> char \<Rightarrow> string list" where
  "SplitByte [] b = [[]]"
| "SplitByte (c # s) b =
     (if c = b then [] # SplitByte s b
      else (case SplitByte s b of [] \<Rightarrow> [[c]] | w # ws \<Rightarrow> (c # w) # ws))"

lemma HasPrefix_iff: "HasPrefix s p \<longleftrightarrow> (\<exists>t. s = p @ t)"
  by (induction s p rule: HasPrefix.induct) auto

lemma Contains_iff: "Contains s t \<longleftrightarrow> (\<exists>a b. s = a @ t @ b)"
proof (induction s)
  case Nil
  then show ?case by auto
next
  case (Cons c s)
  show ?case
  proof
    assume "Contains (c # s) t"
    then show "\<exists>a b. c # s = a @ t @ b"
      unfolding Contains.simps HasPrefix_iff Cons.IH by (metis append_Cons append_Nil)
  next
    assume "\<exists>a b. c # s = a @ t @ b"
    then obtain a b where ab: "c # s = a @ t @ b" by blast
    show "Contains (c # s) t"
    proof (cases a)
      case Nil
      then have "HasPrefix (c # s) t" using ab HasPrefix_iff by force
      then show ?thesis by simp
    next
      case (Cons x a')
      then show ?thesis using ab \<open>Contains s t \<longleftrightarrow> _\<close> by auto
    qed
  qed
qed

lemma Contains_byte: "Contains s [b] \<longleftrightarrow> b \<in> set s"
  by (auto simp: Contains_iff in_set_conv_decomp)

lemma sep_inj:
  "c \<notin> set a \<Longrightarrow> c \<notin> set a' \<Longrightarrow> a @ c # b = a' @ c # b' \<Longrightarrow> a = a' \<and> b = b'"
proof (induction a arbitrary: a')
  case Nil
  then show ?case by (cases a') auto
next
  case (Cons x a)
  then show ?case by (cases a') auto
qed

section \<open>Idempotence of normalisation\<close>

lemma code_less [simp]: "code c < 256"
  by (simp add: code_def)

lemma code_char_of [simp]: "n < 256 \<Longrightarrow> code (char_of n) = n"
  by (simp add: code_def)

lemma lower_lower [simp]: "lower_char (lower_char c) = lower_char c"
  by (simp add: lower_char_def)

lemma ToLower_ToLower [simp]: "ToLower (ToLower s) = ToLower s"
  by (simp add: ToLower_def)

lemma is_space_lower [simp]: "is_space (lower_char c) = is_space c"
  by (auto simp: is_space_def lower_char_def)

lemma ToLower_Nil_iff [simp]: "ToLower s = [] \<longleftrightarrow> s = []"
  by (simp add: ToLower_def)

lemma dropWhile_rev_idem:
  "dropWhile P (rev (dropWhile P (rev (dropWhile P s)))) = rev (dropWhile P (rev (dropWhile P s)))"
proof (cases "rev (dropWhile P (rev (dropWhile P s)))")
  case Nil
  show ?thesis unfolding Nil by simp
next
  case (Cons a list)
  have "suffix (dropWhile P (rev (dropWhile P s))) (rev (dropWhile P s))"
    by (rule suffix_dropWhile)
  then have "prefix (a # list) (dropWhile P s)"
    using Cons by (metis rev_rev_ident suffix_to_prefix)
  then obtain zs where "dropWhile P s = a # (list @ zs)"
    by (auto simp: prefix_def)
  then have "\<not> P a" by (simp add: dropWhile_eq_Cons_conv)
  then show ?thesis unfolding Cons by simp
qed

lemma TrimSpace_TrimSpace [simp]: "TrimSpace (TrimSpace s) = TrimSpace s"
  by (simp add: TrimSpace_def dropWhile_rev_idem dropWhile_idem)

lemma dropWhile_ToLower: "dropWhile is_space (ToLower s) = ToLower (dropWhile is_space s)"
  by (induction s) (auto simp: ToLower_def)

lemma rev_ToLower: "rev (ToLower s) = ToLower (rev s)"
  by (simp add: ToLower_def rev_map)

lemma TrimSpace_ToLower: "TrimSpace (ToLower s) = ToLower (TrimSpace s)"
  by (simp add: TrimSpace_def dropWhile_ToLower rev_ToLower)

lemma TrimSpace_hd:
  assumes "TrimSpace s = c # t"
  shows "\<not> is_space c"
proof -
  have "dropWhile is_space (TrimSpace s) = TrimSpace s"
    by (simp add: TrimSpace_def dropWhile_rev_idem)
  then have "dropWhile is_space (c # t) = c # t" using assms by simp
  then show ?thesis unfolding dropWhile_eq_Cons_conv by blast
qed

lemma TrimSpace_subset: "set (TrimSpace s) \<subseteq> set s"
  unfolding TrimSpace_def by (auto dest!: set_dropWhileD)

lemma dropWhile_none:
  assumes "v \<noteq> []" "\<not> P (hd v)" "\<not> P (last v)"
  shows "dropWhile P v = v" "dropWhile P (rev v) = rev v"
proof -
  show "dropWhile P v = v" using assms by (cases v) auto
  show "dropWhile P (rev v) = rev v" using assms by (cases v rule: rev_cases) auto
qed

section \<open>Searching a byte\<close>

lemma IndexByte_less: "IndexByte s b = Some i \<Longrightarrow> i < length s"
  by (induction s arbitrary: i) (auto split: if_splits)

lemma IndexByte_append: "b \<notin> set l \<Longrightarrow> IndexByte (l @ b # r) b = Some (length l)"
  by (induction l) auto

lemma IndexByte_None: "b \<notin> set l \<Longrightarrow> IndexByte l b = None"
  by (induction l) auto

end
