(* ===== verification/Go_Strconv.thy ===== *)
theory Go_Strconv
  imports Go_Strings
begin

text \<open>
  Decimal printing and parsing as \<^verbatim>\<open>strconv.Itoa\<close>, \<^verbatim>\<open>strconv.Atoi\<close>,
  \<^verbatim>\<open>strconv.ParseInt\<close> and \<^verbatim>\<open>strconv.ParseUint\<close> do them, with the two kinds of
  error and the value Go returns beside each of them.
\<close>

datatype 'a parse = POk 'a | PSyntax | PRange 'a

text \<open>The value part of a call whose error is ignored: 0 on a syntax error, the
  nearest bound on a range error.\<close>

fun parse_value :: "'a \<Rightarrow> 'a parse \<Rightarrow> 'a" where
  "parse_value z (POk v) = v"
| "parse_value z PSyntax = z"
| "parse_value z (PRange v) = v"

fun parse_ok :: "'a parse \<Rightarrow> 'a option" where
  "parse_ok (POk v) = Some v"
| "parse_ok _ = None"

section \<open>Parsing\<close>

definition digit_val :: "char \<Rightarrow> nat option" where
  "digit_val c =
     (let n = code c in
      if 48 \<le> n \<and> n \<le> 57 then Some (n - 48)
      else if 97 \<le> n \<and> n \<le> 122 then Some (n - 87)
      else if 65 \<le> n \<and> n \<le> 90 then Some (n - 55)
      else None)"

fun parse_digits :: "nat \<Rightarrow> nat \<Rightarrow> string \<Rightarrow> nat \<Rightarrow> nat parse" where
  "parse_digits base maxv [] n = POk n"
| "parse_digits base maxv (c # s) n =
     (case digit_val c of
        None \<Rightarrow> PSyntax
      | Some d \<Rightarrow>
          if base \<le> d then PSyntax
          else if maxv < n * base + d then PRange maxv
          else parse_digits base maxv s (n * base + d))"

definition ParseUint :: "string \<Rightarrow> nat \<Rightarrow> nat \<Rightarrow> nat parse" where
  "ParseUint s base bits =
     (if s = [] then PSyntax else parse_digits base (2 ^ bits - 1) s 0)"

definition ParseInt :: "string \<Rightarrow> nat \<Rightarrow> int parse" where
  "ParseInt s base =
     (let neg = (s \<noteq> [] \<and> hd s = CHR ''-'');
          t = (if s \<noteq> [] \<and> (hd s = CHR ''-'' \<or> hd s = CHR ''+'') then tl s else s);
          bound = (\<lambda>un. if \<not> neg \<and> 2 ^ 63 \<le> un then PRange (2 ^ 63 - 1)
                         else if neg \<and> 2 ^ 63 < un then PRange (- (2 ^ 63))
                         else POk (if neg then - un else un))
      in case ParseUint t base 64 of
           PSyntax \<Rightarrow> PSyntax
         | POk un \<Rightarrow> bound (int un)
         | PRange un \<Rightarrow> bound (int un))"

definition Atoi :: "string \<Rightarrow> int parse" where
  "Atoi s = ParseInt s 10"

section \<open>Printing\<close>

definition digit_char :: "nat \<Rightarrow> char" where
  "digit_char d = char_of (48 + d)"

fun nat_str :: "nat \<Rightarrow> string" where
  "nat_str n = (if n < 10 then [digit_char n] else nat_str (n div 10) @ [digit_char (n mod 10)])"

declare nat_str.simps [simp del]

definition Itoa :: "int \<Rightarrow> string" where
  "Itoa i = (if i < 0 then CHR ''-'' # nat_str (nat (- i)) else nat_str (nat i))"

section \<open>Numeric user names\<close>

text \<open>\<open>isNumericUser\<close> of panelapi/sync.go: a non-empty string of digits.\<close>

definition is_digit :: "char \<Rightarrow> bool" where
  "is_digit c \<longleftrightarrow> 48 \<le> code c \<and> code c \<le> 57"

definition isNumericUser :: "string \<Rightarrow> bool" where
  "isNumericUser user = (user \<noteq> [] \<and> list_all is_digit user)"

section \<open>Round trips\<close>

lemma digit_val_char [simp]: "d < 10 \<Longrightarrow> digit_val (digit_char d) = Some d"
  by (simp add: digit_val_def digit_char_def Let_def)

lemma is_digit_char [simp]: "d < 10 \<Longrightarrow> is_digit (digit_char d)"
  by (simp add: is_digit_def digit_char_def)

lemma nat_str_ne [simp]: "nat_str n \<noteq> []"
  by (subst nat_str.simps) simp

lemma nat_str_digits: "list_all is_digit (nat_str n)"
proof (induction n rule: nat_str.induct)
  case (1 n)
  then show ?case by (subst nat_str.simps) auto
qed

lemma isNumericUser_nat_str [simp]: "isNumericUser (nat_str n)"
  by (simp add: isNumericUser_def nat_str_digits)

lemma parse_digits_append:
  "parse_digits b m (s @ t) n =
     (case parse_digits b m s n of POk k \<Rightarrow> parse_digits b m t k | PSyntax \<Rightarrow> PSyntax | PRange v \<Rightarrow> PRange v)"
  by (induction s arbitrary: n) (auto split: option.splits)

lemma parse_digits_nat_str: "n \<le> m \<Longrightarrow> parse_digits 10 m (nat_str n) 0 = POk n"
proof (induction n rule: nat_str.induct)
  case (1 n)
  show ?case
  proof (cases "n < 10")
    case True
    then show ?thesis using "1.prems" by (subst nat_str.simps) simp
  next
    case False
    then have "parse_digits 10 m (nat_str (n div 10)) 0 = POk (n div 10)"
      using 1 by simp
    then show ?thesis using False "1.prems"
      by (subst nat_str.simps) (simp add: parse_digits_append)
  qed
qed

lemma digits_not_sign:
  "list_all is_digit s \<Longrightarrow> s \<noteq> [] \<Longrightarrow> hd s \<noteq> CHR ''-'' \<and> hd s \<noteq> CHR ''+''"
  by (cases s) (auto simp: is_digit_def code_def)

lemma ParseUint_nat_str: "n < 2 ^ 64 \<Longrightarrow> ParseUint (nat_str n) 10 64 = POk n"
  by (simp add: ParseUint_def parse_digits_nat_str)

lemma Atoi_Itoa [simp]: "is_int64 i \<Longrightarrow> Atoi (Itoa i) = POk i"
proof (cases "i < 0")
  case True
  assume i: "is_int64 i"
  then have "nat (- i) < 2 ^ 64" using True by (simp add: is_int64_def)
  then show ?thesis using True i
    by (simp add: Atoi_def ParseInt_def Itoa_def ParseUint_nat_str is_int64_def Let_def)
next
  case False
  assume i: "is_int64 i"
  then have "nat i < 2 ^ 64" using False by (simp add: is_int64_def)
  then show ?thesis using False i digits_not_sign [OF nat_str_digits nat_str_ne, of "nat i"]
    by (simp add: Atoi_def ParseInt_def Itoa_def ParseUint_nat_str is_int64_def Let_def)
qed

lemma Itoa_inj: "is_int64 i \<Longrightarrow> is_int64 j \<Longrightarrow> Itoa i = Itoa j \<Longrightarrow> i = j"
  by (metis Atoi_Itoa parse.inject(1))

lemma isNumericUser_Itoa [simp]: "isNumericUser (Itoa i) \<longleftrightarrow> 0 \<le> i"
  by (auto simp: Itoa_def isNumericUser_def nat_str_digits is_digit_def code_def)

lemma isNumericUser_Nil [simp]: "\<not> isNumericUser []"
  by (simp add: isNumericUser_def)

lemma parse_digits_ok_bound:
  "parse_digits b m s n = POk k \<Longrightarrow> n \<le> m \<Longrightarrow> k \<le> m"
  by (induction s arbitrary: n) (auto split: option.splits if_splits)

lemma Atoi_int64: "Atoi s = POk i \<Longrightarrow> is_int64 i"
  by (auto simp: Atoi_def ParseInt_def Let_def is_int64_def split: parse.splits if_splits)

end
