(* ===== verification/Json.thy ===== *)
theory Json
  imports Go_Strconv
begin

text \<open>
  The parts of Go's \<^verbatim>\<open>encoding/json\<close> the program uses: parsing a byte string into a
  syntax tree, reading struct fields from it the way \<^verbatim>\<open>json.Unmarshal\<close> does
  (keys match exactly first and then without case, the last duplicate wins,
  \<^verbatim>\<open>null\<close> leaves the zero value, a value of the wrong kind is an error), and
  printing a tree. The parser carries fuel; twice the length of the input and two is enough
  for every text the printer produces, which the round-trip lemma shows.
  Text is taken to be well-formed UTF-8, whose bytes beyond ASCII pass through
  unchanged: Go replaces malformed bytes by U+FFFD, and writes U+2028 and U+2029 as
  escapes that read back as the same characters. An object that repeats the key of a
  nested struct, which Go merges, is taken to give the last of them.
\<close>

section \<open>Syntax trees\<close>

datatype json =
    JNull
  | JBool bool
  | JNum string
  | JStr string
  | JArr "json list"
  | JObj "(string \<times> json) list"

section \<open>Parsing\<close>

definition is_ws :: "char \<Rightarrow> bool" where
  "is_ws c \<longleftrightarrow> code c \<in> {9, 10, 13, 32}"

definition skip_ws :: "string \<Rightarrow> string" where
  "skip_ws s = dropWhile is_ws s"

definition hex_val :: "char \<Rightarrow> nat option" where
  "hex_val c = (case digit_val c of Some d \<Rightarrow> if d < 16 then Some d else None | None \<Rightarrow> None)"

definition hex4 :: "char \<Rightarrow> char \<Rightarrow> char \<Rightarrow> char \<Rightarrow> nat option" where
  "hex4 a b c d =
     (case (hex_val a, hex_val b, hex_val c, hex_val d) of
        (Some x, Some y, Some z, Some w) \<Rightarrow> Some (((x * 16 + y) * 16 + z) * 16 + w)
      | _ \<Rightarrow> None)"

definition utf8 :: "nat \<Rightarrow> string" where
  "utf8 n =
     (if n < 128 then [char_of n]
      else if n < 2048 then [char_of (192 + n div 64), char_of (128 + n mod 64)]
      else if n < 65536 then
        [char_of (224 + n div 4096), char_of (128 + n div 64 mod 64), char_of (128 + n mod 64)]
      else
        [char_of (240 + n div 262144), char_of (128 + n div 4096 mod 64),
         char_of (128 + n div 64 mod 64), char_of (128 + n mod 64)])"

text \<open>A UTF-16 surrogate on its own becomes the replacement character.\<close>

definition surrogate :: "nat \<Rightarrow> bool" where
  "surrogate n \<longleftrightarrow> 55296 \<le> n \<and> n < 57344"

definition unescape :: "char \<Rightarrow> char option" where
  "unescape e =
     (if e = CHR 0x22 then Some (CHR 0x22)
      else if e = CHR 0x5C then Some (CHR 0x5C)
      else if e = CHR ''/'' then Some (CHR ''/'')
      else if e = CHR ''b'' then Some (CHR 0x08)
      else if e = CHR ''f'' then Some (CHR 0x0C)
      else if e = CHR ''n'' then Some (CHR 0x0A)
      else if e = CHR ''r'' then Some (CHR 0x0D)
      else if e = CHR ''t'' then Some (CHR 0x09)
      else None)"

text \<open>The second half of a surrogate pair, if the input continues with one.\<close>

fun low_surrogate :: "string \<Rightarrow> (nat \<times> string) option" where
  "low_surrogate (x # y # a # b # c # d # s) =
     (if x = CHR 0x5C \<and> y = CHR ''u'' then
        (case hex4 a b c d of
           Some n \<Rightarrow> if 56320 \<le> n \<and> n < 57344 then Some (n, s) else None
         | None \<Rightarrow> None)
      else None)"
| "low_surrogate _ = None"

definition cons_result :: "string \<Rightarrow> (string \<times> string) option \<Rightarrow> (string \<times> string) option" where
  "cons_result p r = map_option (\<lambda>(s, rest). (p @ s, rest)) r"

text \<open>The body of a string literal after its opening quote.\<close>

fun parse_str :: "nat \<Rightarrow> string \<Rightarrow> (string \<times> string) option" where
  "parse_str 0 s = None"
| "parse_str (Suc n) s =
     (case s of
        [] \<Rightarrow> None
      | c # s1 \<Rightarrow>
          if c = CHR 0x22 then Some ([], s1)
          else if c = CHR 0x5C then
            (case s1 of
               [] \<Rightarrow> None
             | e # s2 \<Rightarrow>
                 if e = CHR ''u'' then
                   (case s2 of
                      a # b # d # f # s3 \<Rightarrow>
                        (case hex4 a b d f of
                           None \<Rightarrow> None
                         | Some u \<Rightarrow>
                             if \<not> surrogate u then cons_result (utf8 u) (parse_str n s3)
                             else if u < 56320 then
                               (case low_surrogate s3 of
                                  Some (l, s4) \<Rightarrow>
                                    cons_result (utf8 (65536 + (u - 55296) * 1024 + (l - 56320))) (parse_str n s4)
                                | None \<Rightarrow> cons_result (utf8 65533) (parse_str n s3))
                             else cons_result (utf8 65533) (parse_str n s3))
                    | _ \<Rightarrow> None)
                 else
                   (case unescape e of
                      None \<Rightarrow> None
                    | Some x \<Rightarrow> cons_result [x] (parse_str n s2)))
          else if code c < 32 then None
          else cons_result [c] (parse_str n s1))"

text \<open>A number literal: optional minus, digits without a leading zero, fraction, exponent.\<close>

definition take_digits :: "string \<Rightarrow> string \<times> string" where
  "take_digits s = (takeWhile is_digit s, dropWhile is_digit s)"

definition parse_frac :: "string \<Rightarrow> (string \<times> string) option" where
  "parse_frac s =
     (if s \<noteq> [] \<and> hd s = CHR ''.'' then
        (let (d, r) = take_digits (tl s) in if d = [] then None else Some (CHR ''.'' # d, r))
      else Some ([], s))"

definition parse_exp :: "string \<Rightarrow> (string \<times> string) option" where
  "parse_exp s =
     (if s \<noteq> [] \<and> (hd s = CHR ''e'' \<or> hd s = CHR ''E'') then
        (let t = tl s;
             sg = (if t \<noteq> [] \<and> (hd t = CHR ''+'' \<or> hd t = CHR ''-'') then [hd t] else []);
             (d, r) = take_digits (drop (length sg) t)
         in if d = [] then None else Some (hd s # sg @ d, r))
      else Some ([], s))"

definition parse_num :: "string \<Rightarrow> (string \<times> string) option" where
  "parse_num s =
     (let neg = (if s \<noteq> [] \<and> hd s = CHR ''-'' then ''-'' else []);
          (d, r) = take_digits (drop (length neg) s)
      in if d = [] \<or> (hd d = CHR ''0'' \<and> length d > 1) then None
         else case parse_frac r of
                None \<Rightarrow> None
              | Some (f, r1) \<Rightarrow>
                  (case parse_exp r1 of
                     None \<Rightarrow> None
                   | Some (e, r2) \<Rightarrow> Some (neg @ d @ f @ e, r2)))"

fun json_value :: "nat \<Rightarrow> string \<Rightarrow> (json \<times> string) option"
  and json_elems :: "nat \<Rightarrow> string \<Rightarrow> (json list \<times> string) option"
  and json_members :: "nat \<Rightarrow> string \<Rightarrow> ((string \<times> json) list \<times> string) option" where
  "json_value 0 s = None"
| "json_value (Suc n) s =
     (let t = skip_ws s in
      if t = [] then None
      else if hd t = CHR 0x22 then map_option (\<lambda>(x, r). (JStr x, r)) (parse_str (length t) (tl t))
      else if hd t = CHR 0x7B then
        (let u = skip_ws (tl t) in
         if u \<noteq> [] \<and> hd u = CHR 0x7D then Some (JObj [], tl u)
         else map_option (\<lambda>(x, r). (JObj x, r)) (json_members n u))
      else if hd t = CHR 0x5B then
        (let u = skip_ws (tl t) in
         if u \<noteq> [] \<and> hd u = CHR 0x5D then Some (JArr [], tl u)
         else map_option (\<lambda>(x, r). (JArr x, r)) (json_elems n u))
      else if HasPrefix t ''null'' then Some (JNull, drop 4 t)
      else if HasPrefix t ''true'' then Some (JBool True, drop 4 t)
      else if HasPrefix t ''false'' then Some (JBool False, drop 5 t)
      else map_option (\<lambda>(x, r). (JNum x, r)) (parse_num t))"
| "json_elems 0 s = None"
| "json_elems (Suc n) s =
     (case json_value n s of
        None \<Rightarrow> None
      | Some (v, r) \<Rightarrow>
          (let t = skip_ws r in
           if t = [] then None
           else if hd t = CHR 0x5D then Some ([v], tl t)
           else if hd t = CHR '','' then map_option (\<lambda>(vs, r). (v # vs, r)) (json_elems n (tl t))
           else None))"
| "json_members 0 s = None"
| "json_members (Suc n) s =
     (let t = skip_ws s in
      if t = [] \<or> hd t \<noteq> CHR 0x22 then None
      else case parse_str (length t) (tl t) of
        None \<Rightarrow> None
      | Some (k, r) \<Rightarrow>
          (let t1 = skip_ws r in
           if t1 = [] \<or> hd t1 \<noteq> CHR '':'' then None
           else case json_value n (tl t1) of
             None \<Rightarrow> None
           | Some (v, r1) \<Rightarrow>
               (let t2 = skip_ws r1 in
                if t2 = [] then None
                else if hd t2 = CHR 0x7D then Some ([(k, v)], tl t2)
                else if hd t2 = CHR '','' then map_option (\<lambda>(vs, r). ((k, v) # vs, r)) (json_members n (tl t2))
                else None)))"

text \<open>\<open>json.Unmarshal\<close> wants one value and nothing but white space after it; a
  \<open>json.Decoder\<close> reads one value and leaves the rest.\<close>

definition json_parse :: "string \<Rightarrow> json option" where
  "json_parse s =
     (case json_value (2 * length s + 2) s of
        Some (v, r) \<Rightarrow> if skip_ws r = [] then Some v else None
      | None \<Rightarrow> None)"

definition json_decode_first :: "string \<Rightarrow> json option" where
  "json_decode_first s = map_option fst (json_value (2 * length s + 2) s)"

section \<open>Reading struct fields\<close>

text \<open>
  The value a struct field gets from an object: the last member whose key selects
  the field. A key selects the field with exactly that name if the struct has one,
  otherwise the field whose name it equals without case.
\<close>

definition key_selects :: "string list \<Rightarrow> string \<Rightarrow> string \<Rightarrow> bool" where
  "key_selects fields name k \<longleftrightarrow> k = name \<or> (k \<notin> set fields \<and> EqualFold k name)"

definition obj_field :: "string list \<Rightarrow> string \<Rightarrow> (string \<times> json) list \<Rightarrow> json" where
  "obj_field fields name ms =
     fold (\<lambda>(k, v) acc. if key_selects fields name k \<and> v \<noteq> JNull then v else acc) ms JNull"

definition dec_string :: "json \<Rightarrow> string option" where
  "dec_string j = (case j of JNull \<Rightarrow> Some [] | JStr s \<Rightarrow> Some s | _ \<Rightarrow> None)"

definition dec_bool :: "json \<Rightarrow> bool option" where
  "dec_bool j = (case j of JNull \<Rightarrow> Some False | JBool b \<Rightarrow> Some b | _ \<Rightarrow> None)"

definition dec_int :: "json \<Rightarrow> int option" where
  "dec_int j = (case j of JNull \<Rightarrow> Some 0 | JNum s \<Rightarrow> parse_ok (ParseInt s 10) | _ \<Rightarrow> None)"

fun dec_all :: "(json \<Rightarrow> 'a option) \<Rightarrow> json list \<Rightarrow> 'a list option" where
  "dec_all f [] = Some []"
| "dec_all f (j # js) =
     (case f j of None \<Rightarrow> None
      | Some x \<Rightarrow> (case dec_all f js of None \<Rightarrow> None | Some xs \<Rightarrow> Some (x # xs)))"

definition dec_list :: "(json \<Rightarrow> 'a option) \<Rightarrow> json \<Rightarrow> 'a list option" where
  "dec_list f j = (case j of JNull \<Rightarrow> Some [] | JArr js \<Rightarrow> dec_all f js | _ \<Rightarrow> None)"

text \<open>The members of a struct value; \<open>null\<close> leaves the struct as it was.\<close>

definition dec_members :: "json \<Rightarrow> (string \<times> json) list option" where
  "dec_members j = (case j of JNull \<Rightarrow> Some [] | JObj ms \<Rightarrow> Some ms | _ \<Rightarrow> None)"

section \<open>Printing\<close>

definition hex_digit :: "nat \<Rightarrow> char" where
  "hex_digit d = (if d < 10 then char_of (48 + d) else char_of (87 + d))"

text \<open>Go escapes quotes, backslashes, control characters and the HTML characters.\<close>

definition print_char :: "char \<Rightarrow> string" where
  "print_char c =
     (if c = CHR 0x22 \<or> c = CHR 0x5C then [CHR 0x5C, c]
      else if c = CHR 0x08 then [CHR 0x5C, CHR ''b'']
      else if c = CHR 0x0C then [CHR 0x5C, CHR ''f'']
      else if c = CHR 0x0A then [CHR 0x5C, CHR ''n'']
      else if c = CHR 0x0D then [CHR 0x5C, CHR ''r'']
      else if c = CHR 0x09 then [CHR 0x5C, CHR ''t'']
      else if code c < 32 \<or> c = CHR ''<'' \<or> c = CHR ''>'' \<or> c = CHR ''&'' then
        [CHR 0x5C, CHR ''u'', CHR ''0'', CHR ''0'', hex_digit (code c div 16), hex_digit (code c mod 16)]
      else [c])"

definition print_str :: "string \<Rightarrow> string" where
  "print_str s = CHR 0x22 # concat (map print_char s) @ [CHR 0x22]"

fun print_json :: "json \<Rightarrow> string" where
  "print_json JNull = ''null''"
| "print_json (JBool b) = (if b then ''true'' else ''false'')"
| "print_json (JNum s) = s"
| "print_json (JStr s) = print_str s"
| "print_json (JArr js) = CHR 0x5B # Join (map print_json js) '','' @ [CHR 0x5D]"
| "print_json (JObj ms) =
     CHR 0x7B # Join (map (\<lambda>(k, v). print_str k @ CHR '':'' # print_json v) ms) '','' @ [CHR 0x7D]"

section \<open>Round trip\<close>

text \<open>The trees the program prints: numbers are integers.\<close>

fun wf_json :: "json \<Rightarrow> bool" where
  "wf_json (JNum s) = (\<exists>i. s = Itoa i)"
| "wf_json (JArr js) = (\<forall>j \<in> set js. wf_json j)"
| "wf_json (JObj ms) = (\<forall>p \<in> set ms. wf_json (snd p))"
| "wf_json _ = True"

text \<open>Enough fuel for a printed tree.\<close>

fun fuel_list :: "nat list \<Rightarrow> nat" where
  "fuel_list [] = 0"
| "fuel_list (n # ns) = Suc (max n (fuel_list ns))"

fun fuel :: "json \<Rightarrow> nat" where
  "fuel (JArr js) = Suc (fuel_list (map fuel js))"
| "fuel (JObj ms) = Suc (fuel_list (map (\<lambda>p. fuel (snd p)) ms))"
| "fuel _ = 1"

definition rest_ok :: "string \<Rightarrow> bool" where
  "rest_ok r \<longleftrightarrow> r = [] \<or> hd r \<in> {CHR '','', CHR 0x5D, CHR 0x7D, CHR 0x0A}"

lemma code_inj: "code a = code b \<Longrightarrow> a = b"
  by (simp add: code_def)

lemma hex_val_digit: "d < 16 \<Longrightarrow> hex_val (hex_digit d) = Some d"
  by (auto simp: hex_val_def hex_digit_def digit_val_def Let_def)

lemma hex_val_zero: "hex_val (CHR ''0'') = Some 0"
  by code_simp

lemma hex4_code: "hex4 (CHR ''0'') (CHR ''0'') (hex_digit (code c div 16)) (hex_digit (code c mod 16)) = Some (code c)"
proof -
  have "code c div 16 < 16" by (rule less_mult_imp_div_less) simp
  then show ?thesis by (simp add: hex4_def hex_val_digit hex_val_zero)
qed

lemma utf8_code: "code c < 128 \<Longrightarrow> utf8 (code c) = [c]"
  by (simp add: utf8_def code_def)

lemma parse_str_char:
  "parse_str (Suc n) (print_char c @ r) = cons_result [c] (parse_str n r)"
proof -
  define special where "special = {CHR 0x22, CHR 0x5C, CHR 0x08, CHR 0x0C, CHR 0x0A, CHR 0x0D, CHR 0x09}"
  define html where "html \<longleftrightarrow> code c < 32 \<or> c = CHR ''<'' \<or> c = CHR ''>'' \<or> c = CHR ''&''"
  show ?thesis
  proof (cases "c \<in> special")
    case True
    then show ?thesis unfolding special_def by (elim insertE emptyE) (simp_all add: print_char_def unescape_def)
  next
    case False
    then have nin: "c \<noteq> CHR 0x22" "c \<noteq> CHR 0x5C" "c \<noteq> CHR 0x08" "c \<noteq> CHR 0x0C" "c \<noteq> CHR 0x0A"
      "c \<noteq> CHR 0x0D" "c \<noteq> CHR 0x09" by (simp_all add: special_def)
    show ?thesis
    proof (cases html)
      case True
      then have small: "code c < 128" by (auto simp: html_def code_def)
      then have "\<not> surrogate (code c)" by (simp add: surrogate_def)
      then show ?thesis using nin True small
        by (simp add: print_char_def html_def [symmetric] hex4_code utf8_code)
    next
      case plain: False
      then have "\<not> code c < 32" "c \<noteq> CHR ''<''" "c \<noteq> CHR ''>''" "c \<noteq> CHR ''&''"
        by (simp_all add: html_def)
      then show ?thesis using nin by (simp add: print_char_def)
    qed
  qed
qed

declare parse_str.simps(2) [simp del]

lemma parse_str_print:
  "length s < n \<Longrightarrow> parse_str n (concat (map print_char s) @ CHR 0x22 # r) = Some (s, r)"
proof (induction s arbitrary: n)
  case Nil
  then show ?case by (cases n) (auto simp: parse_str.simps(2))
next
  case (Cons c s)
  then obtain m where m: "n = Suc m" "length s < m" by (cases n) auto
  then show ?case using Cons.IH [of m] by (simp add: parse_str_char cons_result_def)
qed

lemma print_char_ne: "1 \<le> length (print_char c)"
  by (simp add: print_char_def)

lemma length_print_chars: "length s \<le> length (concat (map print_char s))"
proof (induction s)
  case (Cons c s)
  then show ?case using print_char_ne [of c] by simp
qed simp

lemma skip_ws_Cons [simp]: "\<not> is_ws c \<Longrightarrow> skip_ws (c # s) = c # s"
  by (simp add: skip_ws_def)

lemma not_ws [simp]:
  "\<not> is_ws (CHR 0x22)" "\<not> is_ws (CHR 0x7B)" "\<not> is_ws (CHR 0x7D)" "\<not> is_ws (CHR 0x5B)" "\<not> is_ws (CHR 0x5D)"
  "\<not> is_ws (CHR '','')" "\<not> is_ws (CHR '':'')" "\<not> is_ws (CHR ''n'')" "\<not> is_ws (CHR ''t'')"
  "\<not> is_ws (CHR ''f'')" "\<not> is_ws (CHR ''-'')"
  by (auto simp: is_ws_def code_def)

lemma rest_ok_not_digit: "rest_ok r \<Longrightarrow> takeWhile is_digit r = [] \<and> dropWhile is_digit r = r"
  by (cases r) (auto simp: rest_ok_def is_digit_def code_def)

lemma parse_frac_rest: "rest_ok r \<Longrightarrow> parse_frac r = Some ([], r)"
  by (auto simp: rest_ok_def parse_frac_def)

lemma parse_exp_rest: "rest_ok r \<Longrightarrow> parse_exp r = Some ([], r)"
  by (auto simp: rest_ok_def parse_exp_def)

lemma take_digits_nat_str: "rest_ok r \<Longrightarrow> take_digits (nat_str n @ r) = (nat_str n, r)"
  using nat_str_digits [of n] rest_ok_not_digit [of r]
  by (simp add: take_digits_def list_all_iff takeWhile_append2 dropWhile_append2)

lemma hd_nat_str: "hd (nat_str n) = CHR ''0'' \<Longrightarrow> n = 0"
proof (induction n rule: nat_str.induct)
  case (1 n)
  have dig: "digit_char d = CHR ''0'' \<Longrightarrow> d < 10 \<Longrightarrow> d = 0" for d
  proof -
    assume "digit_char d = CHR ''0''" "d < 10"
    then have "code (digit_char d) = code (CHR ''0'')" by simp
    then show "d = 0" using \<open>d < 10\<close> by (simp add: digit_char_def) (simp add: code_def)
  qed
  show ?case
  proof (cases "n < 10")
    case True
    then show ?thesis using 1(2) dig by (simp add: nat_str.simps [of n])
  next
    case False
    then have "hd (nat_str (n div 10)) = CHR ''0''" using 1(2) by (simp add: nat_str.simps [of n])
    then have "n div 10 = 0" using 1(1) False by blast
    then show ?thesis using False by simp
  qed
qed

lemma nat_str_no_leading_zero: "\<not> (hd (nat_str n) = CHR ''0'' \<and> length (nat_str n) > 1)"
  using hd_nat_str [of n] by (auto simp: nat_str.simps [of 0])

lemma nat_str_hd_digit: "is_digit (hd (nat_str n))"
  using nat_str_digits [of n] nat_str_ne [of n] by (cases "nat_str n") auto

lemma parse_num_Itoa:
  assumes "rest_ok r"
  shows "parse_num (Itoa i @ r) = Some (Itoa i, r)"
proof (cases "i < 0")
  case True
  then show ?thesis
    using assms nat_str_no_leading_zero [of "nat (- i)"] nat_str_ne [of "nat (- i)"]
    by (auto simp: parse_num_def Itoa_def take_digits_nat_str parse_frac_rest parse_exp_rest Let_def)
next
  case False
  have "hd (nat_str (nat i)) \<noteq> CHR ''-''"
    using nat_str_hd_digit [of "nat i"] by (auto simp: is_digit_def code_def)
  then show ?thesis
    using False assms nat_str_no_leading_zero [of "nat i"] nat_str_ne [of "nat i"]
    by (auto simp: parse_num_def Itoa_def take_digits_nat_str parse_frac_rest parse_exp_rest Let_def)
qed

lemma digit_not_special:
  "is_digit c \<Longrightarrow> \<not> is_ws c \<and> c \<notin> {CHR 0x22, CHR 0x7B, CHR 0x5B, CHR 0x7D, CHR 0x5D, CHR ''n'', CHR ''t'', CHR ''f''}"
  by (auto simp: is_digit_def is_ws_def code_def)

lemma Itoa_Cons: "\<exists>c s. Itoa i = c # s \<and> (is_digit c \<or> c = CHR ''-'')"
proof (cases "i < 0")
  case True
  then show ?thesis by (simp add: Itoa_def)
next
  case False
  then show ?thesis
    using nat_str_hd_digit [of "nat i"] nat_str_ne [of "nat i"]
    by (cases "nat_str (nat i)") (auto simp: Itoa_def)
qed

lemma json_value_num:
  assumes "rest_ok r"
  shows "json_value (Suc n) (Itoa i @ r) = Some (JNum (Itoa i), r)"
proof -
  obtain c s where cs: "Itoa i = c # s" "is_digit c \<or> c = CHR ''-''" using Itoa_Cons by blast
  then have "\<not> is_ws c \<and> c \<notin> {CHR 0x22, CHR 0x7B, CHR 0x5B, CHR ''n'', CHR ''t'', CHR ''f''}"
    using digit_not_special [of c] by auto
  then show ?thesis using parse_num_Itoa [OF assms, of i] cs(1) by (simp add: Let_def)
qed

lemma print_json_Cons:
  assumes "wf_json j"
  obtains c s where "print_json j = c # s" "\<not> is_ws c" "c \<noteq> CHR 0x5D" "c \<noteq> CHR 0x7D"
proof -
  have "\<exists>c s. print_json j = c # s \<and> \<not> is_ws c \<and> c \<noteq> CHR 0x5D \<and> c \<noteq> CHR 0x7D"
  proof (cases j)
    case (JNum s)
    then obtain i where "s = Itoa i" using assms by auto
    moreover obtain c s' where "Itoa i = c # s'" "is_digit c \<or> c = CHR ''-''" using Itoa_Cons by blast
    moreover have "\<not> is_ws c \<and> c \<notin> {CHR 0x5D, CHR 0x7D}"
      using calculation(3) digit_not_special [of c] by auto
    ultimately show ?thesis using JNum by auto
  qed (auto simp: print_str_def)
  then show thesis using that by blast
qed

lemma json_value_str:
  "json_value (Suc n) (print_str s @ r) = Some (JStr s, r)"
proof -
  have "length s < length (print_str s @ r)"
    using length_print_chars [of s] by (simp add: print_str_def)
  then show ?thesis
    using parse_str_print [of s "length (print_str s @ r)" r] by (simp add: print_str_def Let_def)
qed

lemma json_elems_print:
  assumes "js \<noteq> []" and "fuel_list (map fuel js) \<le> n"
    and "\<And>j m r. j \<in> set js \<Longrightarrow> fuel j \<le> m \<Longrightarrow> rest_ok r \<Longrightarrow> json_value m (print_json j @ r) = Some (j, r)"
  shows "json_elems n (Join (map print_json js) '','' @ CHR 0x5D # r) = Some (js, r)"
  using assms
proof (induction js arbitrary: n)
  case (Cons j js)
  then obtain m where m: "n = Suc m" "fuel j \<le> m" "fuel_list (map fuel js) \<le> m" by (cases n) auto
  have rok: "rest_ok (CHR '','' # x)" "rest_ok (CHR 0x5D # x)" for x by (simp_all add: rest_ok_def)
  show ?case
  proof (cases js)
    case Nil
    then show ?thesis using m Cons.prems(3) [of j m] rok by simp
  next
    case (Cons j' js')
    have "json_elems m (Join (map print_json js) '','' @ CHR 0x5D # r) = Some (js, r)"
      using Cons.IH [of m] Cons.prems m Cons by simp
    then show ?thesis using m Cons.prems(3) [of j m] rok Cons by simp
  qed
qed simp

lemma json_members_print:
  assumes "ms \<noteq> []" and "fuel_list (map (\<lambda>p. fuel (snd p)) ms) \<le> n"
    and "\<And>p m r. p \<in> set ms \<Longrightarrow> fuel (snd p) \<le> m \<Longrightarrow> rest_ok r \<Longrightarrow>
           json_value m (print_json (snd p) @ r) = Some (snd p, r)"
  shows "json_members n (Join (map (\<lambda>(k, v). print_str k @ CHR '':'' # print_json v) ms) '','' @ CHR 0x7D # r)
         = Some (ms, r)"
  using assms
proof (induction ms arbitrary: n)
  case (Cons p ms)
  obtain k v where p: "p = (k, v)" by (cases p)
  obtain m where m: "n = Suc m" "fuel v \<le> m" "fuel_list (map (\<lambda>p. fuel (snd p)) ms) \<le> m"
    using Cons.prems(2) p by (cases n) auto
  have rok: "rest_ok (CHR '','' # x)" "rest_ok (CHR 0x7D # x)" for x by (simp_all add: rest_ok_def)
  have val: "rest_ok x \<Longrightarrow> json_value m (print_json v @ x) = Some (v, x)" for x
    using Cons.prems(3) [of p m x] p m by simp
  have str: "parse_str (length (print_str k @ x)) (tl (print_str k @ x)) = Some (k, x)" for x
    using parse_str_print [of k "length (print_str k @ x)" x] length_print_chars [of k]
    by (simp add: print_str_def)
  have hd: "\<exists>y. print_str k @ x = CHR 0x22 # y" for x by (simp add: print_str_def)
  have step: "json_members n (print_str k @ CHR '':'' # print_json v @ x) =
     (case skip_ws x of [] \<Rightarrow> None
      | c # t \<Rightarrow> if c = CHR 0x7D then Some ([(k, v)], t)
                 else if c = CHR '','' then map_option (\<lambda>(vs, r). ((k, v) # vs, r)) (json_members m t)
                 else None)" if "rest_ok x" for x
  proof -
    obtain y where y: "print_str k @ CHR '':'' # print_json v @ x = CHR 0x22 # y" using hd by blast
    show ?thesis
      using y str [of "CHR '':'' # print_json v @ x"] val [OF that] m
      by (auto simp: Let_def split: list.splits)
  qed
  show ?case
  proof (cases ms)
    case Nil
    then show ?thesis using step [OF rok(2)] p by simp
  next
    case (Cons p' ms')
    have "json_members m (Join (map (\<lambda>(k, v). print_str k @ CHR '':'' # print_json v) ms) '','' @ CHR 0x7D # r)
          = Some (ms, r)"
      using Cons.IH [of m] Cons.prems m Cons by simp
    then show ?thesis using step [OF rok(1)] p Cons by simp
  qed
qed simp

lemma json_value_print:
  "wf_json j \<Longrightarrow> fuel j \<le> n \<Longrightarrow> rest_ok r \<Longrightarrow> json_value n (print_json j @ r) = Some (j, r)"
proof (induction j arbitrary: n r)
  case JNull
  then show ?case by (cases n) (simp_all add: Let_def)
next
  case (JBool b)
  then show ?case by (cases n) (simp_all add: Let_def)
next
  case (JNum s)
  then show ?case by (cases n) (auto simp: json_value_num simp del: json_value.simps)
next
  case (JStr s)
  then show ?case by (cases n) (auto simp: json_value_str simp del: json_value.simps)
next
  case (JArr js)
  then obtain m where m: "n = Suc m" "fuel_list (map fuel js) \<le> m" by (cases n) auto
  show ?case
  proof (cases "js = []")
    case True
    then show ?thesis using m by (simp add: Let_def)
  next
    case False
    then obtain j js' where js: "js = j # js'" by (cases js) auto
    then have "wf_json j" using JArr.prems by simp
    then obtain c s where c: "print_json j = c # s" "\<not> is_ws c" "c \<noteq> CHR 0x5D" "c \<noteq> CHR 0x7D"
      by (rule print_json_Cons)
    have "json_elems m (Join (map print_json js) '','' @ CHR 0x5D # r) = Some (js, r)"
      using False m JArr by (intro json_elems_print) auto
    moreover obtain t where "Join (map print_json js) '','' = c # t"
      using c js by (cases js') auto
    ultimately show ?thesis using m c by (simp add: Let_def)
  qed
next
  case (JObj ms)
  then obtain m where m: "n = Suc m" "fuel_list (map (\<lambda>p. fuel (snd p)) ms) \<le> m" by (cases n) auto
  show ?case
  proof (cases "ms = []")
    case True
    then show ?thesis using m by (simp add: Let_def)
  next
    case False
    then obtain k v ms' where ms: "ms = (k, v) # ms'" by (cases ms) auto
    have "json_members m (Join (map (\<lambda>(k, v). print_str k @ CHR '':'' # print_json v) ms) '','' @ CHR 0x7D # r)
          = Some (ms, r)"
      using False m JObj by (intro json_members_print) (auto intro: snds.intros)
    moreover obtain t where "Join (map (\<lambda>(k, v). print_str k @ CHR '':'' # print_json v) ms) '','' = CHR 0x22 # t"
      using ms by (cases ms') (auto simp: print_str_def)
    ultimately show ?thesis using m by (simp add: Let_def)
  qed
qed

lemma length_Join_ge: "x \<in> set xs \<Longrightarrow> length x \<le> length (Join xs sep)"
  by (induction xs sep rule: Join.induct) auto

lemma fuel_list_bound:
  assumes "\<And>x. x \<in> set xs \<Longrightarrow> f x \<le> 2 * length (g x)" and "\<And>x. x \<in> set xs \<Longrightarrow> 1 \<le> length (g x)"
  shows "fuel_list (map f xs) \<le> 2 * length (Join (map g xs) '','') + 1"
  using assms
proof (induction xs)
  case (Cons x xs)
  have x: "f x \<le> 2 * length (g x)" "1 \<le> length (g x)" using Cons.prems by auto
  have ih: "fuel_list (map f xs) \<le> 2 * length (Join (map g xs) '','') + 1" using Cons by auto
  show ?case
  proof (cases xs)
    case Nil
    then show ?thesis using x by simp
  next
    case (Cons y ys)
    then show ?thesis using x ih by simp
  qed
qed simp

lemma print_json_pos: "wf_json j \<Longrightarrow> 1 \<le> length (print_json j)"
  using print_json_Cons [of j] by (metis One_nat_def Suc_leI length_Cons zero_less_Suc)

lemma fuel_bound: "wf_json j \<Longrightarrow> fuel j \<le> 2 * length (print_json j)"
proof (induction j)
  case (JNum s)
  then show ?case using print_json_pos [of "JNum s"] by simp
next
  case (JArr js)
  have "fuel_list (map fuel js) \<le> 2 * length (Join (map print_json js) '','') + 1"
    using JArr print_json_pos by (intro fuel_list_bound) auto
  then show ?case by simp
next
  case (JObj ms)
  define g where "g = (\<lambda>(k, v). print_str k @ CHR '':'' # print_json v)"
  have "fuel (snd p) \<le> 2 * length (g p)" if "p \<in> set ms" for p
    using JObj that by (cases p) (force simp: g_def)
  then have "fuel_list (map (\<lambda>p. fuel (snd p)) ms) \<le> 2 * length (Join (map g ms) '','') + 1"
    by (intro fuel_list_bound) (auto simp: g_def)
  then show ?case by (simp add: g_def)
qed (auto simp: print_str_def)

lemma json_parse_print: "wf_json j \<Longrightarrow> json_parse (print_json j) = Some j"
  using json_value_print [of j "2 * length (print_json j) + 2" "[]"] fuel_bound [of j]
  by (simp add: json_parse_def rest_ok_def skip_ws_def)

lemma obj_field_Nil [simp]: "obj_field names name [] = JNull"
  by (simp add: obj_field_def)

text \<open>Objects whose keys are field names: a field gets the member with its name.\<close>

lemma obj_field_exact:
  assumes "wf_map ms" "fst ` set ms \<subseteq> set names"
  shows "obj_field names name ms = mget0 JNull ms name"
proof -
  have "fold (\<lambda>(k, v) acc. if key_selects names name k \<and> v \<noteq> JNull then v else acc) ms acc =
      (case mget ms name of Some v \<Rightarrow> if v \<noteq> JNull then v else acc | None \<Rightarrow> acc)" for acc
    using assms
  proof (induction ms arbitrary: acc)
    case (Cons p ms)
    have none: "mget ms (fst p) = None" using Cons.prems(1) by (simp add: map_of_eq_None_iff)
    have "key_selects names name (fst p) \<longleftrightarrow> fst p = name" using Cons.prems(2) by (auto simp: key_selects_def)
    then show ?case using Cons none by (cases p) (auto split: option.split)
  qed simp
  then show ?thesis by (simp add: obj_field_def mget0_def split: option.split)
qed

lemma dec_int_num [simp]: "is_int64 i \<Longrightarrow> dec_int (JNum (Itoa i)) = Some i"
  using Atoi_Itoa [of i] by (simp add: dec_int_def Atoi_def)

lemma dec_string_simps [simp]: "dec_string JNull = Some []" "dec_string (JStr s) = Some s"
  by (simp_all add: dec_string_def)

lemma dec_bool_simps [simp]: "dec_bool JNull = Some False" "dec_bool (JBool b) = Some b"
  by (simp_all add: dec_bool_def)

lemma dec_int_JNull [simp]: "dec_int JNull = Some 0"
  by (simp add: dec_int_def)

lemma dec_members_simps [simp]: "dec_members JNull = Some []" "dec_members (JObj ms) = Some ms"
  by (simp_all add: dec_members_def)

end
