(* ===== verification/Topology.thy ===== *)
theory Topology
  imports Json
begin

text \<open>
  The node topology of \<^verbatim>\<open>panelapi/topology.go\<close> and the user record of
  \<^verbatim>\<open>panelapi/types.go\<close>: node identities and tags, and the validation that
  every topology passes before it is used. The lemmas characterise a validated
  topology (distinct keys and tags, supported protocols and outbounds), show
  that keys identify nodes and that tags are made of safe characters only.
\<close>

section \<open>Data\<close>

record User =
  u_ID :: int
  u_UUID :: string
  u_Password :: string
  u_Name :: string
  u_SpeedLimit :: int

record OutboundSpec =
  ob_Type :: string
  ob_Server :: string
  ob_ServerPort :: int
  ob_Method :: string
  ob_Password :: string
  ob_Plugin :: string
  ob_PluginOpts :: string

record NodeSpec =
  ns_NodeID :: string
  ns_NodeType :: string
  ns_Tag :: string
  ns_Outbound :: OutboundSpec

record Topology =
  tp_Nodes :: "NodeSpec list"

datatype topo_error =
    NoNodes
  | UnsafeNodeID nat
  | UnsupportedNodeType nat string
  | DuplicateKey string
  | DuplicateInboundTag string
  | DuplicateOutboundTag string
  | IncompleteShadowsocks nat
  | UnsupportedOutbound nat string

section \<open>Identities and tags\<close>

definition normalizeNodeType :: "string \<Rightarrow> string" where
  "normalizeNodeType nodeType =
     (let t = ToLower (TrimSpace nodeType) in
      if t \<in> {''vless'', ''vless-reality'', ''reality''} then ''vless''
      else if t \<in> {''hy2'', ''hysteria'', ''hysteria2''} then ''hysteria''
      else t)"

definition tag_safe :: "char \<Rightarrow> bool" where
  "tag_safe c \<longleftrightarrow>
     (97 \<le> code c \<and> code c \<le> 122) \<or> (65 \<le> code c \<and> code c \<le> 90) \<or> (48 \<le> code c \<and> code c \<le> 57)
     \<or> c = CHR ''_'' \<or> c = CHR ''-''"

text \<open>The regular expression replacement of \<open>tagUnsafe\<close>: each maximal run of
  unsafe bytes becomes one dash. The flag says whether the scan is inside a run.\<close>

fun replaceUnsafe :: "bool \<Rightarrow> string \<Rightarrow> string" where
  "replaceUnsafe inrun [] = []"
| "replaceUnsafe inrun (c # s) =
     (if tag_safe c then c # replaceUnsafe False s
      else if inrun then replaceUnsafe True s
      else CHR ''-'' # replaceUnsafe True s)"

definition safeTagPart :: "string \<Rightarrow> string" where
  "safeTagPart v = Trim (replaceUnsafe False (TrimSpace v)) ''-''"

definition validateNodeID :: "string \<Rightarrow> bool" where
  "validateNodeID raw =
     (let i = TrimSpace raw in
      \<not> (i = [] \<or> Contains i ''/'' \<or> Contains i [CHR 0x5C] \<or> Contains i ''..''))"

definition NodeKey :: "string \<Rightarrow> string \<Rightarrow> string" where
  "NodeKey nodeType nodeID = normalizeNodeType nodeType @ '':'' @ TrimSpace nodeID"

definition Key :: "NodeSpec \<Rightarrow> string" where
  "Key n = NodeKey (ns_NodeType n) (ns_NodeID n)"

definition tag_protocol :: "NodeSpec \<Rightarrow> string" where
  "tag_protocol n =
     (let p = normalizeNodeType (ns_NodeType n) in if p = ''hysteria'' then ''hy2'' else p)"

definition InboundTag :: "NodeSpec \<Rightarrow> string" where
  "InboundTag n =
     (let t = safeTagPart (ns_Tag n) in
      if t \<noteq> [] then t
      else tag_protocol n @ ''-'' @ safeTagPart (ns_NodeID n) @ ''-in'')"

definition OutboundTag :: "NodeSpec \<Rightarrow> string" where
  "OutboundTag n = ''node-'' @ tag_protocol n @ ''-'' @ safeTagPart (ns_NodeID n) @ ''-out''"

definition PanelNodeType :: "NodeSpec \<Rightarrow> string" where
  "PanelNodeType n =
     (if normalizeNodeType (ns_NodeType n) = ''hysteria'' then ''hysteria'' else ''vless'')"

definition NumericID :: "NodeSpec \<Rightarrow> int \<times> bool" where
  "NumericID n =
     (let r = Atoi (ns_NodeID n) in (parse_value 0 r, parse_ok r \<noteq> None))"

section \<open>Validation\<close>

definition shadowsocks_complete :: "OutboundSpec \<Rightarrow> bool" where
  "shadowsocks_complete ob \<longleftrightarrow>
     \<not> (ob_Server ob = [] \<or> ob_ServerPort ob \<le> 0 \<or> ob_ServerPort ob > 65535
        \<or> ob_Method ob = [] \<or> ob_Password ob = [])"

definition outboundKind :: "OutboundSpec \<Rightarrow> string" where
  "outboundKind ob = ToLower (TrimSpace (ob_Type ob))"

definition checkOutbound :: "nat \<Rightarrow> OutboundSpec \<Rightarrow> topo_error option" where
  "checkOutbound i ob =
     (if outboundKind ob = ''direct'' then None
      else if outboundKind ob = ''shadowsocks'' \<or> outboundKind ob = ''ss'' then
        (if shadowsocks_complete ob then None else Some (IncompleteShadowsocks i))
      else Some (UnsupportedOutbound i (ob_Type ob)))"

fun validateNodes ::
  "nat \<Rightarrow> (string, unit) gomap \<Rightarrow> (string, unit) gomap \<Rightarrow> (string, unit) gomap \<Rightarrow> NodeSpec list
   \<Rightarrow> topo_error option" where
  "validateNodes i seenKeys seenTags seenOut [] = None"
| "validateNodes i seenKeys seenTags seenOut (node # rest) =
     (if \<not> validateNodeID (ns_NodeID node) then Some (UnsafeNodeID i)
      else if normalizeNodeType (ns_NodeType node) \<notin> {''vless'', ''hysteria''} then
        Some (UnsupportedNodeType i (ns_NodeType node))
      else if mhas seenKeys (Key node) then Some (DuplicateKey (Key node))
      else if mhas seenTags (InboundTag node) then Some (DuplicateInboundTag (InboundTag node))
      else if mhas seenOut (OutboundTag node) then Some (DuplicateOutboundTag (OutboundTag node))
      else case checkOutbound i (ns_Outbound node) of
             Some e \<Rightarrow> Some e
           | None \<Rightarrow> validateNodes (Suc i) (mput (Key node) () seenKeys)
                       (mput (InboundTag node) () seenTags) (mput (OutboundTag node) () seenOut) rest)"

text \<open>\<open>None\<close> is Go's nil error: the topology is accepted.\<close>

definition Validate :: "Topology \<Rightarrow> topo_error option" where
  "Validate t = (if tp_Nodes t = [] then Some NoNodes else validateNodes 0 [] [] [] (tp_Nodes t))"

text \<open>Decoding by the field names of the struct tags. A missing or \<open>null\<close> field keeps the
  zero value; a field of the wrong type makes the whole decoding fail.\<close>

definition outbound_fields :: "string list" where
  "outbound_fields =
     [''type'', ''server'', ''server_port'', ''method'', ''password'', ''plugin'', ''plugin_opts'']"

definition dec_OutboundSpec :: "json \<Rightarrow> OutboundSpec option" where
  "dec_OutboundSpec j = do {
     ms \<leftarrow> dec_members j;
     let get = (\<lambda>name. obj_field outbound_fields name ms);
     ty \<leftarrow> dec_string (get ''type'');
     server \<leftarrow> dec_string (get ''server'');
     port \<leftarrow> dec_int (get ''server_port'');
     meth \<leftarrow> dec_string (get ''method'');
     password \<leftarrow> dec_string (get ''password'');
     plugin \<leftarrow> dec_string (get ''plugin'');
     opts \<leftarrow> dec_string (get ''plugin_opts'');
     Some \<lparr>ob_Type = ty, ob_Server = server, ob_ServerPort = port, ob_Method = meth,
           ob_Password = password, ob_Plugin = plugin, ob_PluginOpts = opts\<rparr>
   }"

definition node_fields :: "string list" where
  "node_fields = [''node_id'', ''node_type'', ''tag'', ''outbound'']"

definition dec_NodeSpec :: "json \<Rightarrow> NodeSpec option" where
  "dec_NodeSpec j = do {
     ms \<leftarrow> dec_members j;
     let get = (\<lambda>name. obj_field node_fields name ms);
     i \<leftarrow> dec_string (get ''node_id'');
     ty \<leftarrow> dec_string (get ''node_type'');
     tag \<leftarrow> dec_string (get ''tag'');
     ob \<leftarrow> dec_OutboundSpec (get ''outbound'');
     Some \<lparr>ns_NodeID = i, ns_NodeType = ty, ns_Tag = tag, ns_Outbound = ob\<rparr>
   }"

definition dec_Topology :: "json \<Rightarrow> Topology option" where
  "dec_Topology j = do {
     ms \<leftarrow> dec_members j;
     nodes \<leftarrow> dec_list dec_NodeSpec (obj_field [''nodes''] ''nodes'' ms);
     Some \<lparr>tp_Nodes = nodes\<rparr>
   }"

text \<open>\<open>LoadTopology\<close>, over the contents of the file, or \<open>None\<close> when it cannot be read.\<close>

datatype load_error = ReadFailed | DecodeFailed | Invalid topo_error

definition LoadTopology :: "string option \<Rightarrow> load_error + Topology" where
  "LoadTopology file =
     (case file of
        None \<Rightarrow> Inl ReadFailed
      | Some raw \<Rightarrow>
          (case json_parse raw \<bind> dec_Topology of
             None \<Rightarrow> Inl DecodeFailed
           | Some topology \<Rightarrow>
               (case Validate topology of
                  Some e \<Rightarrow> Inl (Invalid e)
                | None \<Rightarrow> Inr topology)))"

section \<open>What a validated topology is\<close>

definition node_ok :: "NodeSpec \<Rightarrow> bool" where
  "node_ok n \<longleftrightarrow>
     validateNodeID (ns_NodeID n) \<and>
     normalizeNodeType (ns_NodeType n) \<in> {''vless'', ''hysteria''} \<and>
     (outboundKind (ns_Outbound n) = ''direct'' \<or>
      outboundKind (ns_Outbound n) \<in> {''shadowsocks'', ''ss''} \<and> shadowsocks_complete (ns_Outbound n))"

definition topology_ok :: "Topology \<Rightarrow> bool" where
  "topology_ok t \<longleftrightarrow>
     tp_Nodes t \<noteq> [] \<and> list_all node_ok (tp_Nodes t) \<and>
     distinct (map Key (tp_Nodes t)) \<and> distinct (map InboundTag (tp_Nodes t)) \<and>
     distinct (map OutboundTag (tp_Nodes t))"

lemma checkOutbound_None:
  "checkOutbound i ob = None \<longleftrightarrow>
     outboundKind ob = ''direct'' \<or> outboundKind ob \<in> {''shadowsocks'', ''ss''} \<and> shadowsocks_complete ob"
  by (auto simp: checkOutbound_def)

lemma validateNodes_None:
  "validateNodes i ks ts os ns = None \<longleftrightarrow>
     list_all node_ok ns \<and>
     distinct (map Key ns) \<and> (\<forall>n \<in> set ns. \<not> mhas ks (Key n)) \<and>
     distinct (map InboundTag ns) \<and> (\<forall>n \<in> set ns. \<not> mhas ts (InboundTag n)) \<and>
     distinct (map OutboundTag ns) \<and> (\<forall>n \<in> set ns. \<not> mhas os (OutboundTag n))"
proof (induction i ks ts os ns rule: validateNodes.induct)
  case (1 i ks ts os)
  then show ?case by simp
next
  case (2 i ks ts os node rest)
  show ?case
  proof (cases "node_ok node \<and> \<not> mhas ks (Key node) \<and> \<not> mhas ts (InboundTag node) \<and> \<not> mhas os (OutboundTag node)")
    case True
    then have *: "validateNodeID (ns_NodeID node)"
      "normalizeNodeType (ns_NodeType node) \<in> {''vless'', ''hysteria''}"
      "checkOutbound i (ns_Outbound node) = None"
      by (auto simp: node_ok_def checkOutbound_None)
    show ?thesis
      using "2.IH" True * by (auto simp: image_iff)
  next
    case False
    then show ?thesis
      by (auto simp: node_ok_def checkOutbound_None split: option.splits)
  qed
qed

lemma Validate_None_iff: "Validate t = None \<longleftrightarrow> topology_ok t"
  by (auto simp: Validate_def topology_ok_def validateNodes_None)

lemma LoadTopology_ok: "LoadTopology f = Inr t \<Longrightarrow> topology_ok t"
  by (auto simp: LoadTopology_def Validate_None_iff split: option.splits)

section \<open>Keys identify nodes\<close>

lemma normalizeNodeType_idem [simp]:
  "normalizeNodeType (normalizeNodeType s) = normalizeNodeType s"
proof -
  have fixed: "normalizeNodeType ''vless'' = ''vless''" "normalizeNodeType ''hysteria'' = ''hysteria''"
    by code_simp+
  have low: "normalizeNodeType (ToLower (TrimSpace s)) = normalizeNodeType s"
    by (simp add: normalizeNodeType_def TrimSpace_ToLower)
  show ?thesis
  proof (cases "normalizeNodeType s = ToLower (TrimSpace s)")
    case True
    then show ?thesis using low by simp
  next
    case False
    then have "normalizeNodeType s \<in> {''vless'', ''hysteria''}"
      by (auto simp: normalizeNodeType_def Let_def split: if_splits)
    then show ?thesis using fixed by auto
  qed
qed

lemma NodeKey_inj:
  assumes "CHR '':'' \<notin> set (normalizeNodeType t)" "CHR '':'' \<notin> set (normalizeNodeType t')"
    and "NodeKey t i = NodeKey t' i'"
  shows "normalizeNodeType t = normalizeNodeType t' \<and> TrimSpace i = TrimSpace i'"
  using assms(3) sep_inj [OF assms(1,2), of "TrimSpace i" "TrimSpace i'"]
  by (simp add: NodeKey_def)

lemma supported_no_colon:
  "normalizeNodeType t \<in> {''vless'', ''hysteria''} \<Longrightarrow> CHR '':'' \<notin> set (normalizeNodeType t)"
  by auto

section \<open>Tags are safe\<close>

lemma tag_safe_dash [simp]: "tag_safe (CHR ''-'')"
  by (simp add: tag_safe_def)

lemma replaceUnsafe_safe: "list_all tag_safe (replaceUnsafe b s)"
  by (induction b s rule: replaceUnsafe.induct) auto

lemma Trim_subset: "set (Trim s cs) \<subseteq> set s"
  by (auto simp: Trim_def TrimRight_def TrimLeftSet_def dest!: set_dropWhileD)

lemma safeTagPart_safe: "list_all tag_safe (safeTagPart s)"
  using replaceUnsafe_safe Trim_subset unfolding safeTagPart_def list_all_iff by blast

lemma tag_protocol_ok:
  "node_ok n \<Longrightarrow> tag_protocol n \<in> {''vless'', ''hy2''}"
  by (auto simp: node_ok_def tag_protocol_def Let_def)

lemma InboundTag_safe: "node_ok n \<Longrightarrow> list_all tag_safe (InboundTag n) \<and> InboundTag n \<noteq> []"
  using tag_protocol_ok [of n] safeTagPart_safe
  by (auto simp: InboundTag_def Let_def tag_safe_def code_def)

lemma OutboundTag_safe: "node_ok n \<Longrightarrow> list_all tag_safe (OutboundTag n)"
  using tag_protocol_ok [of n] safeTagPart_safe
  by (auto simp: OutboundTag_def tag_safe_def code_def)

lemma OutboundTag_not_reserved: "OutboundTag n \<notin> {''direct'', ''block'', ''dns-out''}"
  by (auto simp: OutboundTag_def)

section \<open>Properties\<close>

text \<open>
  C13: \<open>Validate\<close> accepts a topology exactly when it has a node, every node has a safe
  identifier, a supported protocol and a complete supported outbound, and node keys,
  inbound tags and outbound tags are each pairwise different.
\<close>

theorem Validate_characterised: "Validate t = None \<longleftrightarrow> topology_ok t"
  by (rule Validate_None_iff)

text \<open>
  C14: In an accepted topology a node is determined by its key, that is by its normalised
  protocol and its trimmed identifier, and equally by its inbound or outbound tag. The
  tags consist of letters, digits, underscores and dashes, are not empty and no outbound
  tag is one of the names the generated configuration reserves.
\<close>

theorem node_identities:
  assumes "Validate t = None" and "i < length (tp_Nodes t)" and "j < length (tp_Nodes t)"
    and "n = tp_Nodes t ! i" and "n' = tp_Nodes t ! j"
  shows "(i = j \<longleftrightarrow> normalizeNodeType (ns_NodeType n) = normalizeNodeType (ns_NodeType n') \<and>
                   TrimSpace (ns_NodeID n) = TrimSpace (ns_NodeID n')) \<and>
         (i = j \<longleftrightarrow> InboundTag n = InboundTag n') \<and> (i = j \<longleftrightarrow> OutboundTag n = OutboundTag n') \<and>
         list_all tag_safe (InboundTag n) \<and> InboundTag n \<noteq> [] \<and> list_all tag_safe (OutboundTag n) \<and>
         OutboundTag n \<notin> {''direct'', ''block'', ''dns-out''}"
proof -
  have ok: "topology_ok t" using assms(1) by (simp add: Validate_None_iff)
  then have n: "node_ok n" using assms(2,4) by (auto simp: topology_ok_def list_all_iff)
  have idx: "i = j \<longleftrightarrow> map f (tp_Nodes t) ! i = map f (tp_Nodes t) ! j" if "distinct (map f (tp_Nodes t))"
    for f :: "NodeSpec \<Rightarrow> string"
    using that assms(2,3) nth_eq_iff_index_eq [of "map f (tp_Nodes t)" i j] by simp
  have "Key n = Key n' \<longleftrightarrow> normalizeNodeType (ns_NodeType n) = normalizeNodeType (ns_NodeType n') \<and>
          TrimSpace (ns_NodeID n) = TrimSpace (ns_NodeID n')"
  proof -
    have n': "node_ok n'" using ok assms(3,5) by (auto simp: topology_ok_def list_all_iff)
    show ?thesis
      using NodeKey_inj [OF supported_no_colon supported_no_colon] n n'
      by (auto simp: Key_def node_ok_def NodeKey_def)
  qed
  then show ?thesis
    using ok idx [of Key] idx [of InboundTag] idx [of OutboundTag] assms(2-5)
      InboundTag_safe [OF n] OutboundTag_safe [OF n] OutboundTag_not_reserved [of n]
    by (auto simp: topology_ok_def)
qed

definition direct_out :: OutboundSpec where
  "direct_out = \<lparr>ob_Type = ''direct'', ob_Server = [], ob_ServerPort = 0, ob_Method = [],
                 ob_Password = [], ob_Plugin = [], ob_PluginOpts = []\<rparr>"

definition sample_topology :: Topology where
  "sample_topology = \<lparr>tp_Nodes =
     [\<lparr>ns_NodeID = ''21'', ns_NodeType = ''VLESS'', ns_Tag = [], ns_Outbound = direct_out\<rparr>,
      \<lparr>ns_NodeID = ''21'', ns_NodeType = ''hy2'', ns_Tag = [], ns_Outbound = direct_out\<rparr>]\<rparr>"

lemma sample_topology_valid: "Validate sample_topology = None"
  by code_simp

theorem node_identities_witness:
  "InboundTag (tp_Nodes sample_topology ! 0) \<noteq> InboundTag (tp_Nodes sample_topology ! 1) \<and>
   list_all tag_safe (InboundTag (tp_Nodes sample_topology ! 0))"
  using node_identities [OF sample_topology_valid, of 0 1 "tp_Nodes sample_topology ! 0" "tp_Nodes sample_topology ! 1"]
  by (auto simp: sample_topology_def)

end
