(* ===== verification/Counter.thy ===== *)
theory Counter
  imports Go_Strconv
begin

text \<open>
  The traffic counters of \<^verbatim>\<open>counter/counter.go\<close> and the per-inbound registry of
  them that the agent's connection hook keeps (\<^verbatim>\<open>Hook\<close> in
  \<^verbatim>\<open>cmd/mini-sb-agent/main.go\<close>). Storages live in a store and are shared by
  address: a connection keeps the address it was given when it was routed, also
  after the counter has dropped the user. The lemmas describe what a snapshot
  reports, what committing it changes, and that pruning loses no traffic.
\<close>

section \<open>Storages\<close>

record TrafficStorage =
  UpCounter :: int
  DownCounter :: int
  CommittedUp :: int
  CommittedDown :: int

definition new_storage :: TrafficStorage where
  "new_storage = \<lparr>UpCounter = 0, DownCounter = 0, CommittedUp = 0, CommittedDown = 0\<rparr>"

type_synonym addr = nat

record store =
  st_next :: addr
  st_at :: "addr \<Rightarrow> TrafficStorage"

definition empty_store :: store where
  "empty_store = \<lparr>st_next = 0, st_at = (\<lambda>_. new_storage)\<rparr>"

definition alloc :: "store \<Rightarrow> store \<times> addr" where
  "alloc m = (m\<lparr>st_next := Suc (st_next m), st_at := (st_at m)(st_next m := new_storage)\<rparr>, st_next m)"

definition modify :: "addr \<Rightarrow> (TrafficStorage \<Rightarrow> TrafficStorage) \<Rightarrow> store \<Rightarrow> store" where
  "modify a f m = m\<lparr>st_at := (st_at m)(a := f (st_at m a))\<rparr>"

definition addUp :: "int \<Rightarrow> TrafficStorage \<Rightarrow> TrafficStorage" where
  "addUp n s = s\<lparr>UpCounter := add64 (UpCounter s) n\<rparr>"

definition addDown :: "int \<Rightarrow> TrafficStorage \<Rightarrow> TrafficStorage" where
  "addDown n s = s\<lparr>DownCounter := add64 (DownCounter s) n\<rparr>"

section \<open>TrafficCounter\<close>

type_synonym TrafficCounter = "(string, addr) gomap"
type_synonym delta = "(string, int \<times> int) gomap"

definition NewTrafficCounter :: TrafficCounter where
  "NewTrafficCounter = []"

definition GetCounter :: "string \<Rightarrow> store \<Rightarrow> TrafficCounter \<Rightarrow> store \<times> TrafficCounter \<times> addr" where
  "GetCounter user m c =
     (case mget c user of
        Some a \<Rightarrow> (m, c, a)
      | None \<Rightarrow> (let (m', a) = alloc m in (m', mput user a c, a)))"

text \<open>\<open>Snapshot\<close> ignores its \<open>reset\<close> argument.\<close>

definition Snapshot :: "bool \<Rightarrow> store \<Rightarrow> TrafficCounter \<Rightarrow> delta" where
  "Snapshot reset m c = mmap (\<lambda>_ a. (UpCounter (st_at m a), DownCounter (st_at m a))) c"

definition pendingUp :: "TrafficStorage \<Rightarrow> int" where
  "pendingUp s = sub64 (UpCounter s) (CommittedUp s)"

definition pendingDown :: "TrafficStorage \<Rightarrow> int" where
  "pendingDown s = sub64 (DownCounter s) (CommittedDown s)"

fun SnapshotDelta :: "store \<Rightarrow> TrafficCounter \<Rightarrow> delta" where
  "SnapshotDelta m [] = []"
| "SnapshotDelta m ((k, a) # c) =
     (let up = pendingUp (st_at m a); down = pendingDown (st_at m a) in
      if up > 0 \<or> down > 0 then (k, (up, down)) # SnapshotDelta m c else SnapshotDelta m c)"

definition commit :: "int \<times> int \<Rightarrow> TrafficStorage \<Rightarrow> TrafficStorage" where
  "commit d s = s\<lparr>CommittedUp := add64 (CommittedUp s) (fst d), CommittedDown := add64 (CommittedDown s) (snd d)\<rparr>"

fun CommitSnapshot :: "delta \<Rightarrow> TrafficCounter \<Rightarrow> store \<Rightarrow> store" where
  "CommitSnapshot [] c m = m"
| "CommitSnapshot ((user, d) # snapshot) c m =
     CommitSnapshot snapshot c
       (case mget c user of Some a \<Rightarrow> modify a (commit d) m | None \<Rightarrow> m)"

definition settled :: "TrafficStorage \<Rightarrow> bool" where
  "settled s \<longleftrightarrow> UpCounter s = CommittedUp s \<and> DownCounter s = CommittedDown s"

definition RemoveAbsent :: "(string, unit) gomap \<Rightarrow> store \<Rightarrow> TrafficCounter \<Rightarrow> TrafficCounter" where
  "RemoveAbsent active m c = mfilter (\<lambda>user a. mhas active user \<or> \<not> settled (st_at m a)) c"

section \<open>The hook's registry of counters\<close>

type_synonym hook_map = "(string, TrafficCounter) gomap"
type_synonym deltas = "(string, delta) gomap"

definition tag_or_default :: "string \<Rightarrow> string" where
  "tag_or_default tag = (if tag = [] then ''default'' else tag)"

definition tc :: "string \<Rightarrow> hook_map \<Rightarrow> hook_map" where
  "tc tag h = (let t = tag_or_default tag in if mhas h t then h else mput t NewTrafficCounter h)"

text \<open>\<open>h.tc(tag).GetCounter(user)\<close>: the address a new connection counts on.\<close>

definition hook_counter :: "string \<Rightarrow> string \<Rightarrow> store \<Rightarrow> hook_map \<Rightarrow> store \<times> hook_map \<times> addr" where
  "hook_counter tag user m h =
     (let t = tag_or_default tag; h1 = tc tag h; (m', c', a) = GetCounter user m (mget0 [] h1 t)
      in (m', mput t c' h1, a))"

definition Hook_Snapshot :: "bool \<Rightarrow> store \<Rightarrow> hook_map \<Rightarrow> deltas" where
  "Hook_Snapshot reset m h = mmap (\<lambda>_ c. Snapshot reset m c) h"

fun Hook_SnapshotDelta :: "store \<Rightarrow> hook_map \<Rightarrow> deltas" where
  "Hook_SnapshotDelta m [] = []"
| "Hook_SnapshotDelta m ((t, c) # h) =
     (let d = SnapshotDelta m c in
      if d \<noteq> [] then (t, d) # Hook_SnapshotDelta m h else Hook_SnapshotDelta m h)"

fun Hook_CommitSnapshot :: "deltas \<Rightarrow> hook_map \<Rightarrow> store \<Rightarrow> store" where
  "Hook_CommitSnapshot [] h m = m"
| "Hook_CommitSnapshot ((t, users) # snapshot) h m =
     Hook_CommitSnapshot snapshot h
       (case mget h t of Some c \<Rightarrow> CommitSnapshot users c m | None \<Rightarrow> m)"

definition Hook_RemoveAbsent :: "(string, unit) gomap \<Rightarrow> store \<Rightarrow> hook_map \<Rightarrow> hook_map" where
  "Hook_RemoveAbsent active m h = mmap (\<lambda>_ c. RemoveAbsent active m c) h"

section \<open>Invariants\<close>

definition storage_ok :: "TrafficStorage \<Rightarrow> bool" where
  "storage_ok s \<longleftrightarrow>
     0 \<le> CommittedUp s \<and> CommittedUp s \<le> UpCounter s \<and> UpCounter s < 2 ^ 63 \<and>
     0 \<le> CommittedDown s \<and> CommittedDown s \<le> DownCounter s \<and> DownCounter s < 2 ^ 63"

text \<open>Addresses of a registry, and that each belongs to one tag and user.\<close>

definition hook_addr :: "hook_map \<Rightarrow> string \<Rightarrow> string \<Rightarrow> addr option" where
  "hook_addr h t u = (case mget h t of None \<Rightarrow> None | Some c \<Rightarrow> mget c u)"

definition hook_ok :: "store \<Rightarrow> hook_map \<Rightarrow> bool" where
  "hook_ok m h \<longleftrightarrow>
     wf_map h \<and> (\<forall>t c. mget h t = Some c \<longrightarrow> wf_map c) \<and>
     (\<forall>t u a. hook_addr h t u = Some a \<longrightarrow> a < st_next m) \<and>
     (\<forall>t u t' u' a. hook_addr h t u = Some a \<longrightarrow> hook_addr h t' u' = Some a \<longrightarrow> t = t' \<and> u = u')"

lemma hook_ok_inj:
  "hook_ok m h \<Longrightarrow> hook_addr h t u = Some a \<Longrightarrow> hook_addr h t' u' = Some a \<Longrightarrow> t = t' \<and> u = u'"
  unfolding hook_ok_def by blast

lemma new_storage_ok [simp]: "storage_ok new_storage"
  by (simp add: storage_ok_def new_storage_def)

lemma pending_exact:
  assumes "storage_ok s"
  shows "pendingUp s = UpCounter s - CommittedUp s" "pendingDown s = DownCounter s - CommittedDown s"
  using assms by (auto simp: pendingUp_def pendingDown_def sub64_def storage_ok_def is_int64_def)

lemma pending_nonneg:
  assumes "storage_ok s"
  shows "0 \<le> pendingUp s" "0 \<le> pendingDown s"
  using pending_exact [OF assms] assms by (auto simp: storage_ok_def)

section \<open>What a snapshot reports\<close>

definition positive :: "int \<times> int \<Rightarrow> bool" where
  "positive d \<longleftrightarrow> fst d > 0 \<or> snd d > 0"

definition pending :: "TrafficStorage \<Rightarrow> int \<times> int" where
  "pending s = (pendingUp s, pendingDown s)"

lemma SnapshotDelta_alt:
  "SnapshotDelta m c = mfilter (\<lambda>_. positive) (mmap (\<lambda>_ a. pending (st_at m a)) c)"
  by (induction m c rule: SnapshotDelta.induct)
    (auto simp: mfilter_def mmap_def positive_def pending_def Let_def)

lemma Hook_SnapshotDelta_alt:
  "Hook_SnapshotDelta m h = mfilter (\<lambda>_ d. d \<noteq> []) (mmap (\<lambda>_. SnapshotDelta m) h)"
  by (induction m h rule: Hook_SnapshotDelta.induct) (auto simp: mfilter_def mmap_def Let_def)

lemma wf_SnapshotDelta [go_inv]: "wf_map c \<Longrightarrow> wf_map (SnapshotDelta m c)"
  by (simp add: SnapshotDelta_alt)

lemma wf_Hook_SnapshotDelta [go_inv]: "wf_map h \<Longrightarrow> wf_map (Hook_SnapshotDelta m h)"
  by (simp add: Hook_SnapshotDelta_alt)

lemma mget_SnapshotDelta:
  "wf_map c \<Longrightarrow> mget (SnapshotDelta m c) u =
     (case mget c u of None \<Rightarrow> None
      | Some a \<Rightarrow> if positive (pending (st_at m a)) then Some (pending (st_at m a)) else None)"
  by (auto simp: SnapshotDelta_alt split: option.splits)

text \<open>The entry of a two-level delta, zero where there is none.\<close>

definition dget :: "deltas \<Rightarrow> string \<Rightarrow> string \<Rightarrow> int \<times> int" where
  "dget ds t u = (case mget ds t of None \<Rightarrow> (0, 0) | Some d \<Rightarrow> mget0 (0, 0) d u)"

definition wf_deltas :: "deltas \<Rightarrow> bool" where
  "wf_deltas ds \<longleftrightarrow> wf_map ds \<and> (\<forall>t d. mget ds t = Some d \<longrightarrow> wf_map d)"

lemma wf_deltas_snapshot [go_inv]: "hook_ok m h \<Longrightarrow> wf_deltas (Hook_SnapshotDelta m h)"
  by (auto simp: wf_deltas_def hook_ok_def wf_Hook_SnapshotDelta Hook_SnapshotDelta_alt wf_SnapshotDelta
      split: option.splits if_splits)

definition pending_at :: "store \<Rightarrow> hook_map \<Rightarrow> string \<Rightarrow> string \<Rightarrow> int \<times> int" where
  "pending_at m h t u = (case hook_addr h t u of None \<Rightarrow> (0, 0) | Some a \<Rightarrow> pending (st_at m a))"

lemma not_positive_zero: "storage_ok s \<Longrightarrow> \<not> positive (pending s) \<Longrightarrow> pending s = (0, 0)"
  using pending_nonneg [of s] by (auto simp: positive_def pending_def)

lemma snapshot_reports_pending:
  assumes "hook_ok m h" and "\<forall>a. storage_ok (st_at m a)"
  shows "dget (Hook_SnapshotDelta m h) t u = pending_at m h t u"
proof (cases "mget h t")
  case None
  then show ?thesis using assms(1)
    by (simp add: dget_def pending_at_def hook_addr_def Hook_SnapshotDelta_alt hook_ok_def)
next
  case (Some c)
  then have wc: "wf_map c" and wh: "wf_map h" using assms(1) by (auto simp: hook_ok_def)
  have "dget (Hook_SnapshotDelta m h) t u = mget0 (0, 0) (SnapshotDelta m c) u"
    using Some wh by (auto simp: dget_def Hook_SnapshotDelta_alt)
  also have "\<dots> = pending_at m h t u"
    using Some wc assms(2)
    by (auto simp: mget0_def mget_SnapshotDelta pending_at_def hook_addr_def
        dest: not_positive_zero [OF spec [OF assms(2)], symmetric] split: option.splits)
  finally show ?thesis .
qed

section \<open>What a commit changes\<close>

lemma st_next_modify [simp]: "st_next (modify a f m) = st_next m"
  by (simp add: modify_def)

lemma st_at_modify [simp]: "st_at (modify a f m) b = (if b = a then f (st_at m a) else st_at m b)"
  by (simp add: modify_def)

lemma st_next_CommitSnapshot [simp]: "st_next (CommitSnapshot s c m) = st_next m"
  by (induction s c m rule: CommitSnapshot.induct) (auto split: option.splits)

lemma st_next_Hook_CommitSnapshot [simp]: "st_next (Hook_CommitSnapshot s h m) = st_next m"
  by (induction s h m rule: Hook_CommitSnapshot.induct) (auto split: option.splits)

lemma CommitSnapshot_other:
  "(\<forall>u. mget c u \<noteq> Some a) \<Longrightarrow> st_at (CommitSnapshot s c m) a = st_at m a"
  by (induction s c m rule: CommitSnapshot.induct) (auto split: option.splits)

lemma CommitSnapshot_at:
  assumes "\<And>v. mget c v = Some a \<Longrightarrow> v = u" and "mget c u = Some a" and "wf_map s"
  shows "st_at (CommitSnapshot s c m) a =
           (case mget s u of None \<Rightarrow> st_at m a | Some d \<Rightarrow> commit d (st_at m a))"
  using assms(3)
proof (induction s arbitrary: m)
  case (Cons p s)
  obtain v d where p: "p = (v, d)" by (cases p)
  have nv: "mget s v = None" using Cons.prems p by (simp add: map_of_eq_None_iff)
  show ?case
  proof (cases "v = u")
    case True
    then show ?thesis using Cons nv p assms(2) by simp
  next
    case False
    have "\<And>b. mget c v = Some b \<Longrightarrow> b \<noteq> a" using assms(1) False by auto
    then have "st_at (case mget c v of Some b \<Rightarrow> modify b (commit d) m | None \<Rightarrow> m) a = st_at m a"
      by (auto split: option.splits)
    then show ?thesis using False Cons p by (auto split: option.splits)
  qed
qed simp

lemma Hook_CommitSnapshot_at:
  assumes ok: "hook_ok m h" and wf: "wf_deltas s" and at: "hook_addr h t u = Some a"
  shows "st_at (Hook_CommitSnapshot s h m) a =
           (if dget s t u = (0, 0) then st_at (Hook_CommitSnapshot s h m) a
            else commit (dget s t u) (st_at m a))"
    and "(case mget s t of None \<Rightarrow> None | Some d \<Rightarrow> mget d u) = None \<Longrightarrow>
           st_at (Hook_CommitSnapshot s h m) a = st_at m a"
    and "(case mget s t of None \<Rightarrow> None | Some d \<Rightarrow> mget d u) = Some x \<Longrightarrow>
           st_at (Hook_CommitSnapshot s h m) a = commit x (st_at m a)"
proof -
  obtain c where c: "mget h t = Some c" "mget c u = Some a"
    using at by (auto simp: hook_addr_def split: option.splits)
  have uniq: "v = u" if "mget c v = Some a" for v
    using hook_ok_inj [OF ok at, of t v] that c by (simp add: hook_addr_def)
  have other: "mget c' v \<noteq> Some a" if "mget h t' = Some c'" "t' \<noteq> t" for t' c' v
    using hook_ok_inj [OF ok at, of t' v] that by (auto simp: hook_addr_def)
  have main: "st_at (Hook_CommitSnapshot s h m) a =
     (case (case mget s t of None \<Rightarrow> None | Some d \<Rightarrow> mget d u) of
        None \<Rightarrow> st_at m a | Some x \<Rightarrow> commit x (st_at m a))"
    using wf unfolding wf_deltas_def
  proof (induction s arbitrary: m)
    case (Cons p s)
    obtain t' d where p: "p = (t', d)" by (cases p)
    have nt: "mget s t' = None" using Cons.prems p by (simp add: map_of_eq_None_iff)
    have wfs: "wf_map s \<and> (\<forall>t d. mget s t = Some d \<longrightarrow> wf_map d)" and wd: "wf_map d"
      using Cons.prems p nt by (auto split: if_splits) (metis option.distinct(1))
    define m1 where "m1 = (case mget h t' of Some c \<Rightarrow> CommitSnapshot d c m | None \<Rightarrow> m)"
    note ih = Cons.IH [OF wfs, of m1]
    show ?case
    proof (cases "t' = t")
      case True
      then have "st_at m1 a = (case mget d u of None \<Rightarrow> st_at m a | Some x \<Rightarrow> commit x (st_at m a))"
        using c CommitSnapshot_at [OF uniq c(2) wd] by (simp add: m1_def)
      then show ?thesis using ih True nt p by (simp add: m1_def)
    next
      case False
      then have "st_at m1 a = st_at m a"
        using other by (auto simp: m1_def CommitSnapshot_other split: option.splits)
      then show ?thesis using ih False p by (auto simp: m1_def [symmetric] split: option.splits)
    qed
  qed simp
  then show "(case mget s t of None \<Rightarrow> None | Some d \<Rightarrow> mget d u) = None \<Longrightarrow>
           st_at (Hook_CommitSnapshot s h m) a = st_at m a"
    "(case mget s t of None \<Rightarrow> None | Some d \<Rightarrow> mget d u) = Some x \<Longrightarrow>
           st_at (Hook_CommitSnapshot s h m) a = commit x (st_at m a)"
    by simp_all
  show "st_at (Hook_CommitSnapshot s h m) a =
           (if dget s t u = (0, 0) then st_at (Hook_CommitSnapshot s h m) a
            else commit (dget s t u) (st_at m a))"
    using main by (auto simp: dget_def mget0_def split: option.splits)
qed

lemma Hook_CommitSnapshot_unowned:
  "(\<forall>t u. hook_addr h t u \<noteq> Some a) \<Longrightarrow> st_at (Hook_CommitSnapshot s h m) a = st_at m a"
proof (induction s h m rule: Hook_CommitSnapshot.induct)
  case (2 t users s h m)
  have "\<And>c. mget h t = Some c \<Longrightarrow> \<forall>u. mget c u \<noteq> Some a"
    using 2(2) by (auto simp: hook_addr_def split: option.splits)
  then show ?case using 2 by (auto simp: CommitSnapshot_other split: option.splits)
qed simp

section \<open>The registry keeps its invariant\<close>

lemma hook_ok_store: "st_next m' = st_next m \<Longrightarrow> hook_ok m' h = hook_ok m h"
  by (simp add: hook_ok_def)

lemma hook_ok_commit [go_inv]: "hook_ok m h \<Longrightarrow> hook_ok (Hook_CommitSnapshot s h m) h"
  using hook_ok_store [of "Hook_CommitSnapshot s h m" m h] by simp

lemma hook_addr_mput:
  "hook_addr (mput t c h) t' u = (if t' = t then mget c u else hook_addr h t' u)"
  by (simp add: hook_addr_def)

lemma hook_ok_tc [go_inv]: "hook_ok m h \<Longrightarrow> hook_ok m (tc tag h)"
  unfolding hook_ok_def
  by (auto simp: tc_def Let_def hook_addr_mput NewTrafficCounter_def mhas_def split: if_splits)

lemma hook_addr_tc [simp]: "hook_addr (tc tag h) t u = hook_addr h t u"
  by (auto simp: tc_def Let_def hook_addr_def NewTrafficCounter_def mhas_def)

lemma mhas_tc: "mhas (tc tag h) (tag_or_default tag)"
  by (simp add: tc_def Let_def)

text \<open>A new connection gets an address of its own tag and user, fresh or already there.\<close>

lemma hook_counter_spec:
  assumes ok: "hook_ok m h" and eq: "hook_counter tag user m h = (m', h', a)"
  shows "hook_ok m' h'"
    and "hook_addr h' t u = (if t = tag_or_default tag \<and> u = user then Some a else hook_addr h t u)"
    and "hook_addr h (tag_or_default tag) user = Some a \<and> m' = m \<or>
         hook_addr h (tag_or_default tag) user = None \<and> a = st_next m \<and> m' = fst (alloc m)"
proof -
  define T where "T = tag_or_default tag"
  define h1 where "h1 = tc tag h"
  have ok1: "hook_ok m h1" using ok by (simp add: h1_def hook_ok_tc)
  obtain c where c: "mget h1 T = Some c"
    using mhas_tc [of tag h] by (auto simp: h1_def T_def mhas_def)
  have ha: "hook_addr h T user = mget c user"
    using c hook_addr_tc [of tag h T user] by (simp add: h1_def hook_addr_def)
  have wc: "wf_map c" and wh: "wf_map h1" using ok1 c by (auto simp: hook_ok_def)
  consider (old) "mget c user = Some a" "m' = m" "h' = mput T c h1"
    | (new) "mget c user = None" "a = st_next m" "m' = fst (alloc m)" "h' = mput T (mput user a c) h1"
    using eq c
    by (auto simp: hook_counter_def Let_def T_def [symmetric] h1_def [symmetric] GetCounter_def mget0_def
        alloc_def split: option.splits)
  then have "hook_ok m' h' \<and>
      hook_addr h' t u = (if t = T \<and> u = user then Some a else hook_addr h t u) \<and>
      (hook_addr h T user = Some a \<and> m' = m \<or>
       hook_addr h T user = None \<and> a = st_next m \<and> m' = fst (alloc m))"
  proof cases
    case old
    have "hook_addr h' t' u' = hook_addr h1 t' u'" for t' u'
      using c by (simp add: old hook_addr_mput) (simp add: hook_addr_def)
    then show ?thesis using ok1 old ha c wc
      by (auto simp: hook_ok_def h1_def)
  next
    case new
    have adr: "hook_addr h' t' u' = (if t' = T \<and> u' = user then Some a else hook_addr h1 t' u')" for t' u'
      using c by (simp add: new hook_addr_mput) (simp add: hook_addr_def)
    have bound: "hook_addr h1 t' u' = Some b \<Longrightarrow> b < st_next m" for t' u' b
      using ok1 unfolding hook_ok_def by blast
    have nxt: "st_next m' = Suc (st_next m)" by (simp add: new alloc_def)
    have "hook_ok m' h'"
      unfolding hook_ok_def
    proof (intro conjI allI impI)
      show "wf_map h'" using wh by (simp add: new)
      show "wf_map c'" if "mget h' t' = Some c'" for t' c'
        using that ok1 wc by (auto simp: new hook_ok_def split: if_splits)
      show "b < st_next m'" if "hook_addr h' t' u' = Some b" for t' u' b
        using that bound [of t' u' b] by (auto simp: adr nxt new(2) split: if_splits)
      show "t1 = t2" "u1 = u2" if "hook_addr h' t1 u1 = Some b" "hook_addr h' t2 u2 = Some b" for t1 u1 t2 u2 b
        using that bound [of t1 u1] bound [of t2 u2] hook_ok_inj [OF ok1, of t1 u1 b t2 u2]
        by (auto simp: adr new(2) split: if_splits)
    qed
    then show ?thesis using adr new ha by (simp add: h1_def)
  qed
  then show "hook_ok m' h'"
    "hook_addr h' t u = (if t = tag_or_default tag \<and> u = user then Some a else hook_addr h t u)"
    "hook_addr h (tag_or_default tag) user = Some a \<and> m' = m \<or>
         hook_addr h (tag_or_default tag) user = None \<and> a = st_next m \<and> m' = fst (alloc m)"
    by (auto simp: T_def)
qed

text \<open>Pruning drops a user only when everything it counted has been committed.\<close>

lemma hook_addr_RemoveAbsent:
  assumes "hook_ok m h"
  shows "hook_addr (Hook_RemoveAbsent active m h) t u =
     (case hook_addr h t u of None \<Rightarrow> None
      | Some a \<Rightarrow> if mhas active u \<or> \<not> settled (st_at m a) then Some a else None)"
  using assms
  by (auto simp: hook_addr_def Hook_RemoveAbsent_def RemoveAbsent_def hook_ok_def split: option.splits)

lemma hook_ok_RemoveAbsent [go_inv]: "hook_ok m h \<Longrightarrow> hook_ok m (Hook_RemoveAbsent active m h)"
proof -
  assume ok: "hook_ok m h"
  have sub: "hook_addr (Hook_RemoveAbsent active m h) t u = Some a \<Longrightarrow> hook_addr h t u = Some a" for t u a
    using hook_addr_RemoveAbsent [OF ok, of active t u] by (auto split: option.splits if_splits)
  show ?thesis
    unfolding hook_ok_def
  proof (intro conjI allI impI)
    show "wf_map (Hook_RemoveAbsent active m h)"
      using ok by (simp add: Hook_RemoveAbsent_def hook_ok_def)
    show "wf_map c" if "mget (Hook_RemoveAbsent active m h) t = Some c" for t c
      using that ok by (auto simp: Hook_RemoveAbsent_def RemoveAbsent_def hook_ok_def)
    show "a < st_next m" if "hook_addr (Hook_RemoveAbsent active m h) t u = Some a" for t u a
      using sub [OF that] ok unfolding hook_ok_def by blast
    show "t = t'" "u = u'"
      if "hook_addr (Hook_RemoveAbsent active m h) t u = Some a"
        "hook_addr (Hook_RemoveAbsent active m h) t' u' = Some a" for t u t' u' a
      using hook_ok_inj [OF ok sub [OF that(1)] sub [OF that(2)]] by auto
  qed
qed

lemma settled_pending: "settled s \<Longrightarrow> pending s = (0, 0)"
  by (simp add: settled_def pending_def pendingUp_def pendingDown_def sub64_def wrap64_def)

lemma pending_at_RemoveAbsent:
  assumes "hook_ok m h"
  shows "pending_at m (Hook_RemoveAbsent active m h) t u = pending_at m h t u"
  by (auto simp: pending_at_def hook_addr_RemoveAbsent [OF assms] settled_pending split: option.splits)

section \<open>Properties\<close>

text \<open>Traffic that arrives between two states of the store: counters grow, the committed
  values and the allocation stay.\<close>

definition grown :: "store \<Rightarrow> store \<Rightarrow> bool" where
  "grown m m' \<longleftrightarrow> st_next m' = st_next m \<and>
     (\<forall>a. UpCounter (st_at m a) \<le> UpCounter (st_at m' a) \<and> DownCounter (st_at m a) \<le> DownCounter (st_at m' a) \<and>
          CommittedUp (st_at m' a) = CommittedUp (st_at m a) \<and>
          CommittedDown (st_at m' a) = CommittedDown (st_at m a))"

lemma pending_commit:
  assumes "storage_ok s" "storage_ok s'"
    and "CommittedUp s' = CommittedUp s" "CommittedDown s' = CommittedDown s"
    and "UpCounter s \<le> UpCounter s'" "DownCounter s \<le> DownCounter s'"
  shows "pending (commit (pending s) s') = (UpCounter s' - UpCounter s, DownCounter s' - DownCounter s)"
    and "storage_ok (commit (pending s) s')"
  using assms pending_exact [OF assms(1)]
  by (auto simp: pending_def commit_def pendingUp_def pendingDown_def storage_ok_def add64_def sub64_def
      is_int64_def)

text \<open>
  C10: Committing a snapshot settles exactly what it reported: traffic that was counted
  after the snapshot was taken, and only that, is what the next snapshot reports.
\<close>

theorem commit_leaves_growth:
  assumes "hook_ok m h" and "\<forall>a. storage_ok (st_at m a)" and "\<forall>a. storage_ok (st_at m' a)"
    and "grown m m'" and "hook_addr h t u = Some a"
  shows "dget (Hook_SnapshotDelta (Hook_CommitSnapshot (Hook_SnapshotDelta m h) h m') h) t u =
           (UpCounter (st_at m' a) - UpCounter (st_at m a), DownCounter (st_at m' a) - DownCounter (st_at m a))"
proof -
  let ?s = "Hook_SnapshotDelta m h"
  let ?m = "Hook_CommitSnapshot ?s h m'"
  have ok': "hook_ok m' h" using assms(1,4) hook_ok_store [of m' m h] by (simp add: grown_def)
  have wf: "wf_deltas ?s" by (rule wf_deltas_snapshot [OF assms(1)])
  have at: "st_at ?m b = commit (pending (st_at m b)) (st_at m' b)" if b: "hook_addr h t' u' = Some b" for b t' u'
  proof -
    have d: "dget ?s t' u' = pending (st_at m b)"
      using snapshot_reports_pending [OF assms(1,2)] b by (simp add: pending_at_def)
    show ?thesis
    proof (cases "case mget ?s t' of None \<Rightarrow> None | Some d \<Rightarrow> mget d u'")
      case None
      then have "pending (st_at m b) = (0, 0)"
        using d by (auto simp: dget_def mget0_def split: option.splits)
      moreover have "commit (0, 0) (st_at m' b) = st_at m' b"
        using assms(3) by (auto simp: commit_def add64_def storage_ok_def is_int64_def
            intro!: TrafficStorage.equality dest: spec [of _ b])
      ultimately show ?thesis using Hook_CommitSnapshot_at(2) [OF ok' wf b None] by simp
    next
      case (Some x)
      then have "x = pending (st_at m b)"
        using d by (auto simp: dget_def mget0_def split: option.splits)
      then show ?thesis using Hook_CommitSnapshot_at(3) [OF ok' wf b Some] by simp
    qed
  qed
  have ok2: "hook_ok ?m h" by (rule hook_ok_commit [OF ok'])
  have st: "storage_ok (st_at ?m b)" for b
  proof (cases "\<exists>t' u'. hook_addr h t' u' = Some b")
    case True
    then show ?thesis using at pending_commit(2) assms(2,3,4) unfolding grown_def by metis
  next
    case False
    then show ?thesis using Hook_CommitSnapshot_unowned [of h b ?s m'] assms(3) by simp
  qed
  have "dget (Hook_SnapshotDelta ?m h) t u = pending (st_at ?m a)"
    using snapshot_reports_pending [OF ok2, of t u] st assms(5) by (simp add: pending_at_def)
  then show ?thesis using at [OF assms(5)] pending_commit(1) assms(2,3,4) unfolding grown_def by metis
qed

definition two_users :: "store \<times> hook_map" where
  "two_users =
     (let (m1, h1, a) = hook_counter ''vless-21-in'' ''7'' empty_store [];
          (m2, h2, b) = hook_counter ''vless-21-in'' ''8'' m1 h1
      in (modify a (addUp 100) (modify b (addDown 40) m2), h2))"

lemma empty_hook_ok: "hook_ok empty_store []"
  by (simp add: hook_ok_def hook_addr_def)

lemma two_users_eval:
  "two_users =
     (modify 0 (addUp 100) (modify 1 (addDown 40) (fst (alloc (fst (alloc empty_store))))),
      [(''vless-21-in'', [(''7'', 0), (''8'', 1)])])"
  by (simp add: two_users_def hook_counter_def tc_def tag_or_default_def mhas_def GetCounter_def mget0_def
      NewTrafficCounter_def alloc_def empty_store_def Let_def)

lemma two_users_ok: "hook_ok (fst two_users) (snd two_users)" "storage_ok (st_at (fst two_users) a)"
  by (auto simp: two_users_eval hook_ok_def hook_addr_def alloc_def empty_store_def addUp_def addDown_def
      add64_def storage_ok_def new_storage_def is_int64_def split: if_splits)

theorem commit_leaves_growth_witness:
  "dget (Hook_SnapshotDelta
      (Hook_CommitSnapshot (Hook_SnapshotDelta (fst two_users) (snd two_users)) (snd two_users)
        (modify 0 (addUp 5) (fst two_users))) (snd two_users)) ''vless-21-in'' ''7'' = (5, 0)"
proof -
  let ?m = "fst two_users" and ?m' = "modify 0 (addUp 5) (fst two_users)"
  have "grown ?m ?m'" and "\<forall>a. storage_ok (st_at ?m' a)"
    by (auto simp: grown_def two_users_eval alloc_def empty_store_def addUp_def addDown_def add64_def
        new_storage_def storage_ok_def is_int64_def)
  moreover have "hook_addr (snd two_users) ''vless-21-in'' ''7'' = Some 0"
    by (simp add: two_users_eval hook_addr_def)
  ultimately show ?thesis
    using commit_leaves_growth [of ?m "snd two_users" ?m' "''vless-21-in''" "''7''" 0] two_users_ok
    by (simp add: two_users_eval addUp_def add64_def alloc_def empty_store_def new_storage_def is_int64_def)
qed

text \<open>
  C11: Pruning the counters of users that are no longer active loses no unbilled
  traffic: the next snapshot reports for every inbound and user what it would have
  reported without the pruning.
\<close>

theorem prune_keeps_unbilled:
  assumes "hook_ok m h" and "\<forall>a. storage_ok (st_at m a)"
  shows "hook_ok m (Hook_RemoveAbsent active m h) \<and>
         dget (Hook_SnapshotDelta m (Hook_RemoveAbsent active m h)) t u = dget (Hook_SnapshotDelta m h) t u"
  using assms snapshot_reports_pending hook_ok_RemoveAbsent pending_at_RemoveAbsent by simp

theorem prune_keeps_unbilled_witness:
  "hook_ok (fst two_users) (Hook_RemoveAbsent [] (fst two_users) (snd two_users)) \<and>
   dget (Hook_SnapshotDelta (fst two_users) (Hook_RemoveAbsent [] (fst two_users) (snd two_users)))
      ''vless-21-in'' ''8'' = dget (Hook_SnapshotDelta (fst two_users) (snd two_users)) ''vless-21-in'' ''8''"
  by (rule prune_keeps_unbilled) (simp_all add: two_users_ok)

end
