(* ===== verification/Http.thy ===== *)
theory Http
  imports Json
begin

text \<open>
  Requests, responses and URLs as the panel clients build and read them. The
  network is an argument: a transport takes a request and the state of the world
  and gives the new state and a response, or \<open>None\<close> when dialling, writing or
  reading failed.
\<close>

section \<open>Messages\<close>

record request =
  rq_method :: string
  rq_url :: string
  rq_headers :: "(string, string) gomap"
  rq_body :: string

record response =
  rs_StatusCode :: int
  rs_Status :: string
  rs_Body :: string

type_synonym 'w transport = "'w \<Rightarrow> request \<Rightarrow> 'w \<times> response option"

definition status_2xx :: "response \<Rightarrow> bool" where
  "status_2xx r \<longleftrightarrow> quot64 (rs_StatusCode r) 100 = 2"

lemma status_2xx_iff: "status_2xx r \<longleftrightarrow> 200 \<le> rs_StatusCode r \<and> rs_StatusCode r < 300"
  by (auto simp: status_2xx_def quot64_def sgn_if split: if_splits)

section \<open>Query strings\<close>

text \<open>\<open>url.QueryEscape\<close>: letters, digits and \<open>-_.~\<close> stay, a space becomes a plus, every
  other byte becomes a percent sign and two upper-case hexadecimal digits.\<close>

definition unreserved :: "char \<Rightarrow> bool" where
  "unreserved c \<longleftrightarrow>
     (97 \<le> code c \<and> code c \<le> 122) \<or> (65 \<le> code c \<and> code c \<le> 90) \<or> (48 \<le> code c \<and> code c \<le> 57)
     \<or> c \<in> set ''-_.~''"

definition upper_hex :: "nat \<Rightarrow> char" where
  "upper_hex d = (if d < 10 then char_of (48 + d) else char_of (55 + d))"

definition escape_char :: "char \<Rightarrow> string" where
  "escape_char c =
     (if unreserved c then [c]
      else if c = CHR '' '' then ''+''
      else [CHR ''%'', upper_hex (code c div 16), upper_hex (code c mod 16)])"

definition QueryEscape :: "string \<Rightarrow> string" where
  "QueryEscape s = concat (map escape_char s)"

fun QueryUnescape :: "string \<Rightarrow> string option" where
  "QueryUnescape [] = Some []"
| "QueryUnescape (c # s) =
     (if c = CHR ''+'' then map_option ((#) (CHR '' '')) (QueryUnescape s)
      else if c = CHR ''%'' then
        (case s of
           a # b # s' \<Rightarrow>
             (case (hex_val a, hex_val b) of
                (Some x, Some y) \<Rightarrow> map_option ((#) (char_of (x * 16 + y))) (QueryUnescape s')
              | _ \<Rightarrow> None)
         | _ \<Rightarrow> None)
      else map_option ((#) c) (QueryUnescape s))"

lemma hex_val_upper: "d < 16 \<Longrightarrow> hex_val (upper_hex d) = Some d"
  by (auto simp: hex_val_def upper_hex_def digit_val_def Let_def)

lemma escape_char_unescape:
  "QueryUnescape (escape_char c @ s) = map_option ((#) c) (QueryUnescape s)"
proof -
  have c16: "code c div 16 < 16" by (rule less_mult_imp_div_less) simp
  have whole: "char_of (code c div 16 * 16 + code c mod 16) = c" by (simp add: code_def)
  show ?thesis
  proof (cases "unreserved c \<or> c = CHR '' ''")
    case True
    then have "c \<noteq> CHR ''%'' \<and> c \<noteq> CHR ''+''" by (auto simp: unreserved_def code_def)
    then show ?thesis using True by (auto simp: escape_char_def unreserved_def)
  next
    case False
    then show ?thesis using c16 whole by (simp add: escape_char_def hex_val_upper)
  qed
qed

lemma QueryUnescape_QueryEscape: "QueryUnescape (QueryEscape s) = Some s"
  by (induction s) (simp_all add: QueryEscape_def escape_char_unescape)

text \<open>Query values: each key has a list of values; \<open>Encode\<close> sorts the keys.\<close>

type_synonym query_values = "(string, string list) gomap"

definition split_pair :: "string \<Rightarrow> string \<times> string" where
  "split_pair s = (takeWhile (\<lambda>c. c \<noteq> CHR ''='') s, drop 1 (dropWhile (\<lambda>c. c \<noteq> CHR ''='') s))"

definition add_pair :: "string \<Rightarrow> query_values \<Rightarrow> query_values" where
  "add_pair s q =
     (if s = [] \<or> CHR '';'' \<in> set s then q
      else let (k, v) = split_pair s in
        case (QueryUnescape k, QueryUnescape v) of
          (Some k', Some v') \<Rightarrow> mput k' (mget0 [] q k' @ [v']) q
        | _ \<Rightarrow> q)"

definition ParseQuery :: "string \<Rightarrow> query_values" where
  "ParseQuery s = fold add_pair (SplitByte s (CHR ''&'')) []"

definition Encode :: "query_values \<Rightarrow> string" where
  "Encode q =
     Join (concat (map (\<lambda>k. map (\<lambda>v. QueryEscape k @ ''='' @ QueryEscape v) (mget0 [] q k))
                       (sort (map fst q)))) ''&''"

section \<open>URLs\<close>

text \<open>
  The split of a URL that \<open>url.Parse\<close>, \<open>Query\<close> and \<open>String\<close> amount to for the panel
  addresses: the part before the query, the query, the fragment. Control bytes are
  refused; malformed hosts and escapes in the path, which Go also refuses, are not
  examined.
\<close>

definition url_parse :: "string \<Rightarrow> (string \<times> string \<times> string) option" where
  "url_parse s =
     (if \<exists>c \<in> set s. code c < 32 \<or> code c = 127 then None
      else let u = takeWhile (\<lambda>c. c \<noteq> CHR ''#'') s; frag = drop (length u) s;
               pre = takeWhile (\<lambda>c. c \<noteq> CHR ''?'') u; q = drop 1 (drop (length pre) u)
           in Some (pre, q, frag))"

definition url_string :: "string \<Rightarrow> string \<Rightarrow> string \<Rightarrow> string" where
  "url_string pre q frag = pre @ (if q = [] then [] else ''?'' @ q) @ frag"

end
