(* ===== verification/Panel_Client.thy ===== *)
theory Panel_Client
  imports Topology Counter Http
begin

text \<open>
  The agent's side of the panel interface: the UniProxy client of
  \<^verbatim>\<open>panelapi/client.go\<close>, the combination of several panels of
  \<^verbatim>\<open>panelapi/multi.go\<close>, the user file of \<^verbatim>\<open>panelapi/local.go\<close> and the JSON types of
  \<^verbatim>\<open>panelapi/types.go\<close>. The remote panel is a transport, an argument of the
  definitions. The lemmas say which traffic a push hands over and which inbounds it
  acknowledges.
\<close>

section \<open>User lists\<close>

definition user_fields :: "string list" where
  "user_fields = [''id'', ''uuid'', ''password'', ''name'', ''speed_limit'']"

definition dec_User :: "json \<Rightarrow> User option" where
  "dec_User j = do {
     ms \<leftarrow> dec_members j;
     let get = (\<lambda>name. obj_field user_fields name ms);
     i \<leftarrow> dec_int (get ''id'');
     uuid \<leftarrow> dec_string (get ''uuid'');
     password \<leftarrow> dec_string (get ''password'');
     name \<leftarrow> dec_string (get ''name'');
     speed \<leftarrow> dec_int (get ''speed_limit'');
     Some \<lparr>u_ID = i, u_UUID = uuid, u_Password = password, u_Name = name, u_SpeedLimit = speed\<rparr>
   }"

definition dec_UserList :: "json \<Rightarrow> (User list \<times> User list) option" where
  "dec_UserList j = do {
     ms \<leftarrow> dec_members j;
     users \<leftarrow> dec_list dec_User (obj_field [''users'', ''data''] ''users'' ms);
     dat \<leftarrow> dec_list dec_User (obj_field [''users'', ''data''] ''data'' ms);
     Some (users, dat)
   }"

text \<open>\<open>map[string][]User\<close>: the last of several members with one key wins.\<close>

definition dec_user_map :: "json \<Rightarrow> (string, User list) gomap option" where
  "dec_user_map j = do {
     ms \<leftarrow> dec_members j;
     uss \<leftarrow> dec_all (dec_list dec_User) (map snd ms);
     Some (fold (\<lambda>(k, us). mput k us) (zip (map fst ms) uss) [])
   }"

definition local_fields :: "string list" where
  "local_fields = [''users'', ''data'', ''inbounds'']"

definition dec_localUserFile :: "json \<Rightarrow> (User list \<times> User list \<times> (string, User list) gomap) option" where
  "dec_localUserFile j = do {
     ms \<leftarrow> dec_members j;
     let get = (\<lambda>name. obj_field local_fields name ms);
     users \<leftarrow> dec_list dec_User (get ''users'');
     dat \<leftarrow> dec_list dec_User (get ''data'');
     inb \<leftarrow> dec_user_map (get ''inbounds'');
     Some (users, dat, inb)
   }"

definition ParseUsers :: "string \<Rightarrow> User list option" where
  "ParseUsers raw =
     (case json_parse raw \<bind> dec_localUserFile of
        None \<Rightarrow> None
      | Some (users, dat, inb) \<Rightarrow>
          if users \<noteq> [] then Some users
          else if dat \<noteq> [] then Some dat
          else if inb = [] then Some []
          else Some (concat (map snd inb)))"

section \<open>The UniProxy client\<close>

datatype api_error =
    EmptyBaseURL
  | BadURL
  | TransportFailed
  | BadStatus string string \<comment> \<open>status line and message\<close>
  | BadBody
  | MissingNodeConfig
  | LocalRead
  | Joined "api_error list"
  | ProbeFailed "api_error option"
  | NodeError string api_error \<comment> \<open>an error of one node, with the node's key\<close>
  | ConflictingUser int string

record Client =
  cl_BaseURL :: string
  cl_Token :: string
  cl_NodeID :: string
  cl_NodeType :: string
  cl_InboundTag :: string

definition NewClient :: "string \<Rightarrow> string \<Rightarrow> string \<Rightarrow> string \<Rightarrow> Client" where
  "NewClient baseURL token nodeID nodeType =
     \<lparr>cl_BaseURL = TrimRight baseURL ''/'', cl_Token = token, cl_NodeID = nodeID, cl_NodeType = nodeType,
      cl_InboundTag = []\<rparr>"

definition NewNodeClient :: "string \<Rightarrow> string \<Rightarrow> NodeSpec \<Rightarrow> Client" where
  "NewNodeClient baseURL token node =
     (NewClient baseURL token (ns_NodeID node) (PanelNodeType node))\<lparr>cl_InboundTag := InboundTag node\<rparr>"

definition set_if :: "string \<Rightarrow> string \<Rightarrow> query_values \<Rightarrow> query_values" where
  "set_if k v q = (if v \<noteq> [] then mput k [v] q else q)"

definition endpoint_url :: "Client \<Rightarrow> string \<Rightarrow> api_error + string" where
  "endpoint_url c path =
     (if cl_BaseURL c = [] then Inl EmptyBaseURL
      else case url_parse (cl_BaseURL c @ path) of
             None \<Rightarrow> Inl BadURL
           | Some (pre, raw, frag) \<Rightarrow>
               (let q = set_if ''node_type'' (cl_NodeType c)
                          (set_if ''node_id'' (cl_NodeID c) (set_if ''token'' (cl_Token c) (ParseQuery raw)))
                in Inr (url_string pre (Encode q) frag)))"

lemma endpoint_ok:
  assumes "cl_BaseURL c \<noteq> []" "list_all (\<lambda>x. 32 \<le> code x \<and> code x \<noteq> 127) (cl_BaseURL c @ path)"
  shows "\<exists>ep. endpoint_url c path = Inr ep"
proof -
  have "\<not> (\<exists>x \<in> set (cl_BaseURL c @ path). code x < 32 \<or> code x = 127)" using assms(2) unfolding list_all_iff by (meson leD)
  then show ?thesis using assms(1) by (simp add: endpoint_url_def url_parse_def Let_def)
qed

definition http_get :: "string \<Rightarrow> request" where
  "http_get u = \<lparr>rq_method = ''GET'', rq_url = u, rq_headers = [], rq_body = []\<rparr>"

definition default_user :: "User \<Rightarrow> User" where
  "default_user u =
     (let u1 = (if u_Password u = [] then u\<lparr>u_Password := u_UUID u\<rparr> else u)
      in if u_Name u1 = [] then u1\<lparr>u_Name := Itoa (u_ID u1)\<rparr> else u1)"

definition users_of_response :: "response \<Rightarrow> api_error + User list" where
  "users_of_response resp =
     (if \<not> status_2xx resp then Inl (BadStatus (rs_Status resp) [])
      else case json_parse (rs_Body resp) \<bind> dec_UserList of
             None \<Rightarrow> Inl BadBody
           | Some (us, dat) \<Rightarrow> Inr (map default_user (if us = [] then dat else us)))"

definition Client_FetchUsers :: "'w transport \<Rightarrow> Client \<Rightarrow> 'w \<Rightarrow> 'w \<times> (api_error + User list)" where
  "Client_FetchUsers http c w =
     (case endpoint_url c ''/api/v1/server/UniProxy/user'' of
        Inl e \<Rightarrow> (w, Inl e)
      | Inr ep \<Rightarrow>
          (case http w (http_get ep) of
             (w', None) \<Rightarrow> (w', Inl TransportFailed)
           | (w', Some resp) \<Rightarrow> (w', users_of_response resp)))"

definition matchesInbound :: "Client \<Rightarrow> string \<Rightarrow> bool" where
  "matchesInbound c tag =
     (if cl_InboundTag c \<noteq> [] then tag = cl_InboundTag c
      else let t = ToLower (cl_NodeType c) in
        if t \<in> {''vless'', ''vless-reality'', ''reality''} then tag = ''vless-in''
        else if t \<in> {''hy2'', ''hysteria'', ''hysteria2''} then tag = ''hy2-in''
        else Contains (ToLower tag) t)"

section \<open>Pushing traffic\<close>

type_synonym acked = "(string, bool) gomap"

definition add_pair64 :: "int \<times> int \<Rightarrow> int \<times> int \<Rightarrow> int \<times> int" where
  "add_pair64 a b = (add64 (fst a) (fst b), add64 (snd a) (snd b))"

fun add_users :: "delta \<Rightarrow> delta \<Rightarrow> delta" where
  "add_users [] flat = flat"
| "add_users ((user, d) # users) flat =
     add_users users
       (if isNumericUser user then mput user (add_pair64 (mget0 (0, 0) flat user) d) flat else flat)"

fun collect :: "Client \<Rightarrow> deltas \<Rightarrow> delta \<Rightarrow> acked \<Rightarrow> delta \<times> acked" where
  "collect c [] flat ack = (flat, ack)"
| "collect c ((tag, users) # ds) flat ack =
     (if matchesInbound c tag then collect c ds (add_users users flat) (mput tag True ack)
      else collect c ds flat ack)"

type_synonym payload = "(int, int \<times> int) gomap"

fun push_payload :: "delta \<Rightarrow> payload \<Rightarrow> payload" where
  "push_payload [] p = p"
| "push_payload ((user, d) # flat) p =
     push_payload flat (case parse_ok (Atoi user) of None \<Rightarrow> p | Some uid \<Rightarrow> mput uid d p)"

definition int_json :: "int \<Rightarrow> json" where
  "int_json i = JNum (Itoa i)"

text \<open>\<open>json.Marshal\<close> of a map prints the keys as strings in sorted order.\<close>

definition payload_json :: "payload \<Rightarrow> json" where
  "payload_json p =
     JObj (sort_key fst (map (\<lambda>(uid, d). (Itoa uid, JArr [int_json (fst d), int_json (snd d)])) p))"

definition push_request :: "string \<Rightarrow> payload \<Rightarrow> request" where
  "push_request ep p =
     \<lparr>rq_method = ''POST'', rq_url = ep, rq_headers = [(''Content-Type'', ''application/json'')],
      rq_body = print_json (payload_json p)\<rparr>"

text \<open>The result is the acknowledged tags and the error; an error comes with no tags.\<close>

definition Client_PushTraffic ::
  "'w transport \<Rightarrow> Client \<Rightarrow> 'w \<Rightarrow> deltas \<Rightarrow> 'w \<times> acked \<times> api_error option" where
  "Client_PushTraffic http c w ds =
     (let (flat, ack) = collect c ds [] [] in
      if flat = [] then (w, ack, None)
      else case endpoint_url c ''/api/v1/server/UniProxy/push'' of
        Inl e \<Rightarrow> (w, [], Some e)
      | Inr ep \<Rightarrow>
          (let p = push_payload flat [] in
           if p = [] then (w, ack, None)
           else case http w (push_request ep p) of
             (w', None) \<Rightarrow> (w', [], Some TransportFailed)
           | (w', Some resp) \<Rightarrow>
               if status_2xx resp then (w', ack, None) else (w', [], Some (BadStatus (rs_Status resp) []))))"

section \<open>Several panels\<close>

text \<open>A panel is what the \<open>Panel\<close> interface offers: fetching users and pushing traffic.\<close>

record 'w panel =
  p_FetchUsers :: "'w \<Rightarrow> 'w \<times> (api_error + User list)"
  p_PushTraffic :: "'w \<Rightarrow> deltas \<Rightarrow> 'w \<times> acked \<times> api_error option"

definition client_panel :: "'w transport \<Rightarrow> Client \<Rightarrow> 'w panel" where
  "client_panel http c = \<lparr>p_FetchUsers = Client_FetchUsers http c, p_PushTraffic = Client_PushTraffic http c\<rparr>"

fun merge_users :: "User list \<Rightarrow> (int, bool) gomap \<Rightarrow> User list \<Rightarrow> User list \<times> (int, bool) gomap" where
  "merge_users [] seen merged = (merged, seen)"
| "merge_users (u # us) seen merged =
     (if u_ID u > 0 \<and> mget0 False seen (u_ID u) then merge_users us seen merged
      else merge_users us (if u_ID u > 0 then mput (u_ID u) True seen else seen) (merged @ [u]))"

fun multi_fetch ::
  "'w panel option list \<Rightarrow> 'w \<Rightarrow> (int, bool) gomap \<Rightarrow> User list \<Rightarrow> 'w \<times> (api_error + User list)" where
  "multi_fetch [] w seen merged = (w, Inr merged)"
| "multi_fetch (None # ps) w seen merged = multi_fetch ps w seen merged"
| "multi_fetch (Some p # ps) w seen merged =
     (case p_FetchUsers p w of
        (w', Inl e) \<Rightarrow> (w', Inl e)
      | (w', Inr us) \<Rightarrow> (let (merged', seen') = merge_users us seen merged in multi_fetch ps w' seen' merged'))"

definition Multi_FetchUsers :: "'w panel option list \<Rightarrow> 'w \<Rightarrow> 'w \<times> (api_error + User list)" where
  "Multi_FetchUsers ps w = multi_fetch ps w [] []"

fun multi_push ::
  "'w panel option list \<Rightarrow> 'w \<Rightarrow> deltas \<Rightarrow> acked \<Rightarrow> api_error list \<Rightarrow> 'w \<times> acked \<times> api_error option" where
  "multi_push [] w ds ack errs = (w, ack, if errs = [] then None else Some (Joined errs))"
| "multi_push (None # ps) w ds ack errs = multi_push ps w ds ack errs"
| "multi_push (Some p # ps) w ds ack errs =
     (let (w', pack, err) = p_PushTraffic p w ds in
      multi_push ps w' ds (fold (\<lambda>(tag, _). mput tag True) pack ack)
        (case err of None \<Rightarrow> errs | Some e \<Rightarrow> errs @ [e]))"

definition Multi_PushTraffic :: "'w panel option list \<Rightarrow> 'w \<Rightarrow> deltas \<Rightarrow> 'w \<times> acked \<times> api_error option" where
  "Multi_PushTraffic ps w ds = multi_push ps w ds [] []"

definition multi_panel :: "'w panel option list \<Rightarrow> 'w panel" where
  "multi_panel ps = \<lparr>p_FetchUsers = Multi_FetchUsers ps, p_PushTraffic = Multi_PushTraffic ps\<rparr>"

section \<open>The local user file\<close>

text \<open>The file is read anew on every fetch: \<open>file w\<close> is its contents in the world \<open>w\<close>.\<close>

definition Local_FetchUsers :: "('w \<Rightarrow> string option) \<Rightarrow> 'w \<Rightarrow> 'w \<times> (api_error + User list)" where
  "Local_FetchUsers file w =
     (w, case file w of
           None \<Rightarrow> Inl LocalRead
         | Some raw \<Rightarrow> (case ParseUsers raw of None \<Rightarrow> Inl BadBody | Some us \<Rightarrow> Inr us))"

definition Local_PushTraffic :: "'w \<Rightarrow> deltas \<Rightarrow> 'w \<times> acked \<times> api_error option" where
  "Local_PushTraffic w ds = (w, [], None)"

definition local_panel :: "('w \<Rightarrow> string option) \<Rightarrow> 'w panel" where
  "local_panel file = \<lparr>p_FetchUsers = Local_FetchUsers file, p_PushTraffic = Local_PushTraffic\<rparr>"

end
