(* ===== verification/Sync.thy ===== *)
theory Sync
  imports Panel_Client
begin

text \<open>
  The synchronisation loop of \<^verbatim>\<open>panelapi/sync.go\<close>. A \<open>Syncer\<close> is a record of the
  functions it was given, as in the code: a panel, the snapshot and commit functions
  of the traffic registry and the callback for fetched users. What the data path does
  while a round runs is an argument of the round.

  The theory then states the two contracts the loop relies on as locales: what the
  traffic registry promises (\<open>traffic_ledger\<close>) and what a panel promises
  (\<open>panel_contract\<close>). From both follows that no counted byte is lost and none is
  billed twice, for any number of rounds, failed and partial pushes included.
\<close>

section \<open>The loop\<close>

record ('w, 's) Syncer =
  sy_Panel :: "'w panel option"
  sy_Snapshot :: "('s \<Rightarrow> deltas) option"
  sy_Commit :: "(deltas \<Rightarrow> 's \<Rightarrow> 's) option"
  sy_Users :: "(User list \<Rightarrow> 'w \<Rightarrow> 's \<Rightarrow> 'w \<times> 's \<times> api_error option) option"
  sy_Every :: int

definition hasTraffic :: "deltas \<Rightarrow> bool" where
  "hasTraffic ds = list_ex (\<lambda>(_, users). list_ex (\<lambda>(user, _). isNumericUser user) users) ds"

fun commit_users :: "string \<Rightarrow> delta \<Rightarrow> deltas \<Rightarrow> deltas" where
  "commit_users inbound [] out = out"
| "commit_users inbound ((user, v) # users) out =
     commit_users inbound users
       (if isNumericUser user then mput inbound (mput user v (mget0 [] out inbound)) out else out)"

fun commit_inbounds :: "acked option \<Rightarrow> deltas \<Rightarrow> deltas \<Rightarrow> deltas" where
  "commit_inbounds only [] out = out"
| "commit_inbounds only ((inbound, users) # ds) out =
     (case only of
        Some ack \<Rightarrow>
          if mget0 False ack inbound then commit_inbounds only ds (commit_users inbound users out)
          else commit_inbounds only ds out
      | None \<Rightarrow> commit_inbounds only ds (commit_users inbound users out))"

definition commitDelta :: "deltas \<Rightarrow> acked option \<Rightarrow> deltas" where
  "commitDelta ds only = commit_inbounds only ds []"

fun flatten :: "deltas \<Rightarrow> delta \<Rightarrow> delta" where
  "flatten [] out = out"
| "flatten ((_, users) # ds) out = flatten ds (add_users users out)"

text \<open>\<open>flush\<close>. The argument \<open>during\<close> is what happens to the registry while the push is
  in flight.\<close>

definition flush :: "('w, 's) Syncer \<Rightarrow> ('s \<Rightarrow> 's) \<Rightarrow> 'w \<Rightarrow> 's \<Rightarrow> 'w \<times> 's" where
  "flush sy during w s =
     (case (sy_Panel sy, sy_Snapshot sy, sy_Commit sy) of
        (Some panel, Some snapshot, Some cmt) \<Rightarrow>
          (let ds = snapshot s in
           if ds = [] \<or> \<not> hasTraffic ds then (w, during s)
           else case p_PushTraffic panel w ds of
                  (w', ack, Some e) \<Rightarrow>
                    if ack = [] then (w', during s) else (w', cmt (commitDelta ds (Some ack)) (during s))
                | (w', ack, None) \<Rightarrow> (w', cmt (commitDelta ds None) (during s)))
      | _ \<Rightarrow> (w, during s))"

definition FinalFlush :: "('w, 's) Syncer \<Rightarrow> ('s \<Rightarrow> 's) \<Rightarrow> 'w \<Rightarrow> 's \<Rightarrow> 'w \<times> 's" where
  "FinalFlush = flush"

text \<open>\<open>syncOnce\<close>. The argument \<open>fetching\<close> is what happens to the registry while the
  users are fetched.\<close>

definition syncOnce :: "('w, 's) Syncer \<Rightarrow> ('s \<Rightarrow> 's) \<times> ('s \<Rightarrow> 's) \<Rightarrow> 'w \<Rightarrow> 's \<Rightarrow> 'w \<times> 's" where
  "syncOnce sy env w s =
     (let (fetching, during) = env in
      case sy_Panel sy of
        None \<Rightarrow> (w, during (fetching s))
      | Some panel \<Rightarrow>
          (case p_FetchUsers panel w of
             (w1, Inl e) \<Rightarrow> flush sy during w1 (fetching s)
           | (w1, Inr users) \<Rightarrow>
               (case sy_Users sy of
                  None \<Rightarrow> flush sy during w1 (fetching s)
                | Some apply_users \<Rightarrow>
                    (let (w2, s2, _) = apply_users users w1 (fetching s) in flush sy during w2 s2))))"

text \<open>\<open>Run\<close>: one round at once, then one for every tick until the context ends. The list
  has the interference of each round; its length is the number of ticks plus one.\<close>

definition run_every :: "('w, 's) Syncer \<Rightarrow> int" where
  "run_every sy = (if sy_Every sy \<le> 0 then 60 * 1000000000 else sy_Every sy)"

fun rounds :: "('w, 's) Syncer \<Rightarrow> (('s \<Rightarrow> 's) \<times> ('s \<Rightarrow> 's)) list \<Rightarrow> 'w \<times> 's \<Rightarrow> 'w \<times> 's" where
  "rounds sy [] ws = ws"
| "rounds sy (env # envs) ws = rounds sy envs (syncOnce sy env (fst ws) (snd ws))"

definition Run ::
  "('w, 's) Syncer \<Rightarrow> ('s \<Rightarrow> 's) \<times> ('s \<Rightarrow> 's) \<Rightarrow> (('s \<Rightarrow> 's) \<times> ('s \<Rightarrow> 's)) list \<Rightarrow> 'w \<Rightarrow> 's \<Rightarrow> 'w \<times> 's" where
  "Run sy first ticks w s = rounds sy (first # ticks) (w, s)"

section \<open>What is committed\<close>

text \<open>The entry of a two-level delta, if there is one.\<close>

definition entry :: "deltas \<Rightarrow> string \<Rightarrow> string \<Rightarrow> (int \<times> int) option" where
  "entry ds t u = (case mget ds t of None \<Rightarrow> None | Some d \<Rightarrow> mget d u)"

lemma dget_entry: "dget ds t u = (case entry ds t u of None \<Rightarrow> (0, 0) | Some x \<Rightarrow> x)"
  by (auto simp: dget_def entry_def mget0_def split: option.splits)

lemma wf_deltas_Cons:
  "wf_deltas ((t, d) # ds) \<longleftrightarrow> wf_deltas ds \<and> wf_map d \<and> mget ds t = None"
proof
  assume wf: "wf_deltas ((t, d) # ds)"
  then have n: "mget ds t = None" by (simp add: wf_deltas_def map_of_eq_None_iff)
  have all: "wf_map d'" if "mget ((t, d) # ds) t' = Some d'" for t' d'
    using wf that unfolding wf_deltas_def by blast
  have "wf_map d'" if "mget ds t' = Some d'" for t' d'
    using all [of t' d'] n that by (cases "t' = t") simp_all
  moreover have "wf_map d" using all [of t d] by simp
  ultimately show "wf_deltas ds \<and> wf_map d \<and> mget ds t = None" using wf n by (simp add: wf_deltas_def)
qed (auto simp: wf_deltas_def map_of_eq_None_iff)

lemma entry_Cons: "entry ((t, d) # ds) t' u = (if t' = t then mget d u else entry ds t' u)"
  by (simp add: entry_def)

lemma entry_mput: "entry (mput t d ds) t' u = (if t' = t then mget d u else entry ds t' u)"
  by (simp add: entry_def)

lemma wf_deltas_mput: "wf_deltas ds \<Longrightarrow> wf_map d \<Longrightarrow> wf_deltas (mput t d ds)"
  unfolding wf_deltas_def by (simp add: wf_mput)

lemma wf_deltas_mget0: "wf_deltas ds \<Longrightarrow> wf_map (mget0 [] ds t)"
  by (cases "mget ds t") (simp_all add: wf_deltas_def mget0_def)

lemma wf_commit_users: "wf_deltas out \<Longrightarrow> wf_deltas (commit_users t d out)"
  by (induction t d out rule: commit_users.induct) (simp_all add: wf_deltas_mput wf_deltas_mget0)

lemma entry_commit_users:
  "wf_map d \<Longrightarrow> entry (commit_users t d out) t' u =
     (if t' = t \<and> isNumericUser u \<and> mhas d u then mget d u else entry out t' u)"
proof (induction t d out rule: commit_users.induct)
  case (2 t user v users out)
  define out1 where "out1 =
    (if isNumericUser user then mput t (mput user v (mget0 [] out t)) out else out)"
  have n: "\<not> mhas users user" using 2(2) by (simp add: mhas_def map_of_eq_None_iff)
  have out1: "entry out1 t' u = (if t' = t \<and> u = user \<and> isNumericUser user then Some v else entry out t' u)"
    by (simp add: out1_def entry_mput) (simp add: entry_def mget0_def split: option.splits)
  have ih: "entry (commit_users t users out1) t' u =
    (if t' = t \<and> isNumericUser u \<and> mhas users u then mget users u else entry out1 t' u)"
    using 2 by (simp add: out1_def)
  have "mhas ((user, v) # users) u \<longleftrightarrow> u = user \<or> mhas users u" by (simp add: mhas_def)
  then show ?case using ih out1 n by (cases "u = user") (simp_all add: out1_def [symmetric])
qed (simp add: mhas_def)

definition selected :: "acked option \<Rightarrow> string \<Rightarrow> bool" where
  "selected only t = (case only of None \<Rightarrow> True | Some ack \<Rightarrow> mget0 False ack t)"

lemma commit_inbounds_Cons:
  "commit_inbounds only ((inbound, users) # ds) out =
     commit_inbounds only ds (if selected only inbound then commit_users inbound users out else out)"
  by (cases only) (simp_all add: selected_def)

lemma entry_commit_inbounds:
  "wf_deltas ds \<Longrightarrow> entry (commit_inbounds only ds out) t u =
     (case entry ds t u of
        Some x \<Rightarrow> if selected only t \<and> isNumericUser u then Some x else entry out t u
      | None \<Rightarrow> entry out t u)"
proof (induction ds arbitrary: out)
  case (Cons p ds)
  obtain inbound users where p: "p = (inbound, users)" by (cases p)
  have wf: "wf_deltas ds" "wf_map users" and n: "entry ds inbound u = None"
    using Cons.prems by (simp_all add: p wf_deltas_Cons entry_def)
  define out1 where "out1 = (if selected only inbound then commit_users inbound users out else out)"
  have step: "entry (commit_inbounds only (p # ds) out) t u = entry (commit_inbounds only ds out1) t u"
    by (simp add: p commit_inbounds_Cons out1_def del: commit_inbounds.simps)
  have out1: "entry out1 t u =
      (if selected only inbound \<and> t = inbound \<and> isNumericUser u \<and> mhas users u then mget users u else entry out t u)"
    by (simp add: out1_def entry_commit_users [OF wf(2)])
  show ?case
  proof (cases "t = inbound")
    case True
    then show ?thesis
      using step Cons.IH [OF wf(1), of out1] out1 n
      by (cases "mget users u") (simp_all add: p entry_Cons mhas_def del: commit_inbounds.simps)
  next
    case False
    then show ?thesis
      using step Cons.IH [OF wf(1), of out1] out1
      by (cases "entry ds t u") (simp_all add: p entry_Cons del: commit_inbounds.simps)
  qed
qed (simp add: entry_def)

lemma wf_commit_inbounds: "wf_deltas out \<Longrightarrow> wf_deltas (commit_inbounds only ds out)"
  by (induction only ds out rule: commit_inbounds.induct) (simp_all add: wf_commit_users split: option.split)

lemma wf_commitDelta [go_inv]: "wf_deltas (commitDelta ds only)"
  unfolding commitDelta_def by (rule wf_commit_inbounds) (simp add: wf_deltas_def)

lemma dget_commitDelta:
  assumes "wf_deltas ds"
  shows "dget (commitDelta ds only) t u =
     (if selected only t \<and> isNumericUser u then dget ds t u else (0, 0))"
proof -
  have "entry [] t u = None" by (simp add: entry_def)
  then show ?thesis
    by (cases "entry ds t u") (simp_all add: commitDelta_def dget_entry entry_commit_inbounds [OF assms])
qed

section \<open>Amounts and events\<close>

definition padd :: "int \<times> int \<Rightarrow> int \<times> int \<Rightarrow> int \<times> int" where
  "padd a b = (fst a + fst b, snd a + snd b)"

definition psub :: "int \<times> int \<Rightarrow> int \<times> int \<Rightarrow> int \<times> int" where
  "psub a b = (fst a - fst b, snd a - snd b)"

definition ple :: "int \<times> int \<Rightarrow> int \<times> int \<Rightarrow> bool" where
  "ple a b \<longleftrightarrow> fst a \<le> fst b \<and> snd a \<le> snd b"

lemma padd_zero [simp]: "padd a (0, 0) = a" "padd (0, 0) a = a"
  by (simp_all add: padd_def)

lemma padd_assoc: "padd (padd a b) c = padd a (padd b c)"
  by (simp add: padd_def)

lemma padd_psub: "padd (padd a d) (psub b d) = padd a b"
  by (simp add: padd_def psub_def)

lemma ple_padd: "ple (0, 0) b \<Longrightarrow> ple a c \<Longrightarrow> ple a (padd c b)"
  by (simp add: ple_def padd_def)

lemma ple_refl [simp]: "ple a a"
  by (simp add: ple_def)

text \<open>A sequence of events of the data path, whether each is possible where it happens, and
  the traffic they add for an inbound and a user.\<close>

fun run_events :: "('e \<Rightarrow> 's \<Rightarrow> 's) \<Rightarrow> 'e list \<Rightarrow> 's \<Rightarrow> 's" where
  "run_events act [] s = s"
| "run_events act (e # es) s = run_events act es (act e s)"

fun events_ok :: "('e \<Rightarrow> 's \<Rightarrow> 's) \<Rightarrow> ('e \<Rightarrow> 's \<Rightarrow> bool) \<Rightarrow> 'e list \<Rightarrow> 's \<Rightarrow> bool" where
  "events_ok act enabled [] s = True"
| "events_ok act enabled (e # es) s = (enabled e s \<and> events_ok act enabled es (act e s))"

fun events_sum ::
  "('e \<Rightarrow> 's \<Rightarrow> 's) \<Rightarrow> ('e \<Rightarrow> 's \<Rightarrow> string \<Rightarrow> string \<Rightarrow> int \<times> int) \<Rightarrow> 'e list \<Rightarrow> 's \<Rightarrow> string \<Rightarrow> string \<Rightarrow> int \<times> int"
where
  "events_sum act amount [] s t u = (0, 0)"
| "events_sum act amount (e # es) s t u = padd (amount e s t u) (events_sum act amount es (act e s) t u)"

section \<open>What the traffic registry promises\<close>

definition delta_ok :: "(string \<Rightarrow> string \<Rightarrow> bool) \<Rightarrow> deltas \<Rightarrow> bool" where
  "delta_ok admissible ds \<longleftrightarrow> wf_deltas ds \<and>
     (\<forall>t u d. entry ds t u = Some d \<longrightarrow> admissible t u \<and> is_int64 (fst d) \<and> is_int64 (snd d))"

locale traffic_ledger =
  fixes inv :: "'s \<Rightarrow> bool"
    and pend :: "'s \<Rightarrow> string \<Rightarrow> string \<Rightarrow> int \<times> int"
    and snapshot :: "'s \<Rightarrow> deltas"
    and cmt :: "deltas \<Rightarrow> 's \<Rightarrow> 's"
    and act :: "'e \<Rightarrow> 's \<Rightarrow> 's"
    and enabled :: "'e \<Rightarrow> 's \<Rightarrow> bool"
    and amount :: "'e \<Rightarrow> 's \<Rightarrow> string \<Rightarrow> string \<Rightarrow> int \<times> int"
    and admissible :: "string \<Rightarrow> string \<Rightarrow> bool"
  assumes pend_nonneg: "inv s \<Longrightarrow> ple (0, 0) (pend s t u)"
    and snapshot_ok: "inv s \<Longrightarrow> delta_ok admissible (snapshot s)"
    and snapshot_pend: "inv s \<Longrightarrow> dget (snapshot s) t u = pend s t u"
    and cmt_inv: "inv s \<Longrightarrow> wf_deltas d \<Longrightarrow> \<forall>t u. ple (0, 0) (dget d t u) \<and> ple (dget d t u) (pend s t u) \<Longrightarrow>
          inv (cmt d s)"
    and cmt_pend: "inv s \<Longrightarrow> wf_deltas d \<Longrightarrow> \<forall>t u. ple (0, 0) (dget d t u) \<and> ple (dget d t u) (pend s t u) \<Longrightarrow>
          pend (cmt d s) t u = psub (pend s t u) (dget d t u)"
    and act_inv: "inv s \<Longrightarrow> enabled e s \<Longrightarrow> inv (act e s)"
    and act_pend: "inv s \<Longrightarrow> enabled e s \<Longrightarrow> pend (act e s) t u = padd (pend s t u) (amount e s t u)"
    and amount_nonneg: "inv s \<Longrightarrow> enabled e s \<Longrightarrow> ple (0, 0) (amount e s t u)"
begin

lemma run_inv: "inv s \<Longrightarrow> events_ok act enabled es s \<Longrightarrow> inv (run_events act es s)"
  by (induction es arbitrary: s) (simp_all add: act_inv)

lemma run_pend:
  "inv s \<Longrightarrow> events_ok act enabled es s \<Longrightarrow>
     pend (run_events act es s) t u = padd (pend s t u) (events_sum act amount es s t u)"
  by (induction es arbitrary: s) (simp_all add: act_inv act_pend padd_assoc)

lemma run_grows:
  "inv s \<Longrightarrow> events_ok act enabled es s \<Longrightarrow> ple (pend s t u) (pend (run_events act es s) t u)"
proof (induction es arbitrary: s)
  case (Cons e es)
  have "ple (pend (act e s) t u) (pend (run_events act es (act e s)) t u)"
    using Cons act_inv by simp
  then show ?case
    using Cons.prems act_pend [of s e t u] amount_nonneg [of s e t u] by (auto simp: ple_def padd_def)
qed simp

end

section \<open>What a panel promises\<close>

text \<open>After a push the accounts of the panel have grown by what was pushed, for every
  inbound the push acknowledged (all inbounds when there was no error), and for the
  others by nothing.\<close>

definition accepted :: "acked \<Rightarrow> api_error option \<Rightarrow> string \<Rightarrow> bool" where
  "accepted ack err t \<longleftrightarrow> err = None \<or> mget0 False ack t"

locale panel_contract =
  fixes push :: "'w \<Rightarrow> deltas \<Rightarrow> 'w \<times> acked \<times> api_error option"
    and booked :: "'w \<Rightarrow> string \<Rightarrow> string \<Rightarrow> int \<times> int"
    and admissible :: "string \<Rightarrow> string \<Rightarrow> bool"
  assumes push_books:
    "delta_ok admissible ds \<Longrightarrow> push w ds = (w', ack, err) \<Longrightarrow> isNumericUser u \<Longrightarrow> admissible t u \<Longrightarrow>
       booked w' t u = padd (booked w t u) (if accepted ack err t then dget ds t u else (0, 0))"

section \<open>Exactly-once billing\<close>

definition billing_syncer ::
  "('w \<Rightarrow> 'w \<times> (api_error + User list)) \<Rightarrow> ('w \<Rightarrow> deltas \<Rightarrow> 'w \<times> acked \<times> api_error option) \<Rightarrow>
   ('s \<Rightarrow> deltas) \<Rightarrow> (deltas \<Rightarrow> 's \<Rightarrow> 's) \<Rightarrow>
   (User list \<Rightarrow> 'w \<Rightarrow> 's \<Rightarrow> 'w \<times> 's \<times> api_error option) \<Rightarrow> int \<Rightarrow> ('w, 's) Syncer" where
  "billing_syncer fetch push snapshot cmt users every =
     \<lparr>sy_Panel = Some \<lparr>p_FetchUsers = fetch, p_PushTraffic = push\<rparr>, sy_Snapshot = Some snapshot,
      sy_Commit = Some cmt, sy_Users = Some users, sy_Every = every\<rparr>"

text \<open>A script has for every round the events while users are fetched and those while the
  push is in flight.\<close>

definition script_env :: "('e \<Rightarrow> 's \<Rightarrow> 's) \<Rightarrow> 'e list \<times> 'e list \<Rightarrow> ('s \<Rightarrow> 's) \<times> ('s \<Rightarrow> 's)" where
  "script_env act r = (run_events act (fst r), run_events act (snd r))"

text \<open>The state in which the push of a round starts.\<close>

definition before_flush :: "('w, 's) Syncer \<Rightarrow> ('s \<Rightarrow> 's) \<Rightarrow> 'w \<Rightarrow> 's \<Rightarrow> 's" where
  "before_flush sy fetching w s =
     (case (sy_Panel sy, sy_Users sy) of
        (Some panel, Some apply_users) \<Rightarrow>
          (case p_FetchUsers panel w of
             (w1, Inl e) \<Rightarrow> fetching s
           | (w1, Inr users) \<Rightarrow> fst (snd (apply_users users w1 (fetching s))))
      | _ \<Rightarrow> fetching s)"

fun script_ok ::
  "('w, 's) Syncer \<Rightarrow> ('e \<Rightarrow> 's \<Rightarrow> 's) \<Rightarrow> ('e \<Rightarrow> 's \<Rightarrow> bool) \<Rightarrow> ('e list \<times> 'e list) list \<Rightarrow> 'w \<times> 's \<Rightarrow> bool" where
  "script_ok sy act enabled [] ws = True"
| "script_ok sy act enabled (r # rs) ws =
     (events_ok act enabled (fst r) (snd ws) \<and>
      events_ok act enabled (snd r) (before_flush sy (run_events act (fst r)) (fst ws) (snd ws)) \<and>
      script_ok sy act enabled rs (syncOnce sy (script_env act r) (fst ws) (snd ws)))"

fun script_sum ::
  "('w, 's) Syncer \<Rightarrow> ('e \<Rightarrow> 's \<Rightarrow> 's) \<Rightarrow> ('e \<Rightarrow> 's \<Rightarrow> string \<Rightarrow> string \<Rightarrow> int \<times> int) \<Rightarrow>
   ('e list \<times> 'e list) list \<Rightarrow> 'w \<times> 's \<Rightarrow> string \<Rightarrow> string \<Rightarrow> int \<times> int" where
  "script_sum sy act amount [] ws t u = (0, 0)"
| "script_sum sy act amount (r # rs) ws t u =
     padd (padd (events_sum act amount (fst r) (snd ws) t u)
                (events_sum act amount (snd r) (before_flush sy (run_events act (fst r)) (fst ws) (snd ws)) t u))
          (script_sum sy act amount rs (syncOnce sy (script_env act r) (fst ws) (snd ws)) t u)"

locale billing = traffic_ledger inv pend snapshot cmt act enabled amount admissible +
    panel_contract push booked admissible
  for inv :: "'s \<Rightarrow> bool" and pend and snapshot and cmt
    and act :: "'e \<Rightarrow> 's \<Rightarrow> 's" and enabled and amount and admissible
    and push :: "'w \<Rightarrow> deltas \<Rightarrow> 'w \<times> acked \<times> api_error option" and booked +
  fixes fetch :: "'w \<Rightarrow> 'w \<times> (api_error + User list)"
    and users :: "User list \<Rightarrow> 'w \<Rightarrow> 's \<Rightarrow> 'w \<times> 's \<times> api_error option"
    and every :: int
  assumes fetch_books: "fetch w = (w', r) \<Longrightarrow> booked w' t u = booked w t u"
    and users_books: "users us w s = (w', s', e) \<Longrightarrow> booked w' t u = booked w t u"
    and users_inv: "inv s \<Longrightarrow> users us w s = (w', s', e) \<Longrightarrow> inv s'"
    and users_pend: "inv s \<Longrightarrow> users us w s = (w', s', e) \<Longrightarrow> pend s' t u = pend s t u"
begin

definition sy :: "('w, 's) Syncer" where
  "sy = billing_syncer fetch push snapshot cmt users every"

lemma sy_fields:
  "sy_Panel sy = Some \<lparr>p_FetchUsers = fetch, p_PushTraffic = push\<rparr>" "sy_Snapshot sy = Some snapshot"
  "sy_Commit sy = Some cmt" "sy_Users sy = Some users"
  by (simp_all add: sy_def billing_syncer_def)

lemma no_traffic_pend:
  assumes "inv s" "snapshot s = [] \<or> \<not> hasTraffic (snapshot s)" "isNumericUser u"
  shows "pend s t u = (0, 0)"
proof -
  have "entry (snapshot s) t u = None"
  proof (rule ccontr)
    assume "entry (snapshot s) t u \<noteq> None"
    then obtain d x where "mget (snapshot s) t = Some d" "mget d u = Some x"
      by (auto simp: entry_def split: option.splits)
    then have "(t, d) \<in> set (snapshot s)" "(u, x) \<in> set d" by (auto dest: map_of_SomeD)
    then have "hasTraffic (snapshot s)" using assms(3) by (auto simp: hasTraffic_def list_ex_iff)
    then show False using assms(2) \<open>(t, d) \<in> set (snapshot s)\<close> by auto
  qed
  then show ?thesis using snapshot_pend [OF assms(1), of t u] by (simp add: dget_entry)
qed

lemma commit_part:
  assumes s: "inv s" and es: "events_ok act enabled es s"
  defines "s1 \<equiv> run_events act es s"
  shows "inv (cmt (commitDelta (snapshot s) only) s1)"
    and "pend (cmt (commitDelta (snapshot s) only) s1) t u =
           psub (pend s1 t u) (if selected only t \<and> isNumericUser u then pend s t u else (0, 0))"
proof -
  have wf: "wf_deltas (snapshot s)" using snapshot_ok [OF s] by (simp add: delta_ok_def)
  have d: "dget (commitDelta (snapshot s) only) t u =
      (if selected only t \<and> isNumericUser u then pend s t u else (0, 0))" for t u
    by (simp add: dget_commitDelta [OF wf] snapshot_pend [OF s])
  have i1: "inv s1" unfolding s1_def by (rule run_inv [OF s es])
  have le: "\<forall>t u. ple (0, 0) (dget (commitDelta (snapshot s) only) t u) \<and>
      ple (dget (commitDelta (snapshot s) only) t u) (pend s1 t u)"
    using pend_nonneg [OF s] pend_nonneg [OF i1] run_grows [OF s es] by (simp add: d s1_def)
  show "inv (cmt (commitDelta (snapshot s) only) s1)" by (rule cmt_inv [OF i1 wf_commitDelta le])
  show "pend (cmt (commitDelta (snapshot s) only) s1) t u =
      psub (pend s1 t u) (if selected only t \<and> isNumericUser u then pend s t u else (0, 0))"
    using cmt_pend [OF i1 wf_commitDelta le] by (simp add: d)
qed

lemma flush_total:
  assumes s: "inv s" and es: "events_ok act enabled es s"
    and fl: "flush sy (run_events act es) w s = (w', s')"
  shows "inv s'"
    and "isNumericUser u \<Longrightarrow> admissible t u \<Longrightarrow>
      padd (booked w' t u) (pend s' t u) = padd (padd (booked w t u) (pend s t u)) (events_sum act amount es s t u)"
proof -
  define s1 where "s1 = run_events act es s"
  have i1: "inv s1" unfolding s1_def by (rule run_inv [OF s es])
  have p1: "pend s1 t u = padd (pend s t u) (events_sum act amount es s t u)" for t u
    unfolding s1_def by (rule run_pend [OF s es])
  obtain wp ack err where push: "push w (snapshot s) = (wp, ack, err)" by (metis prod_cases3)
  have books: "isNumericUser u \<Longrightarrow> admissible t u \<Longrightarrow>
      booked wp t u = padd (booked w t u) (if accepted ack err t then pend s t u else (0, 0))" for t u
    using push_books [OF snapshot_ok [OF s] push] by (simp add: snapshot_pend [OF s])
  define only where "only = (if err = None then None else Some ack)"
  consider (quiet) "snapshot s = [] \<or> \<not> hasTraffic (snapshot s)" "w' = w" "s' = s1"
    | (failed) "err \<noteq> None" "ack = []" "w' = wp" "s' = s1"
    | (commits) "w' = wp" "s' = cmt (commitDelta (snapshot s) only) s1" "err = None \<or> ack \<noteq> []"
    using fl push
    by (auto simp: flush_def sy_fields Let_def s1_def [symmetric] only_def split: option.splits if_splits)
  then have "inv s' \<and> (isNumericUser u \<longrightarrow> admissible t u \<longrightarrow>
      padd (booked w' t u) (pend s' t u) = padd (padd (booked w t u) (pend s t u)) (events_sum act amount es s t u))"
  proof cases
    case quiet
    then show ?thesis using i1 by (simp add: p1 padd_assoc)
  next
    case failed
    then show ?thesis using i1 books by (auto simp: p1 padd_assoc accepted_def)
  next
    case commits
    have sel: "selected only t \<longleftrightarrow> accepted ack err t"
      by (auto simp: selected_def accepted_def only_def)
    show ?thesis
      using commit_part [OF s es, of only, folded s1_def] books [of u t] p1
      by (auto simp: commits sel padd_assoc padd_psub) (auto simp: padd_def psub_def)
  qed
  then show "inv s'" and "isNumericUser u \<Longrightarrow> admissible t u \<Longrightarrow>
      padd (booked w' t u) (pend s' t u) = padd (padd (booked w t u) (pend s t u)) (events_sum act amount es s t u)"
    by auto
qed

lemma round_total:
  assumes s: "inv s" and e1: "events_ok act enabled (fst r) s"
    and e2: "events_ok act enabled (snd r) (before_flush sy (run_events act (fst r)) w s)"
    and so: "syncOnce sy (script_env act r) w s = (w', s')"
  shows "inv s'"
    and "isNumericUser u \<Longrightarrow> admissible t u \<Longrightarrow>
      padd (booked w' t u) (pend s' t u) =
      padd (padd (booked w t u) (pend s t u))
        (padd (events_sum act amount (fst r) s t u)
              (events_sum act amount (snd r) (before_flush sy (run_events act (fst r)) w s) t u))"
proof -
  define s1 where "s1 = run_events act (fst r) s"
  define s2 where "s2 = before_flush sy (run_events act (fst r)) w s"
  have i1: "inv s1" unfolding s1_def by (rule run_inv [OF s e1])
  have p1: "pend s1 t u = padd (pend s t u) (events_sum act amount (fst r) s t u)" for t u
    unfolding s1_def by (rule run_pend [OF s e1])
  obtain w2 where fl: "flush sy (run_events act (snd r)) w2 s2 = (w', s')"
    and i2: "inv s2" and p2: "\<And>t u. pend s2 t u = pend s1 t u" and b2: "\<And>t u. booked w2 t u = booked w t u"
  proof -
    obtain w1 res where f: "fetch w = (w1, res)" by (cases "fetch w")
    show ?thesis
    proof (cases res)
      case (Inl e)
      then show ?thesis using that [of w1] so f i1 fetch_books [OF f]
        by (auto simp: syncOnce_def script_env_def sy_fields s2_def before_flush_def s1_def)
    next
      case (Inr us)
      obtain w2 s2' e where c: "users us w1 s1 = (w2, s2', e)" by (metis prod_cases3)
      then show ?thesis
        using that [of w2] so f Inr users_inv [OF i1 c] users_pend [OF i1 c] users_books [OF c] fetch_books [OF f]
        by (auto simp: syncOnce_def script_env_def sy_fields s2_def before_flush_def s1_def Let_def)
    qed
  qed
  note e2' = e2 [folded s2_def]
  show "inv s'" by (rule flush_total(1) [OF i2 e2' fl])
  show "isNumericUser u \<Longrightarrow> admissible t u \<Longrightarrow> padd (booked w' t u) (pend s' t u) =
      padd (padd (booked w t u) (pend s t u))
        (padd (events_sum act amount (fst r) s t u)
              (events_sum act amount (snd r) (before_flush sy (run_events act (fst r)) w s) t u))"
    using flush_total(2) [OF i2 e2' fl, of u t] unfolding s2_def [symmetric] by (simp add: p2 b2 p1 padd_assoc)
qed

lemma rounds_total:
  "inv (snd ws) \<Longrightarrow> script_ok sy act enabled rs ws \<Longrightarrow> rounds sy (map (script_env act) rs) ws = (w', s') \<Longrightarrow>
     inv s' \<and> (isNumericUser u \<longrightarrow> admissible t u \<longrightarrow>
       padd (booked w' t u) (pend s' t u) =
       padd (padd (booked (fst ws) t u) (pend (snd ws) t u)) (script_sum sy act amount rs ws t u))"
proof (induction rs arbitrary: ws)
  case (Cons r rs)
  obtain w1 s1 where so: "syncOnce sy (script_env act r) (fst ws) (snd ws) = (w1, s1)"
    by (cases "syncOnce sy (script_env act r) (fst ws) (snd ws)")
  have e1: "events_ok act enabled (fst r) (snd ws)"
    and e2: "events_ok act enabled (snd r) (before_flush sy (run_events act (fst r)) (fst ws) (snd ws))"
    and rest: "script_ok sy act enabled rs (w1, s1)" using Cons.prems so by simp_all
  note step = round_total [OF Cons.prems(1) e1 e2 so]
  have "inv s' \<and> (isNumericUser u \<longrightarrow> admissible t u \<longrightarrow> padd (booked w' t u) (pend s' t u) =
       padd (padd (booked w1 t u) (pend s1 t u)) (script_sum sy act amount rs (w1, s1) t u))"
    using Cons.IH [of "(w1, s1)"] step(1) rest Cons.prems(3) so by simp
  then show ?case using step(2) [of u t] so by (simp add: padd_assoc)
qed simp

text \<open>After a last flush that nothing interrupts and that the panel accepts, nothing is
  left over.\<close>

lemma final_flush_settles:
  assumes "inv s" and "FinalFlush sy (\<lambda>s. s) w s = (w', s')" and "isNumericUser u"
    and "\<And>w1 ack err. push w (snapshot s) = (w1, ack, err) \<Longrightarrow> accepted ack err t"
  shows "pend s' t u = (0, 0)"
proof -
  obtain wp ack err where push: "push w (snapshot s) = (wp, ack, err)" by (metis prod_cases3)
  have acc: "accepted ack err t" by (rule assms(4) [OF push])
  show ?thesis
  proof (cases "snapshot s = [] \<or> \<not> hasTraffic (snapshot s)")
    case True
    then have "s' = s" using assms(2) by (auto simp: FinalFlush_def flush_def sy_fields)
    then show ?thesis using no_traffic_pend [OF assms(1) True assms(3)] by simp
  next
    case False
    define only where "only = (if err = None then None else Some ack)"
    have ne: "err = None \<or> ack \<noteq> []" using acc by (auto simp: accepted_def mget0_def)
    then have s': "s' = cmt (commitDelta (snapshot s) only) (run_events act [] s)"
      using assms(2) push False
      by (auto simp: FinalFlush_def flush_def sy_fields Let_def only_def split: option.splits if_splits)
    have "selected only t" using acc by (auto simp: selected_def accepted_def only_def)
    then show ?thesis
      using commit_part(2) [OF assms(1), of "[]" only t u] assms(3) by (simp add: s') (simp add: psub_def)
  qed
qed

end

end
