(* ===== verification/Hook_Ledger.thy ===== *)
theory Hook_Ledger
  imports Sync
begin

text \<open>
  The hook's registry of counters fulfils the contract of a traffic ledger: the
  interpretation of \<open>traffic_ledger\<close> on the definitions of theory Counter. The events
  are what the data path does: counting bytes on a storage some connection holds,
  and routing a new connection, which looks its counter up or creates it.
\<close>

datatype hook_event =
    Count addr int int
  | Connect string string

definition hook_act :: "hook_event \<Rightarrow> store \<times> hook_map \<Rightarrow> store \<times> hook_map" where
  "hook_act e s =
     (case e of
        Count a up down \<Rightarrow> (modify a (\<lambda>x. addDown down (addUp up x)) (fst s), snd s)
      | Connect tag user \<Rightarrow> (let (m', h', _) = hook_counter tag user (fst s) (snd s) in (m', h')))"

text \<open>Counters stay below \<open>2 ^ 63\<close> bytes.\<close>

definition hook_enabled :: "(string \<Rightarrow> string \<Rightarrow> bool) \<Rightarrow> hook_event \<Rightarrow> store \<times> hook_map \<Rightarrow> bool" where
  "hook_enabled adm e s =
     (case e of
        Count a up down \<Rightarrow> 0 \<le> up \<and> 0 \<le> down \<and> UpCounter (st_at (fst s) a) + up < 2 ^ 63 \<and>
                           DownCounter (st_at (fst s) a) + down < 2 ^ 63
      | Connect tag user \<Rightarrow> adm (tag_or_default tag) user)"

definition hook_amount :: "hook_event \<Rightarrow> store \<times> hook_map \<Rightarrow> string \<Rightarrow> string \<Rightarrow> int \<times> int" where
  "hook_amount e s t u =
     (case e of
        Count a up down \<Rightarrow> if hook_addr (snd s) t u = Some a then (up, down) else (0, 0)
      | Connect _ _ \<Rightarrow> (0, 0))"

definition hook_inv :: "(string \<Rightarrow> string \<Rightarrow> bool) \<Rightarrow> store \<times> hook_map \<Rightarrow> bool" where
  "hook_inv adm s \<longleftrightarrow> hook_ok (fst s) (snd s) \<and> (\<forall>a. storage_ok (st_at (fst s) a)) \<and>
     (\<forall>t u a. hook_addr (snd s) t u = Some a \<longrightarrow> adm t u)"

definition hook_pend :: "store \<times> hook_map \<Rightarrow> string \<Rightarrow> string \<Rightarrow> int \<times> int" where
  "hook_pend s = pending_at (fst s) (snd s)"

definition hook_snapshot :: "store \<times> hook_map \<Rightarrow> deltas" where
  "hook_snapshot s = Hook_SnapshotDelta (fst s) (snd s)"

definition hook_commit :: "deltas \<Rightarrow> store \<times> hook_map \<Rightarrow> store \<times> hook_map" where
  "hook_commit d s = (Hook_CommitSnapshot d (snd s) (fst s), snd s)"

lemma pending_nonneg_pair: "storage_ok s \<Longrightarrow> ple (0, 0) (pending s)"
  using pending_nonneg [of s] by (simp add: ple_def pending_def)

lemma hook_pend_nonneg: "hook_inv adm s \<Longrightarrow> ple (0, 0) (hook_pend s t u)"
  by (auto simp: hook_inv_def hook_pend_def pending_at_def pending_nonneg_pair split: option.splits)

lemma entry_Hook_SnapshotDelta:
  assumes "hook_ok m h" and "entry (Hook_SnapshotDelta m h) t u = Some d"
  shows "\<exists>a. hook_addr h t u = Some a \<and> d = pending (st_at m a)"
proof -
  have wh: "wf_map h" and wc: "\<And>c. mget h t = Some c \<Longrightarrow> wf_map c" using assms(1) by (auto simp: hook_ok_def)
  then obtain c where c: "mget h t = Some c" "mget (SnapshotDelta m c) u = Some d"
    using assms(2) by (auto simp: entry_def Hook_SnapshotDelta_alt split: option.splits if_splits)
  then show ?thesis
    using mget_SnapshotDelta [OF wc [OF c(1)], of m u] by (auto simp: hook_addr_def split: option.splits if_splits)
qed

lemma hook_snapshot_ok: "hook_inv adm s \<Longrightarrow> delta_ok adm (hook_snapshot s)"
proof -
  assume inv: "hook_inv adm s"
  then have ok: "hook_ok (fst s) (snd s)" by (simp add: hook_inv_def)
  have "adm t u \<and> is_int64 (fst d) \<and> is_int64 (snd d)" if e: "entry (hook_snapshot s) t u = Some d" for t u d
  proof -
    obtain a where a: "hook_addr (snd s) t u = Some a" "d = pending (st_at (fst s) a)"
      using entry_Hook_SnapshotDelta [OF ok e [unfolded hook_snapshot_def]] by blast
    then show ?thesis using inv by (auto simp: hook_inv_def pending_def pendingUp_def pendingDown_def sub64_def)
  qed
  then show ?thesis using wf_deltas_snapshot [OF ok] by (simp add: delta_ok_def hook_snapshot_def)
qed

lemma hook_snapshot_pend: "hook_inv adm s \<Longrightarrow> dget (hook_snapshot s) t u = hook_pend s t u"
  using snapshot_reports_pending [of "fst s" "snd s"] by (simp add: hook_inv_def hook_snapshot_def hook_pend_def)

lemma commit_storage:
  assumes "storage_ok s" "ple (0, 0) d" "ple d (pending s)"
  shows "storage_ok (commit d s)" "pending (commit d s) = psub (pending s) d"
proof -
  have "CommittedUp s + fst d \<le> UpCounter s" "CommittedDown s + snd d \<le> DownCounter s" "0 \<le> fst d" "0 \<le> snd d"
    using assms pending_exact [OF assms(1)] by (auto simp: ple_def pending_def)
  then show ok: "storage_ok (commit d s)"
    using assms(1) by (simp add: storage_ok_def commit_def add64_def is_int64_def)
  show "pending (commit d s) = psub (pending s) d"
    using \<open>CommittedUp s + fst d \<le> UpCounter s\<close> \<open>CommittedDown s + snd d \<le> DownCounter s\<close>
      \<open>0 \<le> fst d\<close> \<open>0 \<le> snd d\<close> assms(1) pending_exact [OF ok] pending_exact [OF assms(1)]
    by (simp add: pending_def psub_def commit_def add64_def is_int64_def storage_ok_def)
qed

lemma hook_commit_at:
  assumes inv: "hook_inv adm s" and wf: "wf_deltas d"
    and le: "\<forall>t u. ple (0, 0) (dget d t u) \<and> ple (dget d t u) (hook_pend s t u)"
  shows "storage_ok (st_at (fst (hook_commit d s)) a)"
    and "hook_addr (snd s) t u = Some a \<Longrightarrow>
           pending (st_at (fst (hook_commit d s)) a) = psub (pending (st_at (fst s) a)) (dget d t u)"
proof -
  have ok: "hook_ok (fst s) (snd s)" and st: "storage_ok (st_at (fst s) b)" for b
    using inv by (auto simp: hook_inv_def)
  have owned: "storage_ok (st_at (fst (hook_commit d s)) b) \<and>
      pending (st_at (fst (hook_commit d s)) b) = psub (pending (st_at (fst s) b)) (dget d t' u')"
    if b: "hook_addr (snd s) t' u' = Some b" for t' u' b
  proof (cases "entry d t' u'")
    case None
    then show ?thesis
      using Hook_CommitSnapshot_at(2) [OF ok wf b] st by (simp add: hook_commit_def entry_def dget_entry) (simp add: psub_def)
  next
    case (Some x)
    have "ple (0, 0) x" "ple x (pending (st_at (fst s) b))"
      using le [rule_format, of t' u'] Some b by (auto simp: dget_entry hook_pend_def pending_at_def)
    then show ?thesis
      using Hook_CommitSnapshot_at(3) [OF ok wf b, of x] Some commit_storage [OF st]
      by (simp add: hook_commit_def entry_def [symmetric] dget_entry)
  qed
  show "storage_ok (st_at (fst (hook_commit d s)) a)"
  proof (cases "\<exists>t' u'. hook_addr (snd s) t' u' = Some a")
    case False
    then show ?thesis using Hook_CommitSnapshot_unowned [of "snd s" a d "fst s"] st by (simp add: hook_commit_def)
  qed (use owned in blast)
  show "hook_addr (snd s) t u = Some a \<Longrightarrow>
      pending (st_at (fst (hook_commit d s)) a) = psub (pending (st_at (fst s) a)) (dget d t u)"
    using owned by blast
qed

lemma count_storage:
  assumes "storage_ok s" "0 \<le> up" "0 \<le> down" "UpCounter s + up < 2 ^ 63" "DownCounter s + down < 2 ^ 63"
  shows "storage_ok (addDown down (addUp up s))"
    and "pending (addDown down (addUp up s)) = padd (pending s) (up, down)"
proof -
  show ok: "storage_ok (addDown down (addUp up s))"
    using assms by (simp add: storage_ok_def addDown_def addUp_def add64_def is_int64_def)
  show "pending (addDown down (addUp up s)) = padd (pending s) (up, down)"
    using assms pending_exact [OF ok] pending_exact [OF assms(1)]
    by (simp add: pending_def padd_def addDown_def addUp_def add64_def is_int64_def storage_ok_def)
qed

lemma hook_connect:
  assumes inv: "hook_inv adm (m, h)" and adm: "adm (tag_or_default tag) user"
    and eq: "hook_counter tag user m h = (m', h', a)"
  shows "hook_inv adm (m', h')" and "pending_at m' h' t u = pending_at m h t u"
proof -
  have ok: "hook_ok m h" and st: "\<And>b. storage_ok (st_at m b)" using inv by (auto simp: hook_inv_def)
  note spec = hook_counter_spec [OF ok eq]
  have at: "st_at m' b = (if hook_addr h (tag_or_default tag) user = None \<and> b = st_next m then new_storage else st_at m b)" for b
    using spec(3) by (auto simp: alloc_def)
  show "hook_inv adm (m', h')"
    using spec(1,2) st at adm inv by (auto simp: hook_inv_def)
  have fresh: "hook_addr h t u = Some b \<Longrightarrow> b < st_next m" for b
    using ok unfolding hook_ok_def by blast
  have new0: "pending new_storage = (0, 0)"
    by (simp add: pending_def pendingUp_def pendingDown_def new_storage_def sub64_def is_int64_def)
  show "pending_at m' h' t u = pending_at m h t u"
    using spec(2,3) at fresh new0 by (auto simp: pending_at_def split: option.splits)
qed

lemma hook_act_ok:
  assumes inv: "hook_inv adm s" and en: "hook_enabled adm e s"
  shows "hook_inv adm (hook_act e s) \<and>
         hook_pend (hook_act e s) t u = padd (hook_pend s t u) (hook_amount e s t u)"
proof (cases e)
  case (Count a up down)
  have st: "storage_ok (st_at (fst s) b)" for b using inv by (simp add: hook_inv_def)
  have hk: "hook_ok (fst (hook_act e s)) (snd (hook_act e s))"
    using inv hook_ok_store [of "fst (hook_act e s)" "fst s" "snd s"] by (simp add: Count hook_act_def hook_inv_def)
  have "hook_inv adm (hook_act e s)"
    using inv hk en count_storage(1) [OF st [of a], of up down]
    by (auto simp: hook_inv_def hook_act_def hook_enabled_def Count)
  moreover have "hook_pend (hook_act e s) t u = padd (hook_pend s t u) (hook_amount e s t u)"
    using en count_storage(2) [OF st [of a], of up down]
    by (auto simp: hook_pend_def pending_at_def hook_act_def hook_amount_def hook_enabled_def Count split: option.splits)
  ultimately show ?thesis ..
next
  case (Connect tag user)
  obtain m' h' a where eq: "hook_counter tag user (fst s) (snd s) = (m', h', a)" by (metis prod_cases3)
  have "hook_inv adm (fst s, snd s)" "adm (tag_or_default tag) user"
    using inv en by (simp_all add: Connect hook_enabled_def)
  note c = hook_connect [OF this eq]
  show ?thesis using c eq by (simp add: hook_act_def hook_amount_def hook_pend_def Connect)
qed

interpretation hook: traffic_ledger "hook_inv adm" hook_pend hook_snapshot hook_commit hook_act
    "hook_enabled adm" hook_amount adm
  for adm :: "string \<Rightarrow> string \<Rightarrow> bool"
proof unfold_locales
  fix s :: "store \<times> hook_map" and t u e d
  assume inv: "hook_inv adm s"
  show "ple (0, 0) (hook_pend s t u)" by (rule hook_pend_nonneg [OF inv])
  show "delta_ok adm (hook_snapshot s)" by (rule hook_snapshot_ok [OF inv])
  show "dget (hook_snapshot s) t u = hook_pend s t u" by (rule hook_snapshot_pend [OF inv])
  show "hook_inv adm (hook_act e s)" if "hook_enabled adm e s" by (rule hook_act_ok [OF inv that, THEN conjunct1])
  show "hook_pend (hook_act e s) t u = padd (hook_pend s t u) (hook_amount e s t u)" if "hook_enabled adm e s"
    by (rule hook_act_ok [OF inv that, THEN conjunct2])
  show "ple (0, 0) (hook_amount e s t u)" if "hook_enabled adm e s"
    using that by (auto simp: hook_enabled_def hook_amount_def ple_def split: hook_event.splits)
  assume wf: "wf_deltas d" and le: "\<forall>t u. ple (0, 0) (dget d t u) \<and> ple (dget d t u) (hook_pend s t u)"
  note at = hook_commit_at [OF inv wf le]
  show "hook_inv adm (hook_commit d s)"
    using inv at(1) by (simp add: hook_inv_def hook_ok_commit hook_commit_def)
  have zero: "hook_addr (snd s) t u = None \<Longrightarrow> dget d t u = (0, 0)"
    using le [rule_format, of t u] by (auto simp: hook_pend_def pending_at_def ple_def prod_eq_iff)
  show "hook_pend (hook_commit d s) t u = psub (hook_pend s t u) (dget d t u)"
    using at(2) [of t u] zero
    by (cases "hook_addr (snd s) t u") (simp_all add: hook_pend_def pending_at_def hook_commit_def psub_def)
qed

end
