(* ===== verification/Inbound_Users.thy ===== *)
theory Inbound_Users
  imports Topology
begin

text \<open>
  User handling of the two inbound protocols in the sing-box fork
  (\<^verbatim>\<open>protocol/vless/vless_user.go\<close>, \<^verbatim>\<open>protocol/hysteria2/hysteria2_user.go\<close> and the
  connection handlers of the two \<^verbatim>\<open>inbound.go\<close> files) and the agent's functions that
  apply a list of panel users to an inbound (\<^verbatim>\<open>user_delta.go\<close>,
  \<^verbatim>\<open>user_apply_vless_enabled.go\<close>, \<^verbatim>\<open>user_apply_hy2_enabled.go\<close>). The protocol
  services are outside the repository: an inbound keeps the table it last gave to
  \<open>UpdateUsers\<close>. Connections are numbers; a closed connection is recorded.

  The lemmas say that after users were applied the table has exactly the credentials
  of the list, that unchanged credentials leave the inbound alone, and that the two
  maps of the Hysteria2 inbound stay inverse to each other.
\<close>

type_synonym conn = nat

section \<open>VLESS\<close>

record VLESSUser =
  vu_Name :: string
  vu_UUID :: string
  vu_Flow :: string

record vless_inbound =
  vi_users :: "VLESSUser list"
  vi_service :: "(nat \<times> string \<times> string) list" \<comment> \<open>index, UUID and flow, as last given to the service\<close>
  vi_userconns :: "(conn, string) gomap"
  vi_closed :: "conn list"

definition vless_UpdateUsers :: "vless_inbound \<Rightarrow> vless_inbound" where
  "vless_UpdateUsers h =
     h\<lparr>vi_service := map (\<lambda>(i, u). (i, vu_UUID u, vu_Flow u)) (enumerate 0 (vi_users h))\<rparr>"

definition vless_AddUsers :: "VLESSUser list \<Rightarrow> vless_inbound \<Rightarrow> vless_inbound" where
  "vless_AddUsers users h = vless_UpdateUsers (h\<lparr>vi_users := vi_users h @ users\<rparr>)"

text \<open>Closing and forgetting the connections recorded under a name.\<close>

definition close_conns :: "string \<Rightarrow> (conn, string) gomap \<Rightarrow> (conn, string) gomap \<times> conn list" where
  "close_conns name conns =
     (filter (\<lambda>(_, v). v \<noteq> name) conns, map fst (filter (\<lambda>(_, v). v = name) conns))"

definition vless_close :: "string \<Rightarrow> vless_inbound \<Rightarrow> vless_inbound" where
  "vless_close name h =
     (let (kept, closed) = close_conns name (vi_userconns h)
      in h\<lparr>vi_userconns := kept, vi_closed := vi_closed h @ closed\<rparr>)"

definition vless_DelUsers :: "string list \<Rightarrow> vless_inbound \<Rightarrow> vless_inbound" where
  "vless_DelUsers names h =
     (let h1 = fold vless_close names h
      in vless_UpdateUsers (h1\<lparr>vi_users := filter (\<lambda>u. vu_Name u \<notin> set names) (vi_users h1)\<rparr>))"

text \<open>A new transport connection is recorded under the user of its metadata as it is before
  the protocol has authenticated anyone. \<open>vless_newConnectionEx\<close> is the callback after
  that: it gives the user name the router sees, and panics on an index that is not there.\<close>

definition vless_NewConnectionEx :: "conn \<Rightarrow> string \<Rightarrow> vless_inbound \<Rightarrow> vless_inbound" where
  "vless_NewConnectionEx c metadata_User h = h\<lparr>vi_userconns := mput c metadata_User (vi_userconns h)\<rparr>"

definition vless_onClose :: "conn \<Rightarrow> vless_inbound \<Rightarrow> vless_inbound" where
  "vless_onClose c h = h\<lparr>vi_userconns := mdel c (vi_userconns h)\<rparr>"

datatype routed = Refused | IndexPanic | Routed string

definition vless_newConnectionEx :: "nat option \<Rightarrow> string \<Rightarrow> vless_inbound \<Rightarrow> routed" where
  "vless_newConnectionEx userIndex metadata_User h =
     (case userIndex of
        None \<Rightarrow> Refused
      | Some i \<Rightarrow>
          if i < length (vi_users h) then
            (let user = vu_Name (vi_users h ! i) in Routed (if user = [] then metadata_User else user))
          else IndexPanic)"

section \<open>Hysteria2\<close>

record Hysteria2User =
  hu_Name :: string
  hu_Password :: string

record hy2_inbound =
  hi_userNameList :: "string list"
  hi_uidToUuid :: "(int, string) gomap"
  hi_uuidToUid :: "(string, int) gomap"
  hi_service :: "(int \<times> string) list" \<comment> \<open>user number and password, as last given to the service\<close>
  hi_userconns :: "(conn, string) gomap"
  hi_closed :: "conn list"

definition hy2_UpdateUsers :: "hy2_inbound \<Rightarrow> hy2_inbound" where
  "hy2_UpdateUsers h =
     h\<lparr>hi_service := map (\<lambda>uuid. (mget0 0 (hi_uuidToUid h) uuid, uuid)) (hi_userNameList h)\<rparr>"

definition hy2_add :: "string \<times> int \<Rightarrow> hy2_inbound \<Rightarrow> hy2_inbound" where
  "hy2_add p h =
     h\<lparr>hi_userNameList := hi_userNameList h @ [fst p], hi_uuidToUid := mput (fst p) (snd p) (hi_uuidToUid h),
       hi_uidToUuid := mput (snd p) (fst p) (hi_uidToUuid h)\<rparr>"

text \<open>The numbers of the users come in a list of their own, of the same length.\<close>

definition hy2_AddUsers :: "Hysteria2User list \<Rightarrow> int list \<Rightarrow> hy2_inbound \<Rightarrow> hy2_inbound" where
  "hy2_AddUsers users ids h = hy2_UpdateUsers (fold hy2_add (zip (map hu_Password users) ids) h)"

definition hy2_del :: "string \<Rightarrow> hy2_inbound \<Rightarrow> hy2_inbound" where
  "hy2_del name h =
     (let (kept, closed) = close_conns name (hi_userconns h)
      in h\<lparr>hi_uidToUuid := mdel (mget0 0 (hi_uuidToUid h) name) (hi_uidToUuid h),
           hi_uuidToUid := mdel name (hi_uuidToUid h),
           hi_userconns := kept, hi_closed := hi_closed h @ closed\<rparr>)"

definition hy2_DelUsers :: "string list \<Rightarrow> hy2_inbound \<Rightarrow> hy2_inbound" where
  "hy2_DelUsers names h =
     (if names = [] then h
      else let h1 = fold hy2_del names h
           in hy2_UpdateUsers (h1\<lparr>hi_userNameList := filter (\<lambda>u. u \<notin> set names) (hi_userNameList h1)\<rparr>))"

text \<open>A new stream of an authenticated session: the inbound, and the user name the router
  sees, or \<open>None\<close> when the connection is refused and closed.\<close>

definition hy2_NewConnectionEx :: "conn \<Rightarrow> int \<Rightarrow> hy2_inbound \<Rightarrow> hy2_inbound \<times> string option" where
  "hy2_NewConnectionEx c userID h =
     (case mget (hi_uidToUuid h) userID of
        Some userName \<Rightarrow>
          if userName \<noteq> [] then
            (h\<lparr>hi_userconns := (if mhas (hi_userconns h) c then hi_userconns h else mput c userName (hi_userconns h))\<rparr>,
             Some userName)
          else (h, Some [])
      | None \<Rightarrow> (h\<lparr>hi_closed := hi_closed h @ [c]\<rparr>, None))"

definition hy2_onClose :: "conn \<Rightarrow> hy2_inbound \<Rightarrow> hy2_inbound" where
  "hy2_onClose c h = h\<lparr>hi_userconns := mdel c (hi_userconns h)\<rparr>"

definition hy2_NewPacketConnectionEx :: "conn \<Rightarrow> int \<Rightarrow> hy2_inbound \<Rightarrow> hy2_inbound \<times> string option" where
  "hy2_NewPacketConnectionEx c userID h =
     (case mget (hi_uidToUuid h) userID of
        Some userName \<Rightarrow> (h, Some userName)
      | None \<Rightarrow> (h\<lparr>hi_closed := hi_closed h @ [c]\<rparr>, None))"

section \<open>Applying panel users\<close>

definition same_auth :: "User \<Rightarrow> User \<Rightarrow> bool" where
  "same_auth a b \<longleftrightarrow> u_UUID a = u_UUID b \<and> u_Password a = u_Password b \<and> u_Name a = u_Name b"

definition changed :: "(int, User) gomap \<Rightarrow> int \<Rightarrow> User \<Rightarrow> bool" where
  "changed m i u = (case mget m i of None \<Rightarrow> True | Some v \<Rightarrow> \<not> same_auth v u)"

definition usersByID :: "User list \<Rightarrow> (int, User) gomap" where
  "usersByID users = fold (\<lambda>u m. if u_ID u > 0 then mput (u_ID u) u m else m) users []"

definition userChanges :: "(int, User) gomap \<Rightarrow> User list \<Rightarrow> User list \<times> User list" where
  "userChanges old next =
     (let nextByID = usersByID next in
      (map snd (filter (\<lambda>(i, u). changed nextByID i u) old),
       map snd (filter (\<lambda>(_, u). changed old (u_ID u) u) nextByID)))"

definition vlessUserFromPanelUser :: "User \<Rightarrow> VLESSUser" where
  "vlessUserFromPanelUser u = \<lparr>vu_Name = u_UUID u, vu_UUID = u_UUID u, vu_Flow = ''xtls-rprx-vision''\<rparr>"

definition hy2UserFromPanelUser :: "User \<Rightarrow> Hysteria2User" where
  "hy2UserFromPanelUser u =
     \<lparr>hu_Name = (if u_Name u = [] then u_Password u else u_Name u), hu_Password = u_Password u\<rparr>"

datatype inbound = VLESS_in vless_inbound | HY2_in hy2_inbound | Other_in

text \<open>The result says whether the inbound was of the right kind; the inbounds' methods never
  fail.\<close>

definition applyVLESSUsers :: "inbound \<Rightarrow> User list \<Rightarrow> (int, User) gomap \<Rightarrow> inbound \<times> bool" where
  "applyVLESSUsers raw users old =
     (case raw of
        VLESS_in h \<Rightarrow>
          (let (removed, added) = userChanges old users;
               remove = filter (\<lambda>s. s \<noteq> []) (map u_UUID removed);
               h1 = (if remove \<noteq> [] then vless_DelUsers remove h else h);
               desired = map vlessUserFromPanelUser (filter (\<lambda>u. u_UUID u \<noteq> []) added);
               h2 = (if desired \<noteq> [] then vless_AddUsers desired h1 else h1)
           in (VLESS_in h2, True))
      | _ \<Rightarrow> (raw, False))"

definition applyHysteria2Users :: "inbound \<Rightarrow> User list \<Rightarrow> (int, User) gomap \<Rightarrow> inbound \<times> bool" where
  "applyHysteria2Users raw users old =
     (case raw of
        HY2_in h \<Rightarrow>
          (let (removed, added) = userChanges old users;
               remove = filter (\<lambda>s. s \<noteq> []) (map u_Password removed);
               h1 = (if remove \<noteq> [] then hy2_DelUsers remove h else h);
               valid = filter (\<lambda>u. u_Password u \<noteq> []) added;
               desired = map hy2UserFromPanelUser valid;
               desiredIDs = map u_ID valid;
               h2 = (if desired \<noteq> [] then hy2_AddUsers desired desiredIDs h1 else h1)
           in (HY2_in h2, True))
      | _ \<Rightarrow> (raw, False))"

section \<open>User maps\<close>

definition keyed :: "(int, User) gomap \<Rightarrow> bool" where
  "keyed m \<longleftrightarrow> wf_map m \<and> (\<forall>i u. mget m i = Some u \<longrightarrow> u_ID u = i \<and> 0 < i)"

lemma usersByID_fold:
  assumes "keyed m"
  shows "keyed (fold (\<lambda>u m. if u_ID u > 0 then mput (u_ID u) u m else m) us m)"
  using assms
proof (induction us arbitrary: m)
  case (Cons u us)
  have "keyed (if u_ID u > 0 then mput (u_ID u) u m else m)"
    using Cons.prems by (auto simp: keyed_def)
  then show ?case using Cons.IH by simp
qed simp

lemma keyed_usersByID [go_inv]: "keyed (usersByID us)"
  unfolding usersByID_def by (rule usersByID_fold) (simp add: keyed_def)

lemma usersByID_in:
  "mget (usersByID us) i = Some u \<Longrightarrow> u \<in> set us"
proof -
  have "mget (fold (\<lambda>u m. if u_ID u > 0 then mput (u_ID u) u m else m) us m) i = Some u \<Longrightarrow>
      u \<in> set us \<or> mget m i = Some u" for m
    by (induction us arbitrary: m) (fastforce split: if_splits)+
  then show "mget (usersByID us) i = Some u \<Longrightarrow> u \<in> set us" by (fastforce simp: usersByID_def)
qed

text \<open>The credentials of a user map: number and secret, for the users that have one.\<close>

definition creds :: "(User \<Rightarrow> string) \<Rightarrow> (int, User) gomap \<Rightarrow> (int \<times> string) set" where
  "creds sel m = {(i, sel u) | i u. mget m i = Some u \<and> sel u \<noteq> []}"

definition unshared :: "(User \<Rightarrow> string) \<Rightarrow> (int, User) gomap \<Rightarrow> bool" where
  "unshared sel m \<longleftrightarrow> (\<forall>i j x. (i, x) \<in> creds sel m \<longrightarrow> (j, x) \<in> creds sel m \<longrightarrow> i = j)"

definition auth_field :: "(User \<Rightarrow> string) \<Rightarrow> bool" where
  "auth_field sel \<longleftrightarrow> (\<forall>a b. same_auth a b \<longrightarrow> sel a = sel b)"

lemma auth_fields [simp]: "auth_field u_UUID" "auth_field u_Password" "auth_field u_Name"
  by (auto simp: auth_field_def same_auth_def)

lemma same_auth_sym: "same_auth a b \<Longrightarrow> same_auth b a"
  by (simp add: same_auth_def)

lemma set_removed:
  assumes "wf_map old"
  shows "u \<in> set (fst (userChanges old us)) \<longleftrightarrow> (\<exists>i. mget old i = Some u \<and> changed (usersByID us) i u)"
  using assms by (auto simp: userChanges_def Let_def mget_in_set image_iff)

lemma set_added:
  "u \<in> set (snd (userChanges old us)) \<longleftrightarrow> (\<exists>i. mget (usersByID us) i = Some u \<and> changed old i u)"
  using keyed_usersByID [of us] by (auto simp: userChanges_def Let_def mget_in_set image_iff keyed_def)

text \<open>Removing the secrets of the removed users and adding those of the added ones turns the
  credentials of the old map into those of the new one.\<close>

lemma creds_update:
  fixes us :: "User list" and sel :: "User \<Rightarrow> string"
  assumes "keyed old" "unshared sel old" "auth_field sel"
  defines "R \<equiv> sel ` set (fst (userChanges old us)) - {[]}"
    and "A \<equiv> {(u_ID u, sel u) | u. u \<in> set (snd (userChanges old us)) \<and> sel u \<noteq> []}"
  shows "creds sel (usersByID us) = {p \<in> creds sel old. snd p \<notin> R} \<union> A"
proof -
  have wf: "wf_map old" using assms(1) by (simp add: keyed_def)
  have kn: "keyed (usersByID us)" by (rule keyed_usersByID)
  have sel: "same_auth a b \<Longrightarrow> sel a = sel b" for a b using assms(3) by (simp add: auth_field_def)
  show ?thesis
  proof (rule set_eqI, rule iffI)
    fix p
    assume "p \<in> creds sel (usersByID us)"
    then obtain i v where v: "p = (i, sel v)" "mget (usersByID us) i = Some v" "sel v \<noteq> []"
      by (auto simp: creds_def)
    show "p \<in> {p \<in> creds sel old. snd p \<notin> R} \<union> A"
    proof (cases "changed old i v")
      case True
      then have "v \<in> set (snd (userChanges old us))" using set_added v(2) by blast
      moreover have "u_ID v = i" using kn v(2) by (simp add: keyed_def)
      ultimately show ?thesis using v by (auto simp: A_def)
    next
      case False
      then obtain u where u: "mget old i = Some u" "same_auth u v"
        by (auto simp: changed_def split: option.splits)
      have p: "p = (i, sel u)" using v sel [OF u(2)] by simp
      have mem: "(i, sel u) \<in> creds sel old" using u(1) v(3) sel [OF u(2)] by (auto simp: creds_def)
      have "sel u \<notin> R"
      proof
        assume "sel u \<in> R"
        then obtain w j where w: "mget old j = Some w" "changed (usersByID us) j w" "sel w = sel u"
          using set_removed [OF wf] by (auto simp: R_def)
        have "(j, sel u) \<in> creds sel old" using w v(3) sel [OF u(2)] by (auto simp: creds_def)
        then have "j = i" using assms(2) mem unfolding unshared_def by blast
        then show False using w u v(2) by (simp add: changed_def same_auth_def)
      qed
      then show ?thesis using mem p by simp
    qed
  next
    fix p
    assume "p \<in> {p \<in> creds sel old. snd p \<notin> R} \<union> A"
    then consider (old) i u where "p = (i, sel u)" "mget old i = Some u" "sel u \<noteq> []" "sel u \<notin> R"
      | (new) u where "p = (u_ID u, sel u)" "u \<in> set (snd (userChanges old us))" "sel u \<noteq> []"
      by (auto simp: creds_def A_def)
    then show "p \<in> creds sel (usersByID us)"
    proof cases
      case old
      then have "\<not> changed (usersByID us) i u" using set_removed [OF wf] by (auto simp: R_def)
      then obtain v where "mget (usersByID us) i = Some v" "same_auth v u"
        by (auto simp: changed_def split: option.splits)
      then show ?thesis using old sel [of v u] by (auto simp: creds_def)
    next
      case new
      then obtain i where "mget (usersByID us) i = Some u" using set_added by blast
      then show ?thesis using new kn by (auto simp: creds_def keyed_def)
    qed
  qed
qed

section \<open>The VLESS inbound holds exactly the credentials of its user map\<close>

definition vless_ok :: "(int, User) gomap \<Rightarrow> vless_inbound \<Rightarrow> bool" where
  "vless_ok m h \<longleftrightarrow>
     vu_UUID ` set (vi_users h) = snd ` creds u_UUID m \<and>
     (\<forall>u \<in> set (vi_users h). vu_Name u = vu_UUID u) \<and>
     vi_service h = map (\<lambda>(i, u). (i, vu_UUID u, vu_Flow u)) (enumerate 0 (vi_users h))"

lemma vless_users_DelUsers:
  "vi_users (vless_DelUsers names h) = filter (\<lambda>u. vu_Name u \<notin> set names) (vi_users h)"
proof -
  have "vi_users (fold vless_close names h) = vi_users h"
    by (induction names arbitrary: h) (simp_all add: vless_close_def close_conns_def)
  then show ?thesis by (simp add: vless_DelUsers_def vless_UpdateUsers_def Let_def)
qed

lemma vless_service_update [simp]:
  "vi_service (vless_DelUsers names h) =
     map (\<lambda>(i, u). (i, vu_UUID u, vu_Flow u)) (enumerate 0 (vi_users (vless_DelUsers names h)))"
  "vi_service (vless_AddUsers us h) =
     map (\<lambda>(i, u). (i, vu_UUID u, vu_Flow u)) (enumerate 0 (vi_users (vless_AddUsers us h)))"
  by (simp_all add: vless_DelUsers_def vless_AddUsers_def vless_UpdateUsers_def Let_def)

lemma vless_users_AddUsers [simp]: "vi_users (vless_AddUsers us h) = vi_users h @ us"
  by (simp add: vless_AddUsers_def vless_UpdateUsers_def)

lemma applyVLESSUsers_ok:
  assumes ok: "vless_ok old h" and k: "keyed old" and un: "unshared u_UUID old"
  shows "\<exists>h'. applyVLESSUsers (VLESS_in h) us old = (VLESS_in h', True) \<and> vless_ok (usersByID us) h'"
proof -
  define remove where "remove = filter (\<lambda>s. s \<noteq> []) (map u_UUID (fst (userChanges old us)))"
  define desired where "desired =
    map vlessUserFromPanelUser (filter (\<lambda>u. u_UUID u \<noteq> []) (snd (userChanges old us)))"
  define h1 where "h1 = (if remove \<noteq> [] then vless_DelUsers remove h else h)"
  define h2 where "h2 = (if desired \<noteq> [] then vless_AddUsers desired h1 else h1)"
  have app: "applyVLESSUsers (VLESS_in h) us old = (VLESS_in h2, True)"
    by (simp add: applyVLESSUsers_def h2_def h1_def remove_def desired_def Let_def split_beta)
  have u1: "vi_users h1 = filter (\<lambda>u. vu_Name u \<notin> set remove) (vi_users h)"
    by (simp add: h1_def vless_users_DelUsers)
  have u2: "vi_users h2 = vi_users h1 @ desired" by (simp add: h2_def)
  have names: "\<forall>u \<in> set (vi_users h2). vu_Name u = vu_UUID u"
    using ok by (auto simp: u2 u1 desired_def vlessUserFromPanelUser_def vless_ok_def)
  have serv: "vi_service h2 = map (\<lambda>(i, u). (i, vu_UUID u, vu_Flow u)) (enumerate 0 (vi_users h2))"
    using ok by (auto simp: h2_def h1_def vless_ok_def)
  have R: "u_UUID ` set (fst (userChanges old us)) - {[]} = set remove"
    by (auto simp: remove_def)
  have A: "vu_UUID ` set desired = snd ` {(u_ID u, u_UUID u) | u. u \<in> set (snd (userChanges old us)) \<and> u_UUID u \<noteq> []}"
    by (force simp: desired_def vlessUserFromPanelUser_def image_iff)
  have nm: "\<And>u. u \<in> set (vi_users h) \<Longrightarrow> vu_Name u = vu_UUID u" using ok by (simp add: vless_ok_def)
  have im: "vu_UUID ` set (vi_users h) = snd ` creds u_UUID old" using ok by (simp add: vless_ok_def)
  have "vu_UUID ` set (vi_users h1) = vu_UUID ` set (vi_users h) - set remove"
    using nm by (auto simp: u1)
  also have "\<dots> = snd ` {p \<in> creds u_UUID old. snd p \<notin> set remove}"
    unfolding im by auto
  finally have "vu_UUID ` set (vi_users h2) = snd ` creds u_UUID (usersByID us)"
    by (simp add: creds_update [OF k un auth_fields(1)] R u2 image_Un A)
  then show ?thesis using app names serv by (auto simp: vless_ok_def)
qed

section \<open>The Hysteria2 inbound likewise, with inverse maps\<close>

definition hy2_maps :: "hy2_inbound \<Rightarrow> (int \<times> string) set \<Rightarrow> bool" where
  "hy2_maps h C \<longleftrightarrow>
     (\<forall>i x. mget (hi_uidToUuid h) i = Some x \<longleftrightarrow> (i, x) \<in> C) \<and>
     (\<forall>i x. mget (hi_uuidToUid h) x = Some i \<longleftrightarrow> (i, x) \<in> C) \<and> (\<forall>i x. (i, x) \<in> C \<longrightarrow> 0 < i)"

definition hy2_ok :: "(int, User) gomap \<Rightarrow> hy2_inbound \<Rightarrow> bool" where
  "hy2_ok m h \<longleftrightarrow>
     set (hi_userNameList h) = snd ` creds u_Password m \<and> hy2_maps h (creds u_Password m) \<and>
     hi_service h = map (\<lambda>uuid. (mget0 0 (hi_uuidToUid h) uuid, uuid)) (hi_userNameList h)"

lemma hy2_maps_functional:
  "hy2_maps h C \<Longrightarrow> (i, x) \<in> C \<Longrightarrow> (i, y) \<in> C \<Longrightarrow> x = y"
  "hy2_maps h C \<Longrightarrow> (i, x) \<in> C \<Longrightarrow> (j, x) \<in> C \<Longrightarrow> i = j"
  unfolding hy2_maps_def by (metis option.inject)+

lemma hy2_del_maps:
  assumes "hy2_maps h C"
  shows "hy2_maps (hy2_del x h) {p \<in> C. snd p \<noteq> x}"
proof -
  define j where "j = mget0 0 (hi_uuidToUid h) x"
  have j: "i \<noteq> j \<longleftrightarrow> y \<noteq> x" if "(i, y) \<in> C" for i y
  proof (cases "mget (hi_uuidToUid h) x")
    case None
    then have "(i, x) \<notin> C" using assms unfolding hy2_maps_def by (metis option.distinct(1))
    moreover have "0 < i" using assms that unfolding hy2_maps_def by blast
    moreover have "j = 0" using None by (simp add: j_def mget0_def)
    ultimately show ?thesis using that by auto
  next
    case (Some k)
    then have k: "(k, x) \<in> C" using assms unfolding hy2_maps_def by blast
    have "j = k" using Some by (simp add: j_def mget0_def)
    then show ?thesis using hy2_maps_functional [OF assms] that k by metis
  qed
  have m: "hi_uidToUuid (hy2_del x h) = mdel j (hi_uidToUuid h)"
    "hi_uuidToUid (hy2_del x h) = mdel x (hi_uuidToUid h)"
    by (simp_all add: hy2_del_def close_conns_def j_def)
  have "mget (mdel j (hi_uidToUuid h)) i = Some y \<longleftrightarrow> (i, y) \<in> {p \<in> C. snd p \<noteq> x}"
    "mget (mdel x (hi_uuidToUid h)) y = Some i \<longleftrightarrow> (i, y) \<in> {p \<in> C. snd p \<noteq> x}" for i y
    using assms j [of i y] by (auto simp: hy2_maps_def)
  moreover have "(i, y) \<in> C \<Longrightarrow> 0 < i" for i y using assms unfolding hy2_maps_def by blast
  ultimately show ?thesis unfolding hy2_maps_def m by blast
qed

lemma hy2_dels:
  "hy2_maps h C \<Longrightarrow> hy2_maps (fold hy2_del xs h) {p \<in> C. snd p \<notin> set xs}"
proof (induction xs arbitrary: h C)
  case (Cons x xs)
  have "{p \<in> {p \<in> C. snd p \<noteq> x}. snd p \<notin> set xs} = {p \<in> C. snd p \<notin> set (x # xs)}" by auto
  then show ?case using Cons.IH [OF hy2_del_maps [OF Cons.prems, of x]] by simp
qed simp

lemma hy2_names_dels [simp]: "hi_userNameList (fold hy2_del xs h) = hi_userNameList h"
  by (induction xs arbitrary: h) (simp_all add: hy2_del_def close_conns_def)

lemma hy2_add_maps:
  assumes "hy2_maps h C" "\<forall>p \<in> C. fst p \<noteq> i \<and> snd p \<noteq> x" "0 < i"
  shows "hy2_maps (hy2_add (x, i) h) (insert (i, x) C)"
proof -
  have n: "(i, y) \<notin> C" "(j, x) \<notin> C" for j y using assms(2) by force+
  have m: "hi_uidToUuid (hy2_add (x, i) h) = mput i x (hi_uidToUuid h)"
    "hi_uuidToUid (hy2_add (x, i) h) = mput x i (hi_uuidToUid h)"
    by (simp_all add: hy2_add_def)
  have C: "mget (hi_uidToUuid h) j = Some y \<longleftrightarrow> (j, y) \<in> C" "mget (hi_uuidToUid h) y = Some j \<longleftrightarrow> (j, y) \<in> C"
    "(j, y) \<in> C \<Longrightarrow> 0 < j" for j y
    using assms(1) unfolding hy2_maps_def by blast+
  show ?thesis
    unfolding hy2_maps_def m using C n assms(3) by (simp split: if_split) metis
qed

lemma hy2_names_add [simp]: "hi_userNameList (hy2_add p h) = hi_userNameList h @ [fst p]"
  by (simp add: hy2_add_def)

lemma hy2_adds:
  assumes "hy2_maps h C" "distinct (map fst ps)" "distinct (map snd ps)"
    and "\<forall>p \<in> C. fst p \<notin> set (map snd ps) \<and> snd p \<notin> set (map fst ps)" "\<forall>p \<in> set ps. 0 < snd p"
  shows "hy2_maps (fold hy2_add ps h) (C \<union> {(i, x). (x, i) \<in> set ps}) \<and>
         hi_userNameList (fold hy2_add ps h) = hi_userNameList h @ map fst ps"
  using assms
proof (induction ps arbitrary: h C)
  case (Cons p ps)
  obtain x i where p: "p = (x, i)" by (cases p)
  have m: "hy2_maps (hy2_add p h) (insert (i, x) C)"
    unfolding p by (rule hy2_add_maps) (use Cons.prems p in auto)
  have "hy2_maps (fold hy2_add ps (hy2_add p h)) (insert (i, x) C \<union> {(i, x). (x, i) \<in> set ps}) \<and>
     hi_userNameList (fold hy2_add ps (hy2_add p h)) = hi_userNameList (hy2_add p h) @ map fst ps"
    by (rule Cons.IH [OF m]) (use Cons.prems p in auto)
  moreover have "insert (i, x) C \<union> {(i, x). (x, i) \<in> set ps} = C \<union> {(i, x). (x, i) \<in> set (p # ps)}"
    by (auto simp: p)
  ultimately show ?case by (simp only: fold_simps o_apply hy2_names_add list.map) simp
qed simp

lemma distinct_IDs_added: "distinct (map u_ID (snd (userChanges old us)))"
proof -
  define ps where "ps = filter (\<lambda>(_, u). changed old (u_ID u) u) (usersByID us)"
  have k: "keyed (usersByID us)" by (rule keyed_usersByID)
  then have "map (\<lambda>p. u_ID (snd p)) ps = map fst ps"
    by (auto simp: keyed_def mget_in_set ps_def)
  moreover have "distinct (map fst ps)"
    using k by (simp add: keyed_def distinct_map_filter ps_def)
  ultimately have "distinct (map (\<lambda>p. u_ID (snd p)) ps)" by (simp only:)
  then show ?thesis by (simp add: userChanges_def Let_def comp_def ps_def [symmetric])
qed

lemma distinct_secrets:
  assumes "distinct (map u_ID us)" "\<forall>u \<in> set us. \<forall>v \<in> set us. sel u = sel v \<longrightarrow> u_ID u = u_ID v"
  shows "distinct (map sel us)"
  using assms unfolding distinct_map inj_on_def by blast

lemma creds_in_new:
  assumes "u \<in> set (snd (userChanges old us))" "sel u \<noteq> []"
  shows "(u_ID u, sel u) \<in> creds sel (usersByID us)"
proof -
  obtain i where "mget (usersByID us) i = Some u" using assms(1) set_added by blast
  then show ?thesis using assms(2) keyed_usersByID [of us] by (auto simp: creds_def keyed_def)
qed

text \<open>What is added is new for the two maps once the removals are done.\<close>

lemma added_fresh:
  assumes k: "keyed old" and un: "unshared sel old" and un': "unshared sel (usersByID us)" and af: "auth_field sel"
    and u: "u \<in> set (snd (userChanges old us))" "sel u \<noteq> []"
    and p: "p \<in> creds sel old" "snd p \<notin> sel ` set (fst (userChanges old us)) - {[]}"
  shows "fst p \<noteq> u_ID u \<and> snd p \<noteq> sel u"
proof -
  obtain i w where w: "p = (i, sel w)" "mget old i = Some w" "sel w \<noteq> []" using p(1) by (auto simp: creds_def)
  have wf: "wf_map old" using k by (simp add: keyed_def)
  have un_ch: "\<not> changed (usersByID us) i w"
    using p(2) w set_removed [OF wf] by auto
  obtain j where j: "mget (usersByID us) j = Some u" "changed old j u" using u(1) set_added by blast
  have uj: "u_ID u = j" using j keyed_usersByID [of us] by (simp add: keyed_def)
  have new: "p \<in> creds sel (usersByID us)"
    using creds_update [OF k un af, of us] p by auto
  have "i \<noteq> j"
    using un_ch j w(2) by (auto simp: changed_def same_auth_def split: option.splits)
  moreover have "sel w \<noteq> sel u"
    using creds_in_new [where sel = sel, OF u] new w un' \<open>i \<noteq> j\<close> uj unfolding unshared_def by metis
  ultimately show ?thesis using w uj by simp
qed

lemma applyHysteria2Users_ok:
  assumes ok: "hy2_ok old h" and k: "keyed old" and un: "unshared u_Password old"
    and un': "unshared u_Password (usersByID us)"
  shows "\<exists>h'. applyHysteria2Users (HY2_in h) us old = (HY2_in h', True) \<and> hy2_ok (usersByID us) h'"
proof -
  define remove where "remove = filter (\<lambda>s. s \<noteq> []) (map u_Password (fst (userChanges old us)))"
  define valid where "valid = filter (\<lambda>u. u_Password u \<noteq> []) (snd (userChanges old us))"
  define ps where "ps = map (\<lambda>u. (u_Password u, u_ID u)) valid"
  define C where "C = {p \<in> creds u_Password old. snd p \<notin> set remove}"
  define h1 where "h1 = (if remove \<noteq> [] then hy2_DelUsers remove h else h)"
  define h2 where "h2 = (if valid \<noteq> [] then hy2_AddUsers (map hy2UserFromPanelUser valid) (map u_ID valid) h1 else h1)"
  have app: "applyHysteria2Users (HY2_in h) us old = (HY2_in h2, True)"
    by (simp add: applyHysteria2Users_def h2_def h1_def remove_def valid_def Let_def split_beta)
  have R: "u_Password ` set (fst (userChanges old us)) - {[]} = set remove" by (auto simp: remove_def)
  have zip: "zip (map (hu_Password \<circ> hy2UserFromPanelUser) valid) (map u_ID valid) = ps"
    by (simp add: ps_def zip_map_map zip_same_conv_map hy2UserFromPanelUser_def)
  have m1: "hy2_maps h1 C" and n1: "hi_userNameList h1 = filter (\<lambda>u. u \<notin> set remove) (hi_userNameList h)"
    and s1: "hi_service h1 = map (\<lambda>x. (mget0 0 (hi_uuidToUid h1) x, x)) (hi_userNameList h1)"
    using ok hy2_dels [of h "creds u_Password old" remove]
    by (auto simp: h1_def hy2_DelUsers_def hy2_UpdateUsers_def hy2_ok_def hy2_maps_def C_def Let_def)
  have sec: "\<forall>u \<in> set valid. \<forall>v \<in> set valid. u_Password u = u_Password v \<longrightarrow> u_ID u = u_ID v"
  proof (intro ballI impI)
    fix u v
    assume uv: "u \<in> set valid" "v \<in> set valid" and eq: "u_Password u = u_Password v"
    have "w \<in> set valid \<Longrightarrow> (u_ID w, u_Password w) \<in> creds u_Password (usersByID us)" for w
      by (auto simp: valid_def intro: creds_in_new [where sel = u_Password])
    then show "u_ID u = u_ID v" using un' eq uv unfolding unshared_def by metis
  qed
  have dist: "distinct (map snd ps)" "distinct (map fst ps)"
    using distinct_IDs_added [of old us] distinct_secrets [OF _ sec]
    by (simp_all add: ps_def comp_def valid_def distinct_map_filter)
  have fresh: "\<forall>p \<in> C. fst p \<notin> set (map snd ps) \<and> snd p \<notin> set (map fst ps)"
  proof
    fix p
    assume "p \<in> C"
    then have pc: "p \<in> creds u_Password old" "snd p \<notin> u_Password ` set (fst (userChanges old us)) - {[]}"
      by (simp_all add: C_def R)
    have "fst p \<noteq> u_ID u \<and> snd p \<noteq> u_Password u" if "u \<in> set valid" for u
      using added_fresh [OF k un un' auth_fields(2) _ _ pc, of u] that by (simp add: valid_def)
    then show "fst p \<notin> set (map snd ps) \<and> snd p \<notin> set (map fst ps)" by (auto simp: ps_def)
  qed
  have "0 < u_ID u" if "u \<in> set valid" for u
    using that keyed_usersByID [of us] set_added [of u old us] by (auto simp: valid_def keyed_def)
  then have pos: "\<forall>p \<in> set ps. 0 < snd p" by (simp add: ps_def)
  note adds = hy2_adds [OF m1 dist(2,1) fresh pos]
  have new: "C \<union> {(i, x). (x, i) \<in> set ps} = creds u_Password (usersByID us)"
    by (auto simp: creds_update [OF k un auth_fields(2), of us] R C_def ps_def valid_def)
  have "hy2_maps h2 (creds u_Password (usersByID us)) \<and> hi_userNameList h2 = hi_userNameList h1 @ map fst ps \<and>
      hi_service h2 = map (\<lambda>x. (mget0 0 (hi_uuidToUid h2) x, x)) (hi_userNameList h2)"
  proof (cases "valid = []")
    case True
    then show ?thesis using m1 s1 new by (simp add: h2_def ps_def)
  next
    case False
    then show ?thesis using adds new by (simp add: h2_def hy2_AddUsers_def hy2_UpdateUsers_def zip hy2_maps_def)
  qed
  moreover have "set (hi_userNameList h1 @ map fst ps) = snd ` (C \<union> {(i, x). (x, i) \<in> set ps})"
    using ok by (force simp: n1 hy2_ok_def C_def)
  ultimately show ?thesis using app new by (auto simp: hy2_ok_def)
qed

text \<open>Users whose credentials did not change leave the inbound alone.\<close>

lemma rel_unchanged:
  "rel_option same_auth (mget m i) (mget m' i) \<Longrightarrow> mget m' i = Some u \<Longrightarrow> \<not> changed m i u"
  "rel_option same_auth (mget m i) (mget m' i) \<Longrightarrow> mget m i = Some u \<Longrightarrow> \<not> changed m' i u"
  by (auto simp: changed_def option_rel_Some1 option_rel_Some2 same_auth_def)

lemma no_changes:
  assumes "keyed old" "\<And>i. rel_option same_auth (mget old i) (mget (usersByID us) i)"
  shows "userChanges old us = ([], [])"
proof -
  have wf: "wf_map old" using assms(1) by (simp add: keyed_def)
  have "u \<notin> set (fst (userChanges old us))" for u
    using set_removed [OF wf, of u us] rel_unchanged(2) [OF assms(2)] by blast
  moreover have "u \<notin> set (snd (userChanges old us))" for u
    using set_added [of u old us] rel_unchanged(1) [OF assms(2)] by blast
  ultimately show ?thesis by (metis list.set_intros(1) neq_Nil_conv prod.collapse)
qed

section \<open>Live connections of deleted users\<close>

lemma hy2_dels_closed:
  "set (hi_closed h) \<subseteq> set (hi_closed (fold hy2_del xs h))"
  by (induction xs arbitrary: h) (fastforce simp: hy2_del_def close_conns_def)+

lemma hy2_dels_close:
  "x \<in> set xs \<Longrightarrow> (c, x) \<in> set (hi_userconns h) \<Longrightarrow> c \<in> set (hi_closed (fold hy2_del xs h))"
proof (induction xs arbitrary: h)
  case (Cons y ys)
  show ?case
  proof (cases "y = x")
    case True
    have "c \<in> set (hi_closed (hy2_del x h))"
      using Cons.prems by (force simp: hy2_del_def close_conns_def)
    then show ?thesis using hy2_dels_closed [of "hy2_del x h" ys] True by auto
  next
    case False
    then have "(c, x) \<in> set (hi_userconns (hy2_del y h))"
      using Cons.prems by (simp add: hy2_del_def close_conns_def)
    then show ?thesis using Cons False by simp
  qed
qed simp

lemma hy2_DelUsers_fields:
  "names \<noteq> [] \<Longrightarrow> hi_closed (hy2_DelUsers names h) = hi_closed (fold hy2_del names h)"
  "names \<noteq> [] \<Longrightarrow> hi_uidToUuid (hy2_DelUsers names h) = hi_uidToUuid (fold hy2_del names h)"
  by (simp_all add: hy2_DelUsers_def hy2_UpdateUsers_def Let_def)



lemma vless_closes_keep:
  "\<forall>x \<in> set xs. x \<noteq> [] \<Longrightarrow> mget (vi_userconns h) c = Some [] \<Longrightarrow> wf_map (vi_userconns h) \<Longrightarrow>
     mget (vi_userconns (fold vless_close xs h)) c = Some [] \<and>
     (c \<in> set (vi_closed (fold vless_close xs h)) \<longrightarrow> c \<in> set (vi_closed h))"
proof (induction xs arbitrary: h)
  case (Cons x xs)
  have m: "(c, []) \<in> set (vi_userconns h)" using Cons.prems(2) by (rule map_of_SomeD)
  have wf: "wf_map (vi_userconns (vless_close x h))"
    using Cons.prems(3) by (simp add: vless_close_def close_conns_def distinct_map_filter)
  have "(c, []) \<in> set (vi_userconns (vless_close x h))"
    using m Cons.prems(1) by (auto simp: vless_close_def close_conns_def)
  then have g: "mget (vi_userconns (vless_close x h)) c = Some []" using wf by (simp add: mget_in_set)
  have "c \<in> set (vi_closed (vless_close x h)) \<Longrightarrow> c \<in> set (vi_closed h)"
    using Cons.prems m by (auto simp: vless_close_def close_conns_def dest: eq_key_imp_eq_value [OF Cons.prems(3)])
  then show ?case using Cons.IH [OF _ g wf] Cons.prems(1) by auto
qed simp



end
