(* ===== verification/Capabilities.thy ===== *)
theory Capabilities
  imports Topology
begin

text \<open>
  What a binary was built with: the constants that the build tags select
  (\<^verbatim>\<open>protocol_*.go\<close>, \<^verbatim>\<open>tun_*.go\<close>, \<^verbatim>\<open>userlimit_*.go\<close>, \<^verbatim>\<open>optional_inbounds_*.go\<close>), the
  protocol registries of \<open>minimalContext\<close> in \<^verbatim>\<open>main.go\<close>, and the report and check of
  \<^verbatim>\<open>capabilities.go\<close>. A build is the list of its tags.
\<close>

type_synonym tags = "string list"

definition vlessBuildEnabled :: "tags \<Rightarrow> bool" where
  "vlessBuildEnabled b \<longleftrightarrow> ''with_vless'' \<in> set b \<or> ''minimal'' \<notin> set b"

definition hysteria2BuildEnabled :: "tags \<Rightarrow> bool" where
  "hysteria2BuildEnabled b \<longleftrightarrow> ''with_hysteria2'' \<in> set b \<or> ''minimal'' \<notin> set b"

definition shadowsocksOutboundBuildEnabled :: "tags \<Rightarrow> bool" where
  "shadowsocksOutboundBuildEnabled b \<longleftrightarrow> ''with_shadowsocks_outbound'' \<in> set b \<or> ''minimal'' \<notin> set b"

definition userRateLimitBuildEnabled :: "tags \<Rightarrow> bool" where
  "userRateLimitBuildEnabled b \<longleftrightarrow> ''nouserlimit'' \<notin> set b"

definition tunBuildEnabled :: "tags \<Rightarrow> bool" where
  "tunBuildEnabled b \<longleftrightarrow> ''tun'' \<in> set b"

section \<open>Registries\<close>

text \<open>The registries as the lists of type names they know.\<close>

definition registerVLESSInbound :: "tags \<Rightarrow> string list \<Rightarrow> string list" where
  "registerVLESSInbound b r = (if vlessBuildEnabled b then r @ [''vless''] else r)"

definition registerHysteria2Inbound :: "tags \<Rightarrow> string list \<Rightarrow> string list" where
  "registerHysteria2Inbound b r = (if hysteria2BuildEnabled b then r @ [''hysteria2''] else r)"

definition registerOptionalInbounds :: "tags \<Rightarrow> string list \<Rightarrow> string list" where
  "registerOptionalInbounds b r = (if tunBuildEnabled b then r @ [''tun''] else r)"

definition registerShadowsocksOutbound :: "tags \<Rightarrow> string list \<Rightarrow> string list" where
  "registerShadowsocksOutbound b r = (if shadowsocksOutboundBuildEnabled b then r @ [''shadowsocks''] else r)"

definition minimalContext :: "tags \<Rightarrow> string list \<times> string list \<times> string list" where
  "minimalContext b =
     (registerOptionalInbounds b (registerHysteria2Inbound b (registerVLESSInbound b [])),
      registerShadowsocksOutbound b ([] @ [''direct''] @ [''block''] @ [''dns'']),
      [''udp'', ''tcp'', ''local'', ''hosts''])"

section \<open>Report and check\<close>

record BuildCapabilities =
  bc_BuildID :: string
  bc_VLESSInbound :: bool
  bc_Hysteria2Inbound :: bool
  bc_ShadowsocksOutbound :: bool
  bc_DirectOutbound :: bool
  bc_UserRateLimit :: bool
  bc_TunInbound :: bool

definition currentBuildCapabilities :: "tags \<Rightarrow> BuildCapabilities" where
  "currentBuildCapabilities b =
     (let parts = (if vlessBuildEnabled b then [''vless''] else []) @
                  (if hysteria2BuildEnabled b then [''hy2''] else []) @ [''direct''] @
                  (if shadowsocksOutboundBuildEnabled b then [''ss''] else [])
      in \<lparr>bc_BuildID = Join parts ''-'', bc_VLESSInbound = vlessBuildEnabled b,
          bc_Hysteria2Inbound = hysteria2BuildEnabled b,
          bc_ShadowsocksOutbound = shadowsocksOutboundBuildEnabled b, bc_DirectOutbound = True,
          bc_UserRateLimit = userRateLimitBuildEnabled b, bc_TunInbound = tunBuildEnabled b\<rparr>)"

datatype capability_error = NoVLESS | NoHysteria2 | NoShadowsocks

fun check_nodes :: "BuildCapabilities \<Rightarrow> NodeSpec list \<Rightarrow> capability_error option" where
  "check_nodes caps [] = None"
| "check_nodes caps (node # rest) =
     (if PanelNodeType node = ''vless'' \<and> \<not> bc_VLESSInbound caps then Some NoVLESS
      else if PanelNodeType node = ''hysteria'' \<and> \<not> bc_Hysteria2Inbound caps then Some NoHysteria2
      else if (EqualFold (ob_Type (ns_Outbound node)) ''shadowsocks'' \<or> EqualFold (ob_Type (ns_Outbound node)) ''ss'')
              \<and> \<not> bc_ShadowsocksOutbound caps then Some NoShadowsocks
      else check_nodes caps rest)"

definition validateTopologyCapabilities :: "Topology \<Rightarrow> BuildCapabilities \<Rightarrow> capability_error option" where
  "validateTopologyCapabilities t caps = check_nodes caps (tp_Nodes t)"

definition printCapabilities :: "tags \<Rightarrow> json" where
  "printCapabilities b =
     (let c = currentBuildCapabilities b in
      JObj [(''build_id'', JStr (bc_BuildID c)), (''vless_inbound'', JBool (bc_VLESSInbound c)),
            (''hysteria2_inbound'', JBool (bc_Hysteria2Inbound c)),
            (''shadowsocks_outbound'', JBool (bc_ShadowsocksOutbound c)),
            (''direct_outbound'', JBool (bc_DirectOutbound c)), (''user_rate_limit'', JBool (bc_UserRateLimit c)),
            (''tun_inbound'', JBool (bc_TunInbound c))])"

section \<open>What an accepted topology needs\<close>

text \<open>The type names of the inbound and of the outbound that a node gets in the generated
  configuration.\<close>

definition inbound_type :: "NodeSpec \<Rightarrow> string" where
  "inbound_type n = (if PanelNodeType n = ''hysteria'' then ''hysteria2'' else ''vless'')"

definition outbound_type :: "NodeSpec \<Rightarrow> string" where
  "outbound_type n = (if outboundKind (ns_Outbound n) = ''direct'' then ''direct'' else ''shadowsocks'')"

lemma PanelNodeType_cases: "PanelNodeType n = ''vless'' \<or> PanelNodeType n = ''hysteria''"
  by (simp add: PanelNodeType_def)

lemma check_nodes_None:
  "check_nodes caps ns = None \<longleftrightarrow>
     (\<forall>n \<in> set ns. (PanelNodeType n = ''vless'' \<longrightarrow> bc_VLESSInbound caps) \<and>
        (PanelNodeType n = ''hysteria'' \<longrightarrow> bc_Hysteria2Inbound caps) \<and>
        (EqualFold (ob_Type (ns_Outbound n)) ''shadowsocks'' \<or> EqualFold (ob_Type (ns_Outbound n)) ''ss''
           \<longrightarrow> bc_ShadowsocksOutbound caps))"
  by (induction caps ns rule: check_nodes.induct) auto

lemma EqualFold_lower: "EqualFold s t \<longleftrightarrow> ToLower s = ToLower t"
  by (simp add: EqualFold_def)

lemma lower_types: "ToLower ''shadowsocks'' = ''shadowsocks''" "ToLower ''ss'' = ''ss''"
  by code_simp+

lemma accepted_node_registered:
  assumes ok: "node_ok n" and caps: "check_nodes (currentBuildCapabilities b) [n] = None"
    and trimmed: "TrimSpace (ob_Type (ns_Outbound n)) = ob_Type (ns_Outbound n)"
  shows "inbound_type n \<in> set (fst (minimalContext b)) \<and> outbound_type n \<in> set (fst (snd (minimalContext b)))"
proof -
  have caps': "(PanelNodeType n = ''vless'' \<longrightarrow> vlessBuildEnabled b) \<and> (PanelNodeType n = ''hysteria'' \<longrightarrow> hysteria2BuildEnabled b) \<and>
      (ToLower (ob_Type (ns_Outbound n)) \<in> {''shadowsocks'', ''ss''} \<longrightarrow> shadowsocksOutboundBuildEnabled b)"
    using caps unfolding check_nodes_None by (auto simp: currentBuildCapabilities_def Let_def EqualFold_lower lower_types)
  have "inbound_type n \<in> set (fst (minimalContext b))"
    using caps' PanelNodeType_cases [of n]
    by (auto simp: inbound_type_def minimalContext_def registerVLESSInbound_def registerHysteria2Inbound_def
        registerOptionalInbounds_def)
  moreover have "outbound_type n \<in> set (fst (snd (minimalContext b)))"
    using caps' ok trimmed
    by (auto simp: outbound_type_def node_ok_def outboundKind_def minimalContext_def registerShadowsocksOutbound_def)
  ultimately show ?thesis ..
qed

section \<open>Properties\<close>



definition spaced_topology :: Topology where
  "spaced_topology = \<lparr>tp_Nodes =
     [\<lparr>ns_NodeID = ''21'', ns_NodeType = ''vless'', ns_Tag = [],
       ns_Outbound = \<lparr>ob_Type = '' ss'', ob_Server = ''192.0.2.1'', ob_ServerPort = 8388, ob_Method = ''aes-128-gcm'',
         ob_Password = ''secret'', ob_Plugin = [], ob_PluginOpts = []\<rparr>\<rparr>]\<rparr>"

text \<open>
  Without that condition the check is not enough: validation trims the outbound type
  and the capability check does not, so a topology with the outbound type \<^verbatim>\<open>" ss"\<close> is accepted
  by a build without Shadowsocks although it needs that outbound.
\<close>

theorem spaced_outbound_escapes_check:
  "Validate spaced_topology = None \<and>
   validateTopologyCapabilities spaced_topology (currentBuildCapabilities [''minimal'', ''with_vless'']) = None \<and>
   outbound_type (hd (tp_Nodes spaced_topology)) \<notin> set (fst (snd (minimalContext [''minimal'', ''with_vless''])))"
  by code_simp

end
