(* ===== verification/Float64.thy ===== *)
theory Float64
  imports Prelude
begin

text \<open>
  IEEE 754 double precision arithmetic as Go's \<^verbatim>\<open>float64\<close> performs it: the exact
  rational result of an operation, rounded to 53 significant bits, ties to even.
  The exponent is not bounded: every value the rate limiter computes lies between
  \<open>10\<^sup>-\<^sup>9\<close> and \<open>10\<^sup>2\<^sup>0\<close> in magnitude, or is zero, far inside the range where rounding
  is the only effect. The lemmas give the relative error of one rounding and the
  exactness of integers below \<open>2\<^sup>5\<^sup>3\<close>.
\<close>

section \<open>Rounding\<close>

text \<open>The binary exponent of a non-zero rational: \<open>2\<^sup>e \<le> \<bar>x\<bar> < 2\<^sup>e\<^sup>+\<^sup>1\<close>.\<close>

definition bexp :: "rat \<Rightarrow> int" where
  "bexp x =
     (let (p, q) = quotient_of x; e = bitlen \<bar>p\<bar> - bitlen q
      in if 2 powi e \<le> \<bar>x\<bar> then e else e - 1)"

definition round_even :: "rat \<Rightarrow> int" where
  "round_even y =
     (let f = \<lfloor>y\<rfloor>; d = y - of_int f in
      if d < 1 / 2 then f else if 1 / 2 < d then f + 1 else if even f then f else f + 1)"

definition f64 :: "rat \<Rightarrow> rat" where
  "f64 x =
     (if x = 0 then 0
      else let s = 2 powi (52 - bexp x) in of_int (round_even (x * s)) / s)"

section \<open>The exponent\<close>

lemma bitlen_bounds_int:
  assumes "0 < n"
  shows "2 powi (bitlen n - 1) \<le> (of_int n :: rat)" and "(of_int n :: rat) < 2 powi (bitlen n)"
proof -
  have b: "2 ^ nat (bitlen n - 1) \<le> n" "n < 2 ^ nat (bitlen n)"
    using bitlen_bounds [OF assms] by auto
  have "bitlen n \<noteq> 0" using assms by (simp add: bitlen_eq_zero_iff)
  then have pos: "1 \<le> bitlen n" using bitlen_nonneg [of n] by linarith
  have "(of_int (2 ^ nat (bitlen n - 1)) :: rat) \<le> of_int n" using b(1) of_int_le_iff by blast
  then show "2 powi (bitlen n - 1) \<le> (of_int n :: rat)"
    using pos by (simp add: power_int_def)
  have "(of_int n :: rat) < of_int (2 ^ nat (bitlen n))" using b(2) of_int_less_iff by blast
  then show "(of_int n :: rat) < 2 powi (bitlen n)"
    using pos by (simp add: power_int_def)
qed

lemma bexp_bounds:
  assumes "x \<noteq> 0"
  shows "2 powi (bexp x) \<le> \<bar>x\<bar>" and "\<bar>x\<bar> < 2 powi (bexp x + 1)"
proof -
  obtain p q where pq: "quotient_of x = (p, q)" by (cases "quotient_of x")
  have q: "0 < q" using quotient_of_denom_pos [OF pq] .
  have x: "x = of_int p / of_int q" using quotient_of_div [OF pq] .
  then have p: "0 < \<bar>p\<bar>" using assms by auto
  have ax: "\<bar>x\<bar> = of_int \<bar>p\<bar> / of_int q" using x q by simp
  define e where "e = bitlen \<bar>p\<bar> - bitlen q"
  have qpos: "(0 :: rat) < of_int q" using q by simp
  have two: "(0::rat) < 2 powi k" for k by simp
  have up: "\<bar>x\<bar> < 2 powi (e + 1)"
  proof -
    have "of_int \<bar>p\<bar> < (2 powi (bitlen \<bar>p\<bar>) :: rat)" using bitlen_bounds_int(2) [OF p] .
    also have "\<dots> = 2 powi (e + 1) * 2 powi (bitlen q - 1)"
      by (simp add: e_def flip: power_int_add)
    also have "\<dots> \<le> 2 powi (e + 1) * of_int q"
      using bitlen_bounds_int(1) [OF q] two by (simp add: mult_left_mono)
    finally show ?thesis using qpos by (simp add: ax divide_less_eq)
  qed
  have lo: "2 powi (e - 1) \<le> \<bar>x\<bar>"
  proof -
    have "2 powi (e - 1) * of_int q \<le> (2 powi (e - 1) * 2 powi (bitlen q) :: rat)"
      using bitlen_bounds_int(2) [OF q] two by (simp add: mult_left_mono)
    also have "\<dots> = 2 powi (bitlen \<bar>p\<bar> - 1)"
      by (simp add: e_def flip: power_int_add)
    also have "\<dots> \<le> of_int \<bar>p\<bar>" using bitlen_bounds_int(1) [OF p] .
    finally show ?thesis using qpos by (simp add: ax le_divide_eq)
  qed
  have b: "bexp x = (if 2 powi e \<le> \<bar>x\<bar> then e else e - 1)"
    by (simp add: bexp_def pq e_def Let_def)
  show "2 powi (bexp x) \<le> \<bar>x\<bar>" using b lo by simp
  show "\<bar>x\<bar> < 2 powi (bexp x + 1)" using b up by simp
qed

section \<open>Rounding to an integer\<close>

lemma round_even_error: "\<bar>of_int (round_even y) - y\<bar> \<le> 1 / 2"
proof -
  have "of_int \<lfloor>y\<rfloor> \<le> y" "y < of_int \<lfloor>y\<rfloor> + 1" by linarith+
  then show ?thesis by (auto simp: round_even_def Let_def abs_le_iff)
qed

lemma round_even_of_int [simp]: "round_even (of_int n) = n"
  by (simp add: round_even_def)

lemma round_even_le: "y \<le> of_int n \<Longrightarrow> round_even y \<le> n"
proof -
  assume y: "y \<le> of_int n"
  have "\<lfloor>y\<rfloor> \<le> n" using y by (simp add: floor_le_iff less_le_trans)
  moreover have "round_even y \<le> n" if "\<lfloor>y\<rfloor> = n"
  proof -
    have "y = of_int n" using y that floor_correct [of y] by simp
    then show ?thesis by simp
  qed
  moreover have "round_even y \<le> \<lfloor>y\<rfloor> + 1" by (simp add: round_even_def Let_def)
  ultimately show ?thesis by linarith
qed

lemma round_even_ge: "of_int n \<le> y \<Longrightarrow> n \<le> round_even y"
proof -
  assume "of_int n \<le> y"
  then have "n \<le> \<lfloor>y\<rfloor>" by (simp add: le_floor_iff)
  then show ?thesis by (simp add: round_even_def Let_def)
qed

section \<open>Properties of rounding to double precision\<close>

lemma f64_zero [simp]: "f64 0 = 0"
  by (simp add: f64_def)

lemma f64_error: "\<bar>f64 x - x\<bar> \<le> \<bar>x\<bar> / 2 ^ 53"
proof (cases "x = 0")
  case False
  define s :: rat where "s = 2 powi (52 - bexp x)"
  have s: "0 < s" by (simp add: s_def)
  have "f64 x - x = (of_int (round_even (x * s)) - x * s) / s"
    using False s by (simp add: f64_def s_def Let_def diff_divide_distrib)
  then have "\<bar>f64 x - x\<bar> = \<bar>of_int (round_even (x * s)) - x * s\<bar> / s"
    using s by simp
  also have "\<dots> \<le> (1 / 2) / s"
    using round_even_error [of "x * s"] s by (intro divide_right_mono) auto
  also have "\<dots> = 2 powi (bexp x) / 2 ^ 53"
  proof -
    have "2 powi (bexp x) = (2 ^ 52 / s :: rat)"
      by (simp add: s_def power_int_diff)
    then show ?thesis by simp
  qed
  also have "\<dots> \<le> \<bar>x\<bar> / 2 ^ 53"
    using bexp_bounds(1) [OF False] by (simp add: divide_right_mono)
  finally show ?thesis .
qed simp

lemma f64_upper: "f64 x \<le> x + \<bar>x\<bar> / 2 ^ 53"
  using abs_le_D1 [OF f64_error [of x]] by linarith

lemma f64_lower: "x - \<bar>x\<bar> / 2 ^ 53 \<le> f64 x"
  using abs_le_D2 [OF f64_error [of x]] by linarith

lemma f64_nonneg: "0 \<le> x \<Longrightarrow> 0 \<le> f64 x"
  using f64_lower [of x] by (simp add: field_simps)

lemma f64_le_mult: "0 \<le> x \<Longrightarrow> f64 x \<le> x * (1 + 1 / 2 ^ 53)"
  using f64_upper [of x] by (simp add: field_simps)

lemma f64_pos: "0 < x \<Longrightarrow> 0 < f64 x"
  using f64_lower [of x] by (simp add: field_simps)

text \<open>The scale of a value below \<open>2\<^sup>5\<^sup>3\<close> is a whole number.\<close>

lemma f64_scale:
  assumes "x \<noteq> 0" "\<bar>x\<bar> < 2 ^ 53"
  obtains k where "2 powi (52 - bexp x) = (of_int k :: rat)" "0 < k"
proof -
  have "bexp x < 53"
  proof (rule ccontr)
    assume "\<not> bexp x < 53"
    then have "(2 :: rat) powi 53 \<le> 2 powi (bexp x)" by (intro power_int_increasing) auto
    then show False using bexp_bounds(1) [OF assms(1)] assms(2) by simp
  qed
  then have "(2 :: rat) powi (52 - bexp x) = of_int (2 ^ nat (52 - bexp x))"
    by (simp add: power_int_def)
  then show thesis by (rule that) simp
qed

lemma f64_of_int [simp]:
  assumes "\<bar>n\<bar> < 2 ^ 53"
  shows "f64 (of_int n) = of_int n"
proof (cases "n = 0")
  case False
  have "\<bar>of_int n :: rat\<bar> < of_int (2 ^ 53)" using assms by (metis of_int_abs of_int_less_iff)
  then obtain k where k: "2 powi (52 - bexp (of_int n)) = (of_int k :: rat)" "0 < k"
    using f64_scale [of "of_int n"] False by auto
  have "round_even (of_int n * of_int k) = n * k" by (simp flip: of_int_mult)
  then show ?thesis using False k by (simp add: f64_def Let_def)
qed simp

lemma f64_le_int:
  assumes "x \<le> of_int b" "0 \<le> b" "b < 2 ^ 53"
  shows "f64 x \<le> of_int b"
proof (cases "x \<le> 0")
  case True
  have "f64 x \<le> x + \<bar>x\<bar> / 2 ^ 53" by (rule f64_upper)
  also have "\<dots> \<le> 0" using True by (simp add: field_simps)
  finally show ?thesis using assms(2) by (simp add: order_trans)
next
  case False
  have "(of_int b :: rat) < of_int (2 ^ 53)" using assms(3) of_int_less_iff by blast
  then have "\<bar>x\<bar> < 2 ^ 53" using False assms(1) by simp
  then obtain k where k: "2 powi (52 - bexp x) = (of_int k :: rat)" "0 < k"
    using f64_scale [of x] False by auto
  have "x * of_int k \<le> of_int (b * k)" using assms(1) k(2) by (simp add: mult_right_mono)
  then have "round_even (x * of_int k) \<le> b * k" by (rule round_even_le)
  then have "(of_int (round_even (x * of_int k)) :: rat) \<le> of_int b * of_int k"
    by (metis of_int_le_iff of_int_mult)
  then show ?thesis using False k by (simp add: f64_def Let_def divide_le_eq)
qed

section \<open>Durations\<close>

text \<open>
  \<open>time.Duration\<close> is a count of nanoseconds; \<open>Seconds\<close> converts it by its whole
  and fractional parts.
\<close>

definition time_Sub :: "int \<Rightarrow> int \<Rightarrow> int" where
  "time_Sub t u = max (- (2 ^ 63)) (min (2 ^ 63 - 1) (t - u))"

definition Seconds :: "int \<Rightarrow> rat" where
  "Seconds d =
     f64 (f64 (of_int (quot64 d 1000000000)) + f64 (of_int (rem64 d 1000000000) / 1000000000))"

text \<open>Conversion of a float to an integer drops the fraction.\<close>

definition trunc :: "rat \<Rightarrow> int" where
  "trunc x = (if 0 \<le> x then \<lfloor>x\<rfloor> else \<lceil>x\<rceil>)"

lemma quot_rem64: "d = 1000000000 * quot64 d 1000000000 + rem64 d 1000000000"
  by (simp add: rem64_def)

lemma quot_rem64_nonneg:
  "0 \<le> d \<Longrightarrow> 0 \<le> quot64 d 1000000000 \<and> 0 \<le> rem64 d 1000000000"
  by (cases "d = 0") (auto simp: quot64_def rem64_def sgn_if minus_mult_div_eq_mod)

lemma quot64_pos [simp]: "0 < d \<Longrightarrow> quot64 d 1000000000 = d div 1000000000"
  by (simp add: quot64_def)

lemma Seconds_bounds:
  assumes "0 \<le> d"
  shows "0 \<le> Seconds d"
    and "Seconds d \<le> of_int d / 1000000000 * (1 + 1 / 2 ^ 53) ^ 2"
proof -
  define q r where "q = quot64 d 1000000000" and "r = rem64 d 1000000000"
  have qr: "0 \<le> q" "0 \<le> r" "d = 1000000000 * q + r"
    using quot_rem64_nonneg [OF assms] quot_rem64 [of d] by (simp_all add: q_def r_def)
  let ?u = "1 + 1 / 2 ^ 53 :: rat"
  let ?a = "f64 (of_int q)" and ?b = "f64 (of_int r / 1000000000)"
  have nn: "0 \<le> ?a" "0 \<le> ?b" using qr by (auto intro!: f64_nonneg)
  then show "0 \<le> Seconds d" unfolding Seconds_def q_def r_def by (intro f64_nonneg) auto
  have "?a \<le> of_int q * ?u" by (rule f64_le_mult) (use qr in simp)
  moreover have "?b \<le> of_int r / 1000000000 * ?u" by (rule f64_le_mult) (use qr in simp)
  moreover have "of_int q * ?u + of_int r / 1000000000 * ?u = of_int d / 1000000000 * ?u"
    using qr(3) by (simp add: algebra_simps)
  ultimately have "?a + ?b \<le> of_int d / 1000000000 * ?u" by linarith
  then have "(?a + ?b) * ?u \<le> of_int d / 1000000000 * ?u * ?u"
    by (rule mult_right_mono) simp
  then have "f64 (?a + ?b) \<le> of_int d / 1000000000 * ?u * ?u"
    using f64_le_mult [of "?a + ?b"] nn by linarith
  then show "Seconds d \<le> of_int d / 1000000000 * ?u ^ 2"
    unfolding Seconds_def q_def r_def by (simp add: power2_eq_square mult.assoc)
qed

end
