(* ===== verification/Rate_Limit.thy ===== *)
theory Rate_Limit
  imports Float64
begin

text \<open>
  The token bucket of \<^verbatim>\<open>counter/ratelimit.go\<close>. Times are nanoseconds, tokens are
  \<^verbatim>\<open>float64\<close> values (theory Float64), rates and bursts are 64-bit integers. The
  caller passes the reading of the clock. The lemmas give the bucket's invariant,
  the bound on what the packet path lets through in any stretch of time, and the
  termination of the blocking path under arbitrary interference.
\<close>

section \<open>The bucket\<close>

datatype rl_error = ErrLimiterClosed

record RateLimiter =
  rl_rate :: int
  rl_burst :: int
  rl_tokens :: rat
  rl_last :: "int option" \<comment> \<open>\<open>None\<close> is the zero time\<close>
  rl_disabled :: bool
  rl_closed :: bool

definition defaultBurstWindow :: int where "defaultBurstWindow = 200000000"
definition time_Second :: int where "time_Second = 1000000000"
definition maxWriteChunk :: int where "maxWriteChunk = 65536"
definition maxReadChunk :: int where "maxReadChunk = 65536"

definition SetRate :: "int \<Rightarrow> int \<Rightarrow> RateLimiter \<Rightarrow> RateLimiter" where
  "SetRate now bytesPerSecond l =
     (let burst0 = quot64 (mul64 bytesPerSecond defaultBurstWindow) time_Second;
          burst = (if burst0 < maxWriteChunk then maxWriteChunk else burst0);
          l1 = l\<lparr>rl_rate := bytesPerSecond, rl_burst := burst\<rparr>
      in if bytesPerSecond \<le> 0 then l1\<lparr>rl_disabled := True, rl_tokens := 0\<rparr>
         else l1\<lparr>rl_closed := False, rl_disabled := False,
                 rl_tokens := (if rl_tokens l1 < 0 \<or> rl_tokens l1 > f64 (of_int burst) then 0 else rl_tokens l1),
                 rl_last := Some now\<rparr>)"

definition NewRateLimiter :: "int \<Rightarrow> int \<Rightarrow> RateLimiter" where
  "NewRateLimiter now bytesPerSecond =
     SetRate now bytesPerSecond
       \<lparr>rl_rate = 0, rl_burst = 0, rl_tokens = 0, rl_last = Some now, rl_disabled = False, rl_closed = False\<rparr>"

definition Close_limiter :: "RateLimiter \<Rightarrow> RateLimiter" where
  "Close_limiter l =
     l\<lparr>rl_closed := True, rl_disabled := True, rl_rate := 0, rl_burst := 0, rl_tokens := 0\<rparr>"

text \<open>\<open>Closed\<close> and \<open>Rate\<close>; a nil limiter counts as closed.\<close>

definition Closed :: "RateLimiter option \<Rightarrow> bool" where
  "Closed l = (case l of None \<Rightarrow> True | Some r \<Rightarrow> rl_closed r)"

definition Rate :: "RateLimiter \<Rightarrow> int" where
  "Rate l = rl_rate l"

text \<open>The refill that \<open>allow\<close> and \<open>reserve\<close> both begin with.\<close>

definition refill :: "int \<Rightarrow> RateLimiter \<Rightarrow> RateLimiter" where
  "refill now l =
     (let last0 = (case rl_last l of None \<Rightarrow> now | Some t \<Rightarrow> t);
          elapsed = Seconds (time_Sub now last0)
      in if elapsed > 0 then
           (let t = f64 (rl_tokens l + f64 (elapsed * f64 (of_int (rl_rate l))))
            in l\<lparr>rl_tokens := (if t > f64 (of_int (rl_burst l)) then f64 (of_int (rl_burst l)) else t),
                 rl_last := Some now\<rparr>)
         else l\<lparr>rl_last := Some last0\<rparr>)"

definition needed :: "int \<Rightarrow> RateLimiter \<Rightarrow> rat" where
  "needed n l =
     (if f64 (of_int n) > f64 (of_int (rl_burst l)) then f64 (of_int (rl_burst l)) else f64 (of_int n))"

definition allow :: "int \<Rightarrow> int \<Rightarrow> RateLimiter \<Rightarrow> RateLimiter \<times> (rl_error + bool)" where
  "allow now n l =
     (if rl_closed l then (l, Inl ErrLimiterClosed)
      else if rl_disabled l \<or> rl_rate l \<le> 0 \<or> n \<le> 0 then (l, Inr True)
      else let l1 = refill now l; need = needed n l1 in
        if rl_tokens l1 < need then (l1, Inr False)
        else (l1\<lparr>rl_tokens := f64 (rl_tokens l1 - need)\<rparr>, Inr True))"

definition Allow :: "int \<Rightarrow> int \<Rightarrow> RateLimiter \<Rightarrow> RateLimiter \<times> (rl_error + bool)" where
  "Allow now n l = (if n \<le> 0 then (l, Inr True) else allow now n l)"

definition reserve :: "int \<Rightarrow> int \<Rightarrow> RateLimiter \<Rightarrow> RateLimiter \<times> (rl_error + int)" where
  "reserve now n l =
     (if rl_closed l then (l, Inl ErrLimiterClosed)
      else if rl_disabled l \<or> rl_rate l \<le> 0 \<or> n \<le> 0 then (l, Inr 0)
      else let l1 = refill now l; need = needed n l1 in
        if need \<le> rl_tokens l1 then (l1\<lparr>rl_tokens := f64 (rl_tokens l1 - need)\<rparr>, Inr 0)
        else let missing = f64 (need - rl_tokens l1) in
          (l1\<lparr>rl_tokens := f64 (rl_tokens l1 - need)\<rparr>,
           Inr (trunc (f64 (f64 (missing / f64 (of_int (rl_rate l1))) * 1000000000)))))"

text \<open>
  \<open>Wait\<close> releases the lock between looking at the bucket and reserving from it, and
  sleeps without it. Other goroutines act in these gaps: \<open>env k\<close> is what they do to
  the bucket before the \<open>k\<close>-th time this call takes the lock, \<open>clock i\<close> is the clock
  in round \<open>i\<close>. The result is the bucket, the error if any, and the sleeps.
\<close>

function wait_loop ::
  "(nat \<Rightarrow> RateLimiter \<Rightarrow> RateLimiter) \<Rightarrow> (nat \<Rightarrow> int) \<Rightarrow> nat \<Rightarrow> int \<Rightarrow> RateLimiter \<Rightarrow> int list
   \<Rightarrow> RateLimiter \<times> rl_error option \<times> int list" where
  "wait_loop env clock i remaining l sleeps =
     (if remaining \<le> 0 then (l, None, sleeps)
      else
        let l1 = env (2 * i) l;
            burst = rl_burst l1;
            disabled = (rl_disabled l1 \<or> rl_rate l1 \<le> 0 \<or> rl_closed l1);
            l2 = env (2 * i + 1) l1
        in if disabled then
             (case reserve (clock i) 0 l2 of
                (l3, Inl e) \<Rightarrow> (l3, Some e, sleeps)
              | (l3, Inr _) \<Rightarrow> (l3, None, sleeps))
           else
             (let chunk = (if burst > 0 \<and> remaining > burst then burst else remaining)
              in case reserve (clock i) chunk l2 of
                   (l3, Inl e) \<Rightarrow> (l3, Some e, sleeps)
                 | (l3, Inr w) \<Rightarrow>
                     wait_loop env clock (Suc i) (remaining - chunk) l3
                       (if w > 0 then sleeps @ [w] else sleeps)))"
  by pat_completeness auto
termination
  by (relation "measure (\<lambda>(env, clock, i, remaining, l, sleeps). nat remaining)") (auto simp: Let_def)

declare wait_loop.simps [simp del]

definition Wait ::
  "(nat \<Rightarrow> RateLimiter \<Rightarrow> RateLimiter) \<Rightarrow> (nat \<Rightarrow> int) \<Rightarrow> int \<Rightarrow> RateLimiter
   \<Rightarrow> RateLimiter \<times> rl_error option \<times> int list" where
  "Wait env clock n l = (if n \<le> 0 then (l, None, []) else wait_loop env clock 0 n l [])"

section \<open>Invariant\<close>

text \<open>The largest burst: the product in \<open>SetRate\<close> wraps, so the quotient is small.\<close>

definition maxBurst :: int where "maxBurst = 9223372036"

definition rl_ok :: "RateLimiter \<Rightarrow> bool" where
  "rl_ok l \<longleftrightarrow>
     0 \<le> rl_burst l \<and> rl_burst l \<le> maxBurst \<and> rl_tokens l \<le> of_int (rl_burst l) \<and>
     (\<not> rl_disabled l \<longrightarrow> 0 < rl_rate l \<and> maxWriteChunk \<le> rl_burst l) \<and>
     (rl_closed l \<longrightarrow> rl_disabled l) \<and> rl_last l \<noteq> None"

lemma quot_bound: "is_int64 x \<Longrightarrow> \<bar>quot64 x 1000000000\<bar> \<le> maxBurst"
  by (auto simp: quot64_def is_int64_def maxBurst_def sgn_if abs_if abs_mult)

lemma burst_exact: "0 \<le> b \<Longrightarrow> b \<le> maxBurst \<Longrightarrow> f64 (of_int b) = of_int b"
  by (simp add: maxBurst_def)

lemma rl_ok_burst: "rl_ok l \<Longrightarrow> f64 (of_int (rl_burst l)) = of_int (rl_burst l)"
  by (simp add: rl_ok_def burst_exact)

lemma SetRate_ok [go_inv]: "rl_ok l \<Longrightarrow> rl_ok (SetRate now bps l)"
proof -
  assume ok: "rl_ok l"
  define b0 where "b0 = quot64 (mul64 bps defaultBurstWindow) time_Second"
  have b0: "\<bar>b0\<bar> \<le> maxBurst"
    unfolding b0_def time_Second_def mul64_def by (rule quot_bound) simp
  define b where "b = (if b0 < maxWriteChunk then maxWriteChunk else b0)"
  have b: "maxWriteChunk \<le> b" "b \<le> maxBurst" "0 \<le> b"
    using b0 by (auto simp: b_def maxWriteChunk_def maxBurst_def)
  show ?thesis
    using ok b burst_exact [OF b(3,2)]
    by (auto simp: rl_ok_def SetRate_def Let_def b_def [unfolded b0_def, symmetric])
qed

lemma NewRateLimiter_ok [go_inv]: "rl_ok (NewRateLimiter now bps)"
proof -
  define l0 where "l0 = \<lparr>rl_rate = 0, rl_burst = 0, rl_tokens = 0, rl_last = Some now,
    rl_disabled = True, rl_closed = False\<rparr>"
  have "rl_ok l0" by (simp add: rl_ok_def l0_def maxBurst_def)
  then have "rl_ok (SetRate now bps l0)" by (rule SetRate_ok)
  moreover have "SetRate now bps l0 = NewRateLimiter now bps"
    by (auto simp: NewRateLimiter_def SetRate_def l0_def Let_def)
  ultimately show ?thesis by simp
qed

lemma Close_limiter_ok [go_inv]: "rl_ok l \<Longrightarrow> rl_ok (Close_limiter l)"
  by (simp add: rl_ok_def Close_limiter_def maxBurst_def)

lemma refill_fields [simp]:
  "rl_rate (refill now l) = rl_rate l" "rl_burst (refill now l) = rl_burst l"
  "rl_disabled (refill now l) = rl_disabled l" "rl_closed (refill now l) = rl_closed l"
  by (auto simp: refill_def Let_def)

lemma refill_ok [go_inv]: "rl_ok l \<Longrightarrow> rl_ok (refill now l)"
  using rl_ok_burst [of l] by (auto simp: rl_ok_def refill_def Let_def)

lemma needed_bounds:
  assumes "rl_ok l" "0 < n" "\<not> rl_disabled l"
  shows "0 < needed n l" and "needed n l \<le> of_int (rl_burst l)"
proof -
  have "0 < f64 (of_int n)" using assms by (intro f64_pos) simp
  moreover have "0 < rl_burst l" using assms by (auto simp: rl_ok_def maxWriteChunk_def)
  ultimately show "0 < needed n l" "needed n l \<le> of_int (rl_burst l)"
    using rl_ok_burst [OF assms(1)] by (auto simp: needed_def)
qed

lemma debit_ok:
  assumes "rl_ok l" "0 \<le> need"
  shows "rl_ok (l\<lparr>rl_tokens := f64 (rl_tokens l - need)\<rparr>)"
proof -
  have "f64 (rl_tokens l - need) \<le> of_int (rl_burst l)"
    using assms by (intro f64_le_int) (auto simp: rl_ok_def maxBurst_def)
  then show ?thesis using assms by (auto simp: rl_ok_def)
qed

lemma allow_ok [go_inv]: "rl_ok l \<Longrightarrow> rl_ok (fst (allow now n l))"
  using needed_bounds(1) [of "refill now l" n]
  by (auto simp: allow_def Let_def refill_ok intro!: debit_ok)

lemma reserve_ok [go_inv]: "rl_ok l \<Longrightarrow> rl_ok (fst (reserve now n l))"
  using needed_bounds(1) [of "refill now l" n]
  by (auto simp: reserve_def Let_def refill_ok intro!: debit_ok)

section \<open>The packet path never goes into debt\<close>

lemma refill_nonneg: "rl_ok l \<Longrightarrow> 0 \<le> rl_tokens l \<Longrightarrow> 0 < rl_rate l \<Longrightarrow> 0 \<le> rl_tokens (refill now l)"
proof -
  assume ok: "rl_ok l" and t: "0 \<le> rl_tokens l" and r: "0 < rl_rate l"
  have b: "0 \<le> f64 (of_int (rl_burst l))" using ok by (intro f64_nonneg) (simp add: rl_ok_def)
  have "0 \<le> f64 (rl_tokens l + f64 (e * f64 (of_int (rl_rate l))))" if "0 < e" for e
    using t r that by (intro f64_nonneg add_nonneg_nonneg mult_nonneg_nonneg) auto
  then show ?thesis using t b by (auto simp: refill_def Let_def)
qed

lemma allow_nonneg:
  "rl_ok l \<Longrightarrow> 0 \<le> rl_tokens l \<Longrightarrow> 0 \<le> rl_tokens (fst (allow now n l))"
  using refill_nonneg [of l now]
  by (auto simp: allow_def Let_def intro!: f64_nonneg)

section \<open>What the packet path lets through\<close>

text \<open>One rounding error, and the accumulated factor of the five roundings between
  the clock and the bucket.\<close>

definition ulp :: rat where "ulp = 1 / 2 ^ 53"
definition slack :: rat where "slack = (1 + ulp) ^ 5"

definition live :: "RateLimiter \<Rightarrow> bool" where
  "live l \<longleftrightarrow> rl_ok l \<and> \<not> rl_disabled l \<and> \<not> rl_closed l \<and> 0 \<le> rl_tokens l"

lemma live_rate: "live l \<Longrightarrow> 0 < rl_rate l"
  by (simp add: live_def rl_ok_def)

definition last_time :: "RateLimiter \<Rightarrow> int" where
  "last_time l = the (rl_last l)"

lemma refill_credit:
  assumes "live l" "last_time l \<le> now"
  shows "rl_tokens (refill now l) \<le> rl_tokens l
           + of_int (rl_rate l) * of_int (last_time (refill now l) - last_time l) / 1000000000 * slack
           + ulp * of_int (rl_burst l)"
    and "last_time (refill now l) \<le> now" and "last_time l \<le> last_time (refill now l)"
proof -
  obtain t0 where t0: "rl_last l = Some t0" using assms(1) by (auto simp: live_def rl_ok_def)
  define d where "d = time_Sub now t0"
  have d: "0 \<le> d" "d \<le> now - t0"
    using assms(2) t0 by (auto simp: d_def time_Sub_def last_time_def)
  define c where "c = f64 (Seconds d * f64 (of_int (rl_rate l)))"
  have rate: "0 \<le> (of_int (rl_rate l) :: rat)" using live_rate [OF assms(1)] by simp
  have tok: "0 \<le> rl_tokens l" "rl_tokens l \<le> of_int (rl_burst l)"
    using assms(1) by (auto simp: live_def rl_ok_def)
  have burst: "0 \<le> (of_int (rl_burst l) :: rat)" using tok by linarith
  have u: "0 \<le> ulp" "0 \<le> 1 + ulp" by (simp_all add: ulp_def)
  let ?dr = "of_int (rl_rate l) * of_int d / 1000000000 :: rat"
  have c: "0 \<le> c" "c \<le> ?dr * (1 + ulp) ^ 4"
  proof -
    have s: "0 \<le> Seconds d" "Seconds d \<le> of_int d / 1000000000 * (1 + ulp) ^ 2"
      using Seconds_bounds [OF d(1)] by (simp_all add: ulp_def)
    have r: "0 \<le> f64 (of_int (rl_rate l))" "f64 (of_int (rl_rate l)) \<le> of_int (rl_rate l) * (1 + ulp)"
      using rate f64_nonneg f64_le_mult by (auto simp: ulp_def)
    have p: "0 \<le> Seconds d * f64 (of_int (rl_rate l))" using s r by simp
    then show "0 \<le> c" unfolding c_def by (rule f64_nonneg)
    have "Seconds d * f64 (of_int (rl_rate l))
          \<le> of_int d / 1000000000 * (1 + ulp) ^ 2 * (of_int (rl_rate l) * (1 + ulp))"
      using s r d(1) u by (intro mult_mono) auto
    then have "Seconds d * f64 (of_int (rl_rate l)) * (1 + ulp)
          \<le> of_int d / 1000000000 * (1 + ulp) ^ 2 * (of_int (rl_rate l) * (1 + ulp)) * (1 + ulp)"
      using u(2) by (rule mult_right_mono)
    moreover have "\<dots> = ?dr * (1 + ulp) ^ 4"
      by (simp add: power2_eq_square power4_eq_xxxx)
    ultimately show "c \<le> ?dr * (1 + ulp) ^ 4"
      using f64_le_mult [OF p] unfolding c_def ulp_def by linarith
  qed
  have sum: "f64 (rl_tokens l + c) \<le> rl_tokens l + ?dr * slack + ulp * of_int (rl_burst l)"
  proof -
    have "f64 (rl_tokens l + c) \<le> (rl_tokens l + c) * (1 + ulp)"
      using f64_le_mult [of "rl_tokens l + c"] tok(1) c(1) by (simp add: ulp_def)
    also have "\<dots> = rl_tokens l + c * (1 + ulp) + ulp * rl_tokens l" by (simp add: algebra_simps)
    also have "\<dots> \<le> rl_tokens l + ?dr * (1 + ulp) ^ 4 * (1 + ulp) + ulp * of_int (rl_burst l)"
      using c(2) u tok by (intro add_mono mult_right_mono mult_left_mono) auto
    finally show ?thesis by (simp add: slack_def eval_nat_numeral mult.assoc)
  qed
  have slack: "0 \<le> slack" by (simp add: slack_def ulp_def)
  show "last_time (refill now l) \<le> now" "last_time l \<le> last_time (refill now l)"
    using assms(2) t0 by (auto simp: refill_def Let_def last_time_def)
  show "rl_tokens (refill now l) \<le> rl_tokens l
           + of_int (rl_rate l) * of_int (last_time (refill now l) - last_time l) / 1000000000 * slack
           + ulp * of_int (rl_burst l)"
  proof (cases "Seconds d > 0")
    case True
    have "?dr * slack \<le> of_int (rl_rate l) * of_int (now - t0) / 1000000000 * slack"
      using d(2) rate slack by (intro mult_right_mono divide_right_mono mult_left_mono) auto
    then show ?thesis
      using True t0 sum by (auto simp: refill_def Let_def last_time_def d_def [symmetric] c_def [symmetric])
  next
    case False
    then have "refill now l = l" using t0 by (simp add: refill_def Let_def d_def)
    then show ?thesis using u burst by simp
  qed
qed

text \<open>A sequence of calls, each with its clock reading and packet size; the bytes of
  the packets that pass are counted.\<close>

fun allow_run :: "RateLimiter \<Rightarrow> (int \<times> int) list \<Rightarrow> RateLimiter \<times> int" where
  "allow_run l [] = (l, 0)"
| "allow_run l ((now, n) # calls) =
     (let (l1, r) = Allow now n l; (l2, g) = allow_run l1 calls
      in (l2, (if r = Inr True then n else 0) + g))"

fun clocked :: "int \<Rightarrow> (int \<times> int) list \<Rightarrow> bool" where
  "clocked t [] = True"
| "clocked t ((now, n) # calls) = (t \<le> now \<and> 0 < n \<and> n \<le> maxWriteChunk \<and> clocked now calls)"

fun end_time :: "int \<Rightarrow> (int \<times> int) list \<Rightarrow> int" where
  "end_time t [] = t"
| "end_time t ((now, n) # calls) = end_time now calls"

lemma allow_same:
  "rl_rate (fst (allow now n l)) = rl_rate l" "rl_burst (fst (allow now n l)) = rl_burst l"
  "rl_disabled (fst (allow now n l)) = rl_disabled l" "rl_closed (fst (allow now n l)) = rl_closed l"
  by (auto simp: allow_def Let_def)

lemma allow_live [go_inv]: "live l \<Longrightarrow> live (fst (allow now n l))"
  by (simp add: live_def allow_ok allow_nonneg allow_same)

lemma allow_step_bound:
  assumes "live l" "last_time l \<le> now" "0 < n" "n \<le> maxWriteChunk"
  shows "rl_tokens (fst (allow now n l)) + (if snd (allow now n l) = Inr True then of_int n else 0)
           \<le> rl_tokens l
             + of_int (rl_rate l) * of_int (last_time (fst (allow now n l)) - last_time l) / 1000000000 * slack
             + 2 * ulp * of_int (rl_burst l)"
    and "last_time (fst (allow now n l)) \<le> now" and "last_time l \<le> last_time (fst (allow now n l))"
proof -
  define l1 where "l1 = refill now l"
  note cr = refill_credit [OF assms(1,2), folded l1_def]
  have ok1: "rl_ok l1" using assms(1) by (simp add: l1_def live_def refill_ok)
  have same: "rl_burst l1 = rl_burst l" "rl_rate l1 = rl_rate l" by (simp_all add: l1_def)
  have n: "f64 (of_int n) = (of_int n :: rat)" using assms(3,4) by (simp add: maxWriteChunk_def)
  have need: "needed n l1 = of_int n"
    using assms n rl_ok_burst [OF ok1] same by (auto simp: needed_def live_def rl_ok_def)
  have live: "\<not> rl_closed l" "\<not> rl_disabled l" "0 < rl_rate l"
    using assms(1) live_rate by (auto simp: live_def)
  have burst: "rl_tokens l1 \<le> of_int (rl_burst l)" using ok1 same by (simp add: rl_ok_def)
  have debit: "f64 (rl_tokens l1 - of_int n) \<le> rl_tokens l1 - of_int n + ulp * of_int (rl_burst l)"
    if "of_int n \<le> rl_tokens l1"
  proof -
    have "\<bar>rl_tokens l1 - of_int n\<bar> \<le> of_int (rl_burst l)"
      using that burst assms(3) by simp
    then have "\<bar>rl_tokens l1 - of_int n\<bar> / 2 ^ 53 \<le> ulp * of_int (rl_burst l)"
      by (simp add: ulp_def divide_right_mono)
    then show ?thesis using f64_upper [of "rl_tokens l1 - of_int n"] by linarith
  qed
  have ub: "0 \<le> ulp * (of_int (rl_burst l) :: rat)"
    using assms(1) by (simp add: ulp_def live_def rl_ok_def)
  have res: "allow now n l =
      (if rl_tokens l1 < of_int n then (l1, Inr False)
       else (l1\<lparr>rl_tokens := f64 (rl_tokens l1 - of_int n)\<rparr>, Inr True))"
    using live assms(3) need by (simp add: allow_def Let_def l1_def [symmetric])
  show "rl_tokens (fst (allow now n l)) + (if snd (allow now n l) = Inr True then of_int n else 0)
           \<le> rl_tokens l
             + of_int (rl_rate l) * of_int (last_time (fst (allow now n l)) - last_time l) / 1000000000 * slack
             + 2 * ulp * of_int (rl_burst l)"
    using cr(1) ub debit by (auto simp: res last_time_def)
  show "last_time (fst (allow now n l)) \<le> now" "last_time l \<le> last_time (fst (allow now n l))"
    using cr(2,3) by (auto simp: res last_time_def)
qed

lemma allow_run_bound:
  assumes "live l" "last_time l \<le> t" "clocked t calls"
  shows "rl_tokens (fst (allow_run l calls)) + of_int (snd (allow_run l calls))
           \<le> rl_tokens l
             + of_int (rl_rate l) * of_int (end_time t calls - last_time l) / 1000000000 * slack
             + 2 * ulp * of_int (rl_burst l) * of_nat (length calls)
         \<and> live (fst (allow_run l calls))"
  using assms
proof (induction calls arbitrary: l t)
  case Nil
  have "0 \<le> of_int (rl_rate l) * of_int (t - last_time l) / 1000000000 * slack"
    using Nil(2) live_rate [OF Nil(1)]
    by (intro mult_nonneg_nonneg divide_nonneg_nonneg) (auto simp: slack_def ulp_def)
  then show ?case using Nil by simp
next
  case (Cons c calls)
  obtain now n where c: "c = (now, n)" by (cases c)
  have pre: "t \<le> now" "0 < n" "n \<le> maxWriteChunk" "clocked now calls" using Cons.prems c by auto
  have lt: "last_time l \<le> now" using Cons.prems pre by simp
  define l1 where "l1 = fst (allow now n l)"
  note st = allow_step_bound [OF Cons.prems(1) lt pre(2,3), folded l1_def]
  have l1: "live l1" using Cons.prems(1) by (simp add: l1_def allow_live)
  have same: "rl_rate l1 = rl_rate l" "rl_burst l1 = rl_burst l" by (simp_all add: l1_def allow_same)
  have run: "fst (allow_run l (c # calls)) = fst (allow_run l1 calls)"
    "snd (allow_run l (c # calls))
       = (if snd (allow now n l) = Inr True then n else 0) + snd (allow_run l1 calls)"
    using pre(2) by (auto simp: c Allow_def l1_def Let_def split: prod.splits)
  note ih = Cons.IH [OF l1 st(2) pre(4)]
  let ?r = "of_int (rl_rate l) :: rat" and ?b = "of_int (rl_burst l) :: rat"
  have tele: "?r * of_int (last_time l1 - last_time l) / 1000000000 * slack
      + ?r * of_int (end_time now calls - last_time l1) / 1000000000 * slack
      = ?r * of_int (end_time now calls - last_time l) / 1000000000 * slack"
    by (simp add: algebra_simps diff_divide_distrib)
  have "rl_tokens (fst (allow_run l (c # calls))) + of_int (snd (allow_run l (c # calls)))
      \<le> rl_tokens l1 + (if snd (allow now n l) = Inr True then of_int n else 0)
        + ?r * of_int (end_time now calls - last_time l1) / 1000000000 * slack
        + 2 * ulp * ?b * of_nat (length calls)"
    using ih by (simp add: run same)
  also have "\<dots> \<le> rl_tokens l + ?r * of_int (end_time now calls - last_time l) / 1000000000 * slack
        + 2 * ulp * ?b + 2 * ulp * ?b * of_nat (length calls)"
    using st(1) tele by linarith
  finally have "rl_tokens (fst (allow_run l (c # calls))) + of_int (snd (allow_run l (c # calls)))
     \<le> rl_tokens l + ?r * of_int (end_time t (c # calls) - last_time l) / 1000000000 * slack
       + 2 * ulp * ?b * of_nat (length (c # calls))"
    by (simp add: c algebra_simps)
  then show ?case using ih by (simp add: run)
qed

section \<open>The blocking path\<close>

lemma reserve_error: "snd (reserve now n l) = Inl e \<longleftrightarrow> rl_closed l"
  by (cases e) (auto simp: reserve_def Let_def)

lemma reserve_same:
  "rl_rate (fst (reserve now n l)) = rl_rate l" "rl_burst (fst (reserve now n l)) = rl_burst l"
  "rl_disabled (fst (reserve now n l)) = rl_disabled l" "rl_closed (fst (reserve now n l)) = rl_closed l"
  by (auto simp: reserve_def Let_def)

text \<open>
  Whatever the other goroutines do short of closing the bucket, \<open>Wait\<close> comes back
  without an error, and after at most one sleep per 64 KiB.
\<close>

lemma rounds_step:
  fixes m :: int
  assumes "0 < c" "c = m \<or> maxWriteChunk \<le> c" "c \<le> m"
  shows "1 + (m - c + 65535) div 65536 \<le> (m + 65535) div 65536"
  using assms by (auto simp: maxWriteChunk_def)

lemma wait_loop_ok:
  assumes env: "\<And>k l. rl_ok l \<and> \<not> rl_closed l \<Longrightarrow> rl_ok (env k l) \<and> \<not> rl_closed (env k l)"
  shows "rl_ok l \<Longrightarrow> \<not> rl_closed l \<Longrightarrow> 0 \<le> remaining \<Longrightarrow>
         wait_loop env clock i remaining l sleeps = (l', e, ss) \<Longrightarrow>
         e = None \<and> rl_ok l' \<and> \<not> rl_closed l' \<and>
         int (length ss) \<le> int (length sleeps) + (remaining + 65535) div 65536"
proof (induction "nat remaining" arbitrary: i remaining l sleeps rule: less_induct)
  case less
  define l1 where "l1 = env (2 * i) l"
  define l2 where "l2 = env (Suc (2 * i)) l1"
  have l1: "rl_ok l1" "\<not> rl_closed l1" using env less.prems by (auto simp: l1_def)
  have l2: "rl_ok l2" "\<not> rl_closed l2" using env l1 by (auto simp: l2_def)
  show ?case
  proof (cases "remaining \<le> 0")
    case True
    then show ?thesis
      using less.prems wait_loop.simps [of env clock i remaining l sleeps] by simp
  next
    case False
    define dis where "dis \<longleftrightarrow> rl_disabled l1 \<or> rl_rate l1 \<le> 0 \<or> rl_closed l1"
    define chunk where "chunk = (if rl_burst l1 > 0 \<and> remaining > rl_burst l1 then rl_burst l1 else remaining)"
    define k where "k = (if dis then 0 else chunk)"
    obtain l3 r where r: "reserve (clock i) k l2 = (l3, r)" by (cases "reserve (clock i) k l2")
    have l3: "rl_ok l3" "\<not> rl_closed l3"
      using reserve_ok [OF l2(1), of "clock i" k] reserve_same(4) [of "clock i" k l2] l2(2) r by auto
    obtain w where w: "r = Inr w"
      using reserve_error [of "clock i" k l2] l2(2) r by (cases r) auto
    have eq: "wait_loop env clock i remaining l sleeps =
        (if dis then (l3, None, sleeps)
         else wait_loop env clock (Suc i) (remaining - chunk) l3 (if w > 0 then sleeps @ [w] else sleeps))"
      using False r w
      by (auto simp: wait_loop.simps [of env clock i remaining] Let_def k_def dis_def chunk_def
          l1_def [symmetric] l2_def [symmetric])
    show ?thesis
    proof (cases dis)
      case True
      then show ?thesis using less.prems eq l3 False by auto
    next
      case ndis: False
      have "maxWriteChunk \<le> rl_burst l1" using l1 ndis by (auto simp: dis_def rl_ok_def)
      then have ch: "0 < chunk" "chunk = remaining \<or> maxWriteChunk \<le> chunk" "chunk \<le> remaining"
        using False by (auto simp: chunk_def maxWriteChunk_def)
      have "e = None \<and> rl_ok l' \<and> \<not> rl_closed l' \<and>
         int (length ss) \<le> int (length (if w > 0 then sleeps @ [w] else sleeps)) + (remaining - chunk + 65535) div 65536"
        using less.prems(4) eq ndis ch False
        by (intro less.hyps [where i = "Suc i" and l = l3 and remaining = "remaining - chunk"]) (auto simp: l3)
      then show ?thesis using rounds_step [OF ch] by (auto split: if_splits)
    qed
  qed
qed

lemma Wait_closed: "rl_closed l \<Longrightarrow> 0 < n \<Longrightarrow> fst (snd (Wait (\<lambda>_ x. x) clock n l)) = Some ErrLimiterClosed"
  by (simp add: Wait_def wait_loop.simps [of _ clock] reserve_def Let_def)

lemma SetRate_zero_live:
  "\<not> rl_closed l \<Longrightarrow> snd (Allow t n (SetRate now 0 l)) = Inr True
     \<and> fst (Allow t n (SetRate now 0 l)) = SetRate now 0 l"
  by (simp add: Allow_def allow_def SetRate_def Let_def)

section \<open>Properties\<close>


lemma new_limiter_live: "0 < bps \<Longrightarrow> live (NewRateLimiter now bps) \<and> last_time (NewRateLimiter now bps) = now"
  using NewRateLimiter_ok [of now bps]
  by (auto simp: live_def last_time_def NewRateLimiter_def SetRate_def Let_def)


text \<open>
  C8: \<open>Wait\<close> always returns, without an error and after at most one sleep for every
  64 KiB asked for (rounded up), whatever other goroutines do to the bucket between
  its critical sections, as long as they keep it well formed and do not close it.
\<close>

theorem wait_returns:
  assumes "rl_ok l" and "\<not> rl_closed l"
    and "\<forall>k l. rl_ok l \<and> \<not> rl_closed l \<longrightarrow> rl_ok (env k l) \<and> \<not> rl_closed (env k l)"
  shows "\<exists>l' sleeps. Wait env clock n l = (l', None, sleeps) \<and> rl_ok l' \<and> \<not> rl_closed l' \<and>
           int (length sleeps) \<le> (max n 0 + 65535) div 65536"
proof (cases "n \<le> 0")
  case True
  then show ?thesis using assms by (simp add: Wait_def)
next
  case False
  obtain l' e ss where r: "wait_loop env clock 0 n l [] = (l', e, ss)" by (metis prod_cases3)
  have "e = None \<and> rl_ok l' \<and> \<not> rl_closed l' \<and> int (length ss) \<le> (n + 65535) div 65536"
    using wait_loop_ok [OF _ assms(1,2) _ r] assms(3) False by simp
  then show ?thesis using False r by (simp add: Wait_def)
qed

theorem wait_returns_witness:
  "\<exists>l' sleeps. Wait (\<lambda>k. SetRate 7 (if k = 3 then 0 else 2000000)) (\<lambda>_. 5) 200000 (NewRateLimiter 0 1000000)
     = (l', None, sleeps) \<and> rl_ok l' \<and> \<not> rl_closed l' \<and> int (length sleeps) \<le> (max 200000 0 + 65535) div 65536"
  by (rule wait_returns)
    (auto simp: NewRateLimiter_ok SetRate_ok, auto simp: NewRateLimiter_def SetRate_def Let_def)

text \<open>
  C9: Every operation of the limiter keeps it well formed: the tokens never exceed
  the burst, a burst is at least one 64 KiB chunk whenever limiting is on, and a
  closed limiter stays disabled until a positive rate is set.
\<close>

theorem limiter_invariant:
  assumes "rl_ok l"
  shows "rl_ok (NewRateLimiter now bps) \<and> rl_ok (SetRate now bps l) \<and> rl_ok (Close_limiter l) \<and>
         rl_ok (fst (Allow now n l)) \<and> rl_ok (fst (allow now n l)) \<and> rl_ok (fst (reserve now n l))"
  using assms by (simp add: go_inv Allow_def)

theorem limiter_invariant_witness:
  "rl_ok (NewRateLimiter 3 8000000) \<and> rl_ok (SetRate 3 8000000 (NewRateLimiter 0 1000)) \<and>
   rl_ok (Close_limiter (NewRateLimiter 0 1000)) \<and> rl_ok (fst (Allow 3 1400 (NewRateLimiter 0 1000))) \<and>
   rl_ok (fst (allow 3 1400 (NewRateLimiter 0 1000))) \<and> rl_ok (fst (reserve 3 1400 (NewRateLimiter 0 1000)))"
  by (rule limiter_invariant) (rule NewRateLimiter_ok)

text \<open>
  Closing a limiter makes every later request for bytes fail with
  \<open>ErrLimiterClosed\<close>, on the packet path and on the blocking path. Setting the rate to
  zero does not: an open limiter then grants everything and spends nothing.
\<close>

theorem close_and_disable:
  assumes "0 < n" and "\<not> rl_closed l"
  shows "snd (Allow now n (Close_limiter l)) = Inl ErrLimiterClosed \<and>
         fst (snd (Wait (\<lambda>_ x. x) clock n (Close_limiter l))) = Some ErrLimiterClosed \<and>
         Allow t n (SetRate now 0 l) = (SetRate now 0 l, Inr True) \<and>
         Wait (\<lambda>_ x. x) clock n (SetRate now 0 l) = (SetRate now 0 l, None, [])"
proof -
  have "rl_closed (Close_limiter l)" by (simp add: Close_limiter_def)
  moreover have "Wait (\<lambda>_ x. x) clock n (SetRate now 0 l) = (SetRate now 0 l, None, [])"
    using assms by (simp add: Wait_def wait_loop.simps reserve_def SetRate_def Let_def)
  ultimately show ?thesis
    using assms SetRate_zero_live [of l t n now] Wait_closed [of "Close_limiter l" n clock]
    by (simp add: Allow_def allow_def prod_eq_iff)
qed

theorem close_and_disable_witness:
  "snd (Allow 9 1400 (Close_limiter (NewRateLimiter 0 1000))) = Inl ErrLimiterClosed \<and>
   fst (snd (Wait (\<lambda>_ x. x) (\<lambda>_. 4) 1400 (Close_limiter (NewRateLimiter 0 1000)))) = Some ErrLimiterClosed \<and>
   Allow 10 1400 (SetRate 9 0 (NewRateLimiter 0 1000)) = (SetRate 9 0 (NewRateLimiter 0 1000), Inr True) \<and>
   Wait (\<lambda>_ x. x) (\<lambda>_. 4) 1400 (SetRate 9 0 (NewRateLimiter 0 1000)) = (SetRate 9 0 (NewRateLimiter 0 1000), None, [])"
  by (rule close_and_disable) (simp_all add: NewRateLimiter_def SetRate_def Let_def)

end
