(* ===== verification/User_Manager.thy ===== *)
theory User_Manager
  imports Inbound_Users Capabilities Rate_Limit
begin

text \<open>
  The agent's \<open>UserManager\<close> (\<^verbatim>\<open>cmd/mini-sb-agent/user_manager.go\<close>): user snapshots for
  every inbound, the table from secrets to user numbers and one pair of rate limiters
  for every active user. Limiter pairs live in a store and are shared by address, since
  live connections keep the pointers they were given.

  The lemmas show that applying users gives every inbound exactly the credentials of
  its own list, that a pair of limiters stays at its address as long as its user stays
  active and is closed when the user goes, and what resolving a secret gives.
\<close>

section \<open>Limiter pairs\<close>

record limiterPair =
  lp_rx :: RateLimiter
  lp_tx :: RateLimiter

definition newLimiterPair :: "int \<Rightarrow> int \<Rightarrow> limiterPair" where
  "newLimiterPair now bps = \<lparr>lp_rx = NewRateLimiter now bps, lp_tx = NewRateLimiter now bps\<rparr>"

definition pair_SetRate :: "int \<Rightarrow> int \<Rightarrow> limiterPair \<Rightarrow> limiterPair" where
  "pair_SetRate now bps p = p\<lparr>lp_rx := SetRate now bps (lp_rx p), lp_tx := SetRate now bps (lp_tx p)\<rparr>"

definition pair_Close :: "limiterPair \<Rightarrow> limiterPair" where
  "pair_Close p = p\<lparr>lp_rx := Close_limiter (lp_rx p), lp_tx := Close_limiter (lp_tx p)\<rparr>"

section \<open>The manager\<close>

record UserManager =
  um_users :: "(int, User) gomap"
  um_bySecret :: "(string, int) gomap"
  um_byInbound :: "(string, (int, User) gomap) gomap"
  um_nodeLimit :: "nat option"
  um_limiters :: "(int, nat) gomap"
  um_next :: nat
  um_pairs :: "nat \<Rightarrow> limiterPair"

definition mbpsToBytes :: "int \<Rightarrow> int" where
  "mbpsToBytes mbps = (if mbps \<le> 0 then 0 else quot64 (mul64 (mul64 mbps 1000) 1000) 8)"

definition NewUserManager :: "int \<Rightarrow> int \<Rightarrow> UserManager" where
  "NewUserManager now nodeMbps =
     \<lparr>um_users = [], um_bySecret = [], um_byInbound = [],
      um_nodeLimit = (if nodeMbps > 0 then Some 0 else None), um_limiters = [],
      um_next = (if nodeMbps > 0 then 1 else 0),
      um_pairs = (\<lambda>_. newLimiterPair now (mbpsToBytes nodeMbps))\<rparr>"

definition put_secret :: "int \<Rightarrow> string \<Rightarrow> (string, int) gomap \<Rightarrow> (string, int) gomap" where
  "put_secret i s out = (if s \<noteq> [] then mput s i out else out)"

definition secretsFrom :: "(int, User) gomap \<Rightarrow> (string, int) gomap" where
  "secretsFrom users =
     fold (\<lambda>(i, u) out. fold (put_secret i) [u_UUID u, u_Password u, u_Name u] out) users []"

definition closeLimiterLocked :: "int \<Rightarrow> UserManager \<Rightarrow> UserManager" where
  "closeLimiterLocked i m =
     (case mget (um_limiters m) i of
        None \<Rightarrow> m
      | Some a \<Rightarrow> m\<lparr>um_pairs := (um_pairs m)(a := pair_Close (um_pairs m a)),
                    um_limiters := mdel i (um_limiters m)\<rparr>)"

definition updateLimiterLocked :: "tags \<Rightarrow> int \<Rightarrow> User \<Rightarrow> UserManager \<Rightarrow> UserManager" where
  "updateLimiterLocked b now u m =
     (if \<not> userRateLimitBuildEnabled b then m
      else let bps = mbpsToBytes (u_SpeedLimit u) in
        case mget (um_limiters m) (u_ID u) of
          Some a \<Rightarrow> m\<lparr>um_pairs := (um_pairs m)(a := pair_SetRate now bps (um_pairs m a))\<rparr>
        | None \<Rightarrow> m\<lparr>um_pairs := (um_pairs m)(um_next m := newLimiterPair now bps),
                    um_limiters := mput (u_ID u) (um_next m) (um_limiters m), um_next := Suc (um_next m)\<rparr>)"

text \<open>The two loops over the limiters that \<open>ApplyBoxByInbound\<close> and \<open>applyGlobal\<close> share:
  close those whose user is gone, then update or create one for every user.\<close>

definition refresh_limiters :: "tags \<Rightarrow> int \<Rightarrow> (int, User) gomap \<Rightarrow> UserManager \<Rightarrow> UserManager" where
  "refresh_limiters b now users m =
     fold (\<lambda>(_, u). updateLimiterLocked b now u) users
       (fold closeLimiterLocked (filter (\<lambda>i. \<not> mhas users i) (map fst (um_limiters m))) m)"

definition applyGlobal :: "tags \<Rightarrow> int \<Rightarrow> User list \<Rightarrow> UserManager \<Rightarrow> UserManager" where
  "applyGlobal b now users m =
     (let nxt = usersByID users
      in (refresh_limiters b now nxt m)\<lparr>um_users := nxt, um_bySecret := secretsFrom nxt\<rparr>)"

text \<open>The functions that a build without the protocol has in place of the real ones do
  nothing and say that the inbound is not theirs.\<close>

definition applyVLESSUsers_build :: "tags \<Rightarrow> inbound \<Rightarrow> User list \<Rightarrow> (int, User) gomap \<Rightarrow> inbound \<times> bool" where
  "applyVLESSUsers_build b raw users old =
     (if vlessBuildEnabled b then applyVLESSUsers raw users old else (raw, False))"

definition applyHysteria2Users_build :: "tags \<Rightarrow> inbound \<Rightarrow> User list \<Rightarrow> (int, User) gomap \<Rightarrow> inbound \<times> bool" where
  "applyHysteria2Users_build b raw users old =
     (if hysteria2BuildEnabled b then applyHysteria2Users raw users old else (raw, False))"

definition apply_inbound :: "tags \<Rightarrow> (string, (int, User) gomap) gomap \<Rightarrow> (string, User list) gomap \<Rightarrow> string \<Rightarrow> inbound \<Rightarrow> inbound" where
  "apply_inbound b byInbound usersByInbound tag raw =
     (let nxt = mget0 [] usersByInbound tag; old = mget0 [] byInbound tag;
          (raw', handled) = applyVLESSUsers_build b raw nxt old
      in if handled then raw' else fst (applyHysteria2Users_build b raw' nxt old))"

text \<open>The union of the snapshots: for a user that several inbounds have, the one of the
  inbound that is visited last.\<close>

definition union_users :: "(string, User list) gomap \<Rightarrow> (int, User) gomap" where
  "union_users usersByInbound =
     fold (\<lambda>(_, users) m. fold (\<lambda>(i, u). mput i u) (usersByID users) m) usersByInbound []"

type_synonym inbounds = "(string, inbound) gomap"

definition ApplyBoxByInbound ::
  "tags \<Rightarrow> int \<Rightarrow> inbounds \<Rightarrow> (string, User list) gomap \<Rightarrow> UserManager \<Rightarrow> inbounds \<times> UserManager" where
  "ApplyBoxByInbound b now ins usersByInbound m =
     (let union = union_users usersByInbound;
          m1 = m\<lparr>um_byInbound := mmap (\<lambda>_. usersByID) usersByInbound, um_users := union,
                 um_bySecret := secretsFrom union\<rparr>
      in (mmap (apply_inbound b (um_byInbound m) usersByInbound) ins, refresh_limiters b now union m1))"

definition ApplyBox :: "tags \<Rightarrow> int \<Rightarrow> inbounds \<Rightarrow> User list \<Rightarrow> UserManager \<Rightarrow> inbounds \<times> UserManager" where
  "ApplyBox b now ins users m =
     (if ins = [] then (ins, applyGlobal b now users m)
      else ApplyBoxByInbound b now ins (mmap (\<lambda>_ _. users) ins) m)"

definition Resolve :: "string \<Rightarrow> UserManager \<Rightarrow> string" where
  "Resolve user m =
     (if user = [] then [] else case mget (um_bySecret m) user of Some i \<Rightarrow> Itoa i | None \<Rightarrow> user)"

definition ActiveIDs :: "UserManager \<Rightarrow> (string, unit) gomap" where
  "ActiveIDs m = fold (\<lambda>(i, _). mput (Itoa i) ()) (um_users m) []"

definition InboundSnapshot :: "string \<Rightarrow> UserManager \<Rightarrow> (int, User) gomap" where
  "InboundSnapshot tag m = mget0 [] (um_byInbound m) tag"

text \<open>A limiter is named by the address of its pair; the direction is fixed by the position
  in the result: read and write for the node, read and write for the user.\<close>

definition user_pair :: "tags \<Rightarrow> string \<Rightarrow> UserManager \<Rightarrow> nat option" where
  "user_pair b user m =
     (if userRateLimitBuildEnabled b
      then (case mget (um_bySecret m) user of Some i \<Rightarrow> mget (um_limiters m) i | None \<Rightarrow> None)
      else None)"

definition DirectionalLimiters :: "tags \<Rightarrow> string \<Rightarrow> UserManager \<Rightarrow> nat option \<times> nat option \<times> nat option \<times> nat option" where
  "DirectionalLimiters b user m =
     (um_nodeLimit m, um_nodeLimit m, user_pair b user m, user_pair b user m)"

definition Limiters :: "tags \<Rightarrow> string \<Rightarrow> UserManager \<Rightarrow> RateLimiter option \<times> RateLimiter option" where
  "Limiters b user m =
     (map_option (\<lambda>a. lp_rx (um_pairs m a)) (um_nodeLimit m),
      map_option (\<lambda>a. lp_rx (um_pairs m a)) (user_pair b user m))"

section \<open>Limiters\<close>

definition pair_ok :: "limiterPair \<Rightarrow> bool" where
  "pair_ok p \<longleftrightarrow> rl_ok (lp_rx p) \<and> rl_ok (lp_tx p)"

definition limiters_ok :: "UserManager \<Rightarrow> bool" where
  "limiters_ok m \<longleftrightarrow> wf_map (um_limiters m) \<and>
     (\<forall>i a. mget (um_limiters m) i = Some a \<longrightarrow> a < um_next m \<and> um_nodeLimit m \<noteq> Some a) \<and>
     (\<forall>i j a. mget (um_limiters m) i = Some a \<longrightarrow> mget (um_limiters m) j = Some a \<longrightarrow> i = j) \<and>
     (\<forall>a. um_nodeLimit m = Some a \<longrightarrow> a < um_next m) \<and> (\<forall>a. pair_ok (um_pairs m a))"

lemma pair_ok_ops [go_inv]:
  "pair_ok (newLimiterPair now bps)" "pair_ok p \<Longrightarrow> pair_ok (pair_SetRate now bps p)" "pair_ok p \<Longrightarrow> pair_ok (pair_Close p)"
  by (simp_all add: pair_ok_def newLimiterPair_def pair_SetRate_def pair_Close_def go_inv)

lemma NewUserManager_ok [go_inv]: "limiters_ok (NewUserManager now mbps)"
  by (simp add: limiters_ok_def NewUserManager_def pair_ok_ops)

lemma closeLimiterLocked_ok [go_inv]: "limiters_ok m \<Longrightarrow> limiters_ok (closeLimiterLocked i m)"
  unfolding limiters_ok_def closeLimiterLocked_def
  by (auto simp: pair_ok_ops split: option.splits)

lemma updateLimiterLocked_ok [go_inv]: "limiters_ok m \<Longrightarrow> limiters_ok (updateLimiterLocked b now u m)"
  unfolding limiters_ok_def updateLimiterLocked_def Let_def
  by (auto simp: pair_ok_ops less_Suc_eq split: option.splits if_splits)

lemma limiters_inj: "limiters_ok m \<Longrightarrow> mget (um_limiters m) i = Some a \<Longrightarrow> mget (um_limiters m) j = Some a \<Longrightarrow> i = j"
  unfolding limiters_ok_def by blast

lemma limiters_bound: "limiters_ok m \<Longrightarrow> mget (um_limiters m) i = Some a \<Longrightarrow> a < um_next m"
  unfolding limiters_ok_def by blast

lemma close_fields [simp]:
  "um_next (closeLimiterLocked i m) = um_next m" "um_nodeLimit (closeLimiterLocked i m) = um_nodeLimit m"
  "mget (um_limiters (closeLimiterLocked i m)) j = (if j = i then None else mget (um_limiters m) j)"
  "um_pairs (closeLimiterLocked i m) a =
     (if mget (um_limiters m) i = Some a then pair_Close (um_pairs m a) else um_pairs m a)"
  by (auto simp: closeLimiterLocked_def split: option.splits)

lemma fold_close:
  assumes "limiters_ok m" "distinct is"
  defines "m' \<equiv> fold closeLimiterLocked is m"
  shows "limiters_ok m' \<and> um_next m' = um_next m \<and> um_nodeLimit m' = um_nodeLimit m \<and>
    (\<forall>j. mget (um_limiters m') j = (if j \<in> set is then None else mget (um_limiters m) j)) \<and>
    (\<forall>a. um_pairs m' a =
       (if \<exists>i \<in> set is. mget (um_limiters m) i = Some a then pair_Close (um_pairs m a) else um_pairs m a))"
  using assms(1,2) unfolding m'_def
proof (induction "is" arbitrary: m)
  case (Cons i js)
  have ok: "limiters_ok (closeLimiterLocked i m)" by (rule closeLimiterLocked_ok [OF Cons.prems(1)])
  note ih = Cons.IH [OF ok]
  have dj: "distinct js" "i \<notin> set js" using Cons.prems(2) by simp_all
  have "(\<exists>j \<in> set js. mget (um_limiters (closeLimiterLocked i m)) j = Some a) \<longleftrightarrow>
      (\<exists>j \<in> set js. mget (um_limiters m) j = Some a)" for a using dj(2) by auto
  then show ?case
    using ih dj limiters_inj [OF Cons.prems(1)] by (auto split: if_splits) (metis limiters_inj [OF Cons.prems(1)])+
qed simp

text \<open>What updating the limiters of a list of users does to each of them.\<close>

definition updated :: "int \<Rightarrow> UserManager \<Rightarrow> UserManager \<Rightarrow> int \<Rightarrow> User \<Rightarrow> bool" where
  "updated now m m' i u =
     (case mget (um_limiters m) i of
        Some a \<Rightarrow> mget (um_limiters m') i = Some a \<and>
                  um_pairs m' a = pair_SetRate now (mbpsToBytes (u_SpeedLimit u)) (um_pairs m a)
      | None \<Rightarrow> \<exists>a. um_next m \<le> a \<and> mget (um_limiters m') i = Some a \<and>
                  um_pairs m' a = newLimiterPair now (mbpsToBytes (u_SpeedLimit u)))"

definition update_frame :: "UserManager \<Rightarrow> UserManager \<Rightarrow> int set \<Rightarrow> bool" where
  "update_frame m m' ks \<longleftrightarrow> limiters_ok m' \<and> um_next m \<le> um_next m' \<and> um_nodeLimit m' = um_nodeLimit m \<and>
     (\<forall>j. j \<notin> ks \<longrightarrow> mget (um_limiters m') j = mget (um_limiters m) j) \<and>
     (\<forall>a. a < um_next m \<longrightarrow> (\<forall>i \<in> ks. mget (um_limiters m) i \<noteq> Some a) \<longrightarrow> um_pairs m' a = um_pairs m a)"

lemma update_one:
  assumes "userRateLimitBuildEnabled b" "limiters_ok m"
  shows "update_frame m (updateLimiterLocked b now u m) {u_ID u} \<and> updated now m (updateLimiterLocked b now u m) (u_ID u) u"
  using assms updateLimiterLocked_ok [OF assms(2), of b now u]
  by (cases "mget (um_limiters m) (u_ID u)")
    (auto simp: update_frame_def updated_def updateLimiterLocked_def Let_def)

lemma frame_trans:
  assumes ok: "limiters_ok m" and f1: "update_frame m m1 {i}" and f2: "update_frame m1 m2 ks" and new: "i \<notin> ks" and u1: "updated now m m1 i u"
  shows "update_frame m m2 (insert i ks)" and "updated now m m2 i u"
    and "\<forall>j \<in> ks. updated now m1 m2 j (v j) \<longrightarrow> updated now m m2 j (v j)"
proof -
  have ok1: "limiters_ok m1" using f1 by (simp add: update_frame_def)
  show "update_frame m m2 (insert i ks)"
    using f1 f2 new unfolding update_frame_def by simp (metis less_le_trans)
  have keep: "mget (um_limiters m2) i = mget (um_limiters m1) i" using f2 new by (simp add: update_frame_def)
  have pairs: "um_pairs m2 a = um_pairs m1 a" if "mget (um_limiters m1) i = Some a" for a
  proof -
    have "\<forall>j \<in> ks. mget (um_limiters m1) j \<noteq> Some a" using limiters_inj [OF ok1 that] new by blast
    then show ?thesis using f2 limiters_bound [OF ok1 that] unfolding update_frame_def by blast
  qed
  show "updated now m m2 i u"
    using u1 keep pairs by (auto simp: updated_def split: option.splits)
  show "\<forall>j \<in> ks. updated now m1 m2 j (v j) \<longrightarrow> updated now m m2 j (v j)"
  proof (intro ballI impI)
    fix j
    assume j: "j \<in> ks" "updated now m1 m2 j (v j)"
    then have ji: "j \<noteq> i" using new by auto
    then have lim: "mget (um_limiters m1) j = mget (um_limiters m) j" using f1 by (simp add: update_frame_def)
    show "updated now m m2 j (v j)"
    proof (cases "mget (um_limiters m) j")
      case None
      then show ?thesis using j(2) lim f1 by (auto simp: updated_def update_frame_def intro: order_trans)
    next
      case (Some a)
      have "mget (um_limiters m) i \<noteq> Some a" using limiters_inj [OF ok Some, of i] ji by auto
      then have "um_pairs m1 a = um_pairs m a"
        using f1 limiters_bound [OF ok Some] by (simp add: update_frame_def)
      then show ?thesis using j(2) lim Some by (simp add: updated_def)
    qed
  qed
qed

lemma fold_update:
  assumes "userRateLimitBuildEnabled b" "limiters_ok m" "wf_map us" "\<forall>(i, u) \<in> set us. u_ID u = i"
  shows "update_frame m (fold (\<lambda>(_, u). updateLimiterLocked b now u) us m) (fst ` set us) \<and>
    (\<forall>i u. mget us i = Some u \<longrightarrow> updated now m (fold (\<lambda>(_, u). updateLimiterLocked b now u) us m) i u)"
  using assms(2-4)
proof (induction us arbitrary: m)
  case Nil
  then show ?case by (simp add: update_frame_def)
next
  case (Cons p us)
  obtain i u where p: "p = (i, u)" by (cases p)
  have iu: "u_ID u = i" and i: "i \<notin> fst ` set us" and us: "wf_map us" "\<forall>(i, u) \<in> set us. u_ID u = i"
    using Cons.prems p by auto
  define m1 where "m1 = updateLimiterLocked b now u m"
  define m2 where "m2 = fold (\<lambda>(_, u). updateLimiterLocked b now u) us m1"
  have one: "update_frame m m1 {i}" "updated now m m1 i u"
    using update_one [OF assms(1) Cons.prems(1), of now u] by (simp_all add: m1_def iu)
  have ok1: "limiters_ok m1" using one(1) by (simp add: update_frame_def)
  have ih: "update_frame m1 m2 (fst ` set us)" "\<And>j v. mget us j = Some v \<Longrightarrow> updated now m1 m2 j v"
    using Cons.IH [OF ok1 us] by (simp_all add: m2_def)
  note ft = frame_trans [OF Cons.prems(1) one(1) ih(1) i one(2)]
  have "updated now m m2 j v" if "mget us j = Some v" for j v
    using ft(3) [where v = "\<lambda>_. v"] ih(2) [OF that] that by (force dest: map_of_SomeD)
  then show ?case using ft(1,2) by (auto simp: p m1_def [symmetric] m2_def [symmetric])
qed

lemma refresh_limiters_spec:
  fixes now :: int
  assumes b: "userRateLimitBuildEnabled b" and ok: "limiters_ok m" and k: "keyed us"
  defines "m' \<equiv> refresh_limiters b now us m"
  shows "limiters_ok m' \<and> um_nodeLimit m' = um_nodeLimit m \<and>
    (\<forall>a. um_nodeLimit m = Some a \<longrightarrow> um_pairs m' a = um_pairs m a) \<and>
    (\<forall>i u. mget us i = Some u \<longrightarrow> updated now m m' i u) \<and>
    (\<forall>i. mget us i = None \<longrightarrow> mget (um_limiters m') i = None) \<and>
    (\<forall>i a. mget us i = None \<longrightarrow> mget (um_limiters m) i = Some a \<longrightarrow> um_pairs m' a = pair_Close (um_pairs m a))"
proof -
  define gone where "gone = filter (\<lambda>i. \<not> mhas us i) (map fst (um_limiters m))"
  define m1 where "m1 = fold closeLimiterLocked gone m"
  have dg: "distinct gone" using ok by (simp add: gone_def limiters_ok_def)
  have in_gone: "i \<in> set gone \<longleftrightarrow> mget us i = None \<and> mget (um_limiters m) i \<noteq> None" for i
    by (auto simp: gone_def mhas_def simp flip: mhas_iff [unfolded mhas_def])
  have c: "limiters_ok m1" "um_next m1 = um_next m" "um_nodeLimit m1 = um_nodeLimit m"
    "\<And>j. mget (um_limiters m1) j = (if j \<in> set gone then None else mget (um_limiters m) j)"
    "\<And>a. um_pairs m1 a = (if \<exists>i \<in> set gone. mget (um_limiters m) i = Some a then pair_Close (um_pairs m a) else um_pairs m a)"
    using fold_close [OF ok dg] unfolding m1_def by blast+
  have us: "wf_map us" "\<forall>(i, u) \<in> set us. u_ID u = i" using k by (auto simp: keyed_def mget_in_set)
  have m': "m' = fold (\<lambda>(_, u). updateLimiterLocked b now u) us m1"
    by (simp add: m'_def refresh_limiters_def m1_def gone_def)
  have f: "update_frame m1 m' (fst ` set us)" and up: "\<And>i u. mget us i = Some u \<Longrightarrow> updated now m1 m' i u"
    using fold_update [OF b c(1) us, of now] by (simp_all add: m')
  have keys: "i \<in> fst ` set us \<longleftrightarrow> mget us i \<noteq> None" for i by (simp add: map_of_eq_None_iff)
  have node: "um_pairs m' a = um_pairs m a" if "um_nodeLimit m = Some a" for a
  proof -
    have n: "mget (um_limiters m) i \<noteq> Some a" "a < um_next m" for i using ok that unfolding limiters_ok_def by blast+
    then have "um_pairs m1 a = um_pairs m a" by (simp add: c(5))
    then show ?thesis using f n by (simp add: update_frame_def c(2,4))
  qed
  have upd: "updated now m m' i u" if "mget us i = Some u" for i u
  proof -
    have lim: "mget (um_limiters m1) i = mget (um_limiters m) i" using that by (simp add: c(4) in_gone)
    have "um_pairs m1 a = um_pairs m a" if "mget (um_limiters m) i = Some a" for a
      using limiters_inj [OF ok that] \<open>mget us i = Some u\<close> by (auto simp: c(5) in_gone)
    then show ?thesis using up [OF that] lim c(2) by (auto simp: updated_def split: option.splits)
  qed
  have absent: "mget (um_limiters m') i = None" if "mget us i = None" for i
    using f that keys [of i] by (simp add: update_frame_def c(4) in_gone)
  have closed: "um_pairs m' a = pair_Close (um_pairs m a)"
    if "mget us i = None" "mget (um_limiters m) i = Some a" for i a
  proof -
    have "um_pairs m1 a = pair_Close (um_pairs m a)" using that by (auto simp: c(5) in_gone)
    moreover have "mget (um_limiters m1) j \<noteq> Some a" for j
      using limiters_inj [OF ok that(2), of j] that by (auto simp: c(4) in_gone)
    ultimately show ?thesis using f limiters_bound [OF ok that(2)] by (simp add: update_frame_def c(2))
  qed
  have "limiters_ok m'" "um_nodeLimit m' = um_nodeLimit m" using f c(3) by (simp_all add: update_frame_def)
  then show ?thesis using node upd absent closed by blast
qed

section \<open>Inbounds\<close>

definition inbound_ok :: "(int, User) gomap \<Rightarrow> inbound \<Rightarrow> bool" where
  "inbound_ok us raw = (case raw of VLESS_in h \<Rightarrow> vless_ok us h | HY2_in h \<Rightarrow> hy2_ok us h | Other_in \<Rightarrow> True)"

definition unshared_users :: "(int, User) gomap \<Rightarrow> bool" where
  "unshared_users us \<longleftrightarrow> unshared u_UUID us \<and> unshared u_Password us"

text \<open>Every live inbound holds the credentials of the manager's snapshot for its tag.\<close>

definition system_ok :: "inbounds \<Rightarrow> UserManager \<Rightarrow> bool" where
  "system_ok ins m \<longleftrightarrow> wf_map ins \<and>
     (\<forall>tag raw. mget ins tag = Some raw \<longrightarrow>
        keyed (InboundSnapshot tag m) \<and> unshared_users (InboundSnapshot tag m) \<and> inbound_ok (InboundSnapshot tag m) raw)"

lemma apply_inbound_ok:
  assumes b: "vlessBuildEnabled b" "hysteria2BuildEnabled b"
    and old: "keyed (mget0 [] old tag)" "unshared_users (mget0 [] old tag)" "inbound_ok (mget0 [] old tag) raw"
    and new: "unshared_users (usersByID (mget0 [] ubi tag))"
  shows "inbound_ok (usersByID (mget0 [] ubi tag)) (apply_inbound b old ubi tag raw)"
proof (cases raw)
  case (VLESS_in h)
  then show ?thesis
    using applyVLESSUsers_ok [of "mget0 [] old tag" h "mget0 [] ubi tag"] old b
    by (auto simp: apply_inbound_def applyVLESSUsers_build_def inbound_ok_def unshared_users_def)
next
  case (HY2_in h)
  then show ?thesis
    using applyHysteria2Users_ok [of "mget0 [] old tag" h "mget0 [] ubi tag"] old new b
    by (auto simp: apply_inbound_def applyVLESSUsers_build_def applyHysteria2Users_build_def applyVLESSUsers_def
        inbound_ok_def unshared_users_def)
next
  case Other_in
  then show ?thesis
    by (simp add: apply_inbound_def applyVLESSUsers_build_def applyHysteria2Users_build_def applyVLESSUsers_def
        applyHysteria2Users_def inbound_ok_def Let_def split_beta)
qed

lemma usersByID_Nil [simp]: "usersByID [] = []"
  by (simp add: usersByID_def)

lemma mget0_mmap_usersByID: "mget0 [] (mmap (\<lambda>_. usersByID) ubi) tag = usersByID (mget0 [] ubi tag)"
  by (cases "mget ubi tag") (simp_all add: mget0_def)

lemma update_byInbound [simp]: "um_byInbound (updateLimiterLocked b now u m) = um_byInbound m"
  by (simp add: updateLimiterLocked_def Let_def split: option.split)

lemma close_byInbound [simp]: "um_byInbound (closeLimiterLocked i m) = um_byInbound m"
  by (simp add: closeLimiterLocked_def split: option.split)

lemma refresh_byInbound [simp]: "um_byInbound (refresh_limiters b now us m) = um_byInbound m"
proof -
  have "um_byInbound (fold closeLimiterLocked is m) = um_byInbound m" for "is"
    by (induction "is" arbitrary: m) simp_all
  moreover have "um_byInbound (fold (\<lambda>(_, u). updateLimiterLocked b now u) us m) = um_byInbound m" for m
    by (induction us arbitrary: m) (simp_all add: split_beta)
  ultimately show ?thesis by (simp add: refresh_limiters_def)
qed

lemma update_secrets [simp]:
  "um_bySecret (updateLimiterLocked b now u m) = um_bySecret m" "um_users (updateLimiterLocked b now u m) = um_users m"
  by (simp_all add: updateLimiterLocked_def Let_def split: option.split)

lemma close_secrets [simp]:
  "um_bySecret (closeLimiterLocked i m) = um_bySecret m" "um_users (closeLimiterLocked i m) = um_users m"
  by (simp_all add: closeLimiterLocked_def split: option.split)

lemma refresh_secrets [simp]:
  "um_bySecret (refresh_limiters b now us m) = um_bySecret m \<and> um_users (refresh_limiters b now us m) = um_users m"
proof -
  have "um_bySecret (fold closeLimiterLocked is m) = um_bySecret m \<and> um_users (fold closeLimiterLocked is m) = um_users m" for "is"
    by (induction "is" arbitrary: m) simp_all
  moreover have "um_bySecret (fold (\<lambda>(_, u). updateLimiterLocked b now u) us m) = um_bySecret m \<and>
      um_users (fold (\<lambda>(_, u). updateLimiterLocked b now u) us m) = um_users m" for m
    by (induction us arbitrary: m) (simp_all add: split_beta)
  ultimately show ?thesis by (simp add: refresh_limiters_def)
qed

lemma snapshot_after:
  "InboundSnapshot tag (snd (ApplyBoxByInbound b now ins ubi m)) = usersByID (mget0 [] ubi tag)"
  by (simp add: InboundSnapshot_def ApplyBoxByInbound_def Let_def mget0_mmap_usersByID)

lemma wf_mmap: "wf_map m \<Longrightarrow> wf_map (mmap f m)"
  by (simp add: mmap_def comp_def split_beta)

lemma ApplyBoxByInbound_ok:
  assumes b: "vlessBuildEnabled b" "hysteria2BuildEnabled b" and ok: "system_ok ins m"
    and new: "\<And>tag. unshared_users (usersByID (mget0 [] ubi tag))"
  shows "system_ok (fst (ApplyBoxByInbound b now ins ubi m)) (snd (ApplyBoxByInbound b now ins ubi m))"
  unfolding system_ok_def
proof (intro conjI allI impI)
  show "wf_map (fst (ApplyBoxByInbound b now ins ubi m))"
    using ok by (simp add: ApplyBoxByInbound_def Let_def wf_mmap system_ok_def)
  fix tag raw'
  assume "mget (fst (ApplyBoxByInbound b now ins ubi m)) tag = Some raw'"
  then obtain raw where raw: "mget ins tag = Some raw" "raw' = apply_inbound b (um_byInbound m) ubi tag raw"
    by (auto simp: ApplyBoxByInbound_def Let_def)
  show "keyed (InboundSnapshot tag (snd (ApplyBoxByInbound b now ins ubi m)))"
    by (simp add: snapshot_after keyed_usersByID)
  show "unshared_users (InboundSnapshot tag (snd (ApplyBoxByInbound b now ins ubi m)))"
    by (simp add: snapshot_after new)
  show "inbound_ok (InboundSnapshot tag (snd (ApplyBoxByInbound b now ins ubi m))) raw'"
    using apply_inbound_ok [OF b, of "um_byInbound m" tag raw ubi] raw new
      ok [unfolded system_ok_def InboundSnapshot_def]
    by (simp add: snapshot_after)
qed

text \<open>The tables given to the services, in terms of the users.\<close>

lemma snd_creds: "snd ` creds sel us = {sel u |u i. mget us i = Some u \<and> sel u \<noteq> []}"
  by (force simp: creds_def image_iff)

lemma vless_table:
  "vless_ok us h \<Longrightarrow> (\<lambda>(_, uuid, _). uuid) ` set (vi_service h) = {u_UUID u |u i. mget us i = Some u \<and> u_UUID u \<noteq> []}"
proof -
  assume ok: "vless_ok us h"
  have "map (\<lambda>(_, uuid, _). uuid) (vi_service h) = map (vu_UUID \<circ> snd) (enumerate 0 (vi_users h))"
    using ok by (simp add: vless_ok_def comp_def split_beta)
  also have "\<dots> = map vu_UUID (vi_users h)" by (simp only: map_map [symmetric] map_snd_enumerate)
  finally have "(\<lambda>(_, uuid, _). uuid) ` set (vi_service h) = vu_UUID ` set (vi_users h)"
    by (metis list.set_map)
  then show ?thesis using ok by (simp only: vless_ok_def snd_creds)
qed

lemma hy2_table:
  "hy2_ok us h \<Longrightarrow> set (hi_service h) = {(i, u_Password u) |u i. mget us i = Some u \<and> u_Password u \<noteq> []}"
proof -
  assume ok: "hy2_ok us h"
  have m: "mget (hi_uuidToUid h) x = Some i \<longleftrightarrow> (i, x) \<in> creds u_Password us" for i x
    using ok by (simp add: hy2_ok_def hy2_maps_def)
  have "set (hi_service h) = (\<lambda>x. (mget0 0 (hi_uuidToUid h) x, x)) ` snd ` creds u_Password us"
    using ok by (simp add: hy2_ok_def)
  also have "\<dots> = (\<lambda>p. (mget0 0 (hi_uuidToUid h) (snd p), snd p)) ` creds u_Password us" by (simp add: image_image)
  also have "\<dots> = (\<lambda>p. p) ` creds u_Password us"
    by (rule image_cong) (auto simp: mget0_def m [THEN iffD2])
  finally show ?thesis by (auto simp: creds_def)
qed

section \<open>Secrets\<close>

definition has_secret :: "User \<Rightarrow> string \<Rightarrow> bool" where
  "has_secret u s \<longleftrightarrow> s \<noteq> [] \<and> s \<in> {u_UUID u, u_Password u, u_Name u}"

lemma mget_put_secret: "mget (put_secret i x out) s = (if s = x \<and> x \<noteq> [] then Some i else mget out s)"
  by (simp add: put_secret_def)

lemma secrets_step:
  "mget (fold (put_secret i) [u_UUID u, u_Password u, u_Name u] out) s = (if has_secret u s then Some i else mget out s)"
  by (auto simp: mget_put_secret has_secret_def)

lemma secrets_fold:
  "mget (fold (\<lambda>(i, u) out. fold (put_secret i) [u_UUID u, u_Password u, u_Name u] out) us out) s =
     (if \<exists>p \<in> set us. has_secret (snd p) s
      then Some (fst (last (filter (\<lambda>p. has_secret (snd p) s) us))) else mget out s)"
proof (induction us arbitrary: out)
  case (Cons p us)
  obtain i u where p: "p = (i, u)" by (cases p)
  let ?out = "fold (put_secret i) [u_UUID u, u_Password u, u_Name u] out"
  have "mget (fold (\<lambda>(i, u) out. fold (put_secret i) [u_UUID u, u_Password u, u_Name u] out) (p # us) out) s =
      (if \<exists>p \<in> set us. has_secret (snd p) s
       then Some (fst (last (filter (\<lambda>p. has_secret (snd p) s) us))) else mget ?out s)"
    unfolding p using Cons.IH [of ?out] by (simp only: fold_simps prod.case)
  then show ?case
    unfolding secrets_step by (auto simp: p filter_empty_conv)
qed simp

lemma mget_secretsFrom:
  "mget (secretsFrom us) s =
     (if \<exists>p \<in> set us. has_secret (snd p) s then Some (fst (last (filter (\<lambda>p. has_secret (snd p) s) us))) else None)"
  unfolding secretsFrom_def secrets_fold by simp

lemma secretsFrom_Some:
  assumes "wf_map us" "mget (secretsFrom us) s = Some i"
  shows "\<exists>u. mget us i = Some u \<and> has_secret u s"
proof -
  define q where "q = last (filter (\<lambda>p. has_secret (snd p) s) us)"
  have "\<exists>p \<in> set us. has_secret (snd p) s" and i: "i = fst q"
    using assms(2) by (auto simp: mget_secretsFrom q_def split: if_splits)
  then have "filter (\<lambda>p. has_secret (snd p) s) us \<noteq> []" by (simp add: filter_empty_conv)
  then have "q \<in> set (filter (\<lambda>p. has_secret (snd p) s) us)" unfolding q_def by (rule last_in_set)
  then have "q \<in> set us" "has_secret (snd q) s" by auto
  then show ?thesis using assms(1) i by (metis mget_in_set prod.collapse)
qed

lemma secretsFrom_active:
  assumes "wf_map us" "mget us i = Some u" "has_secret u s"
    and "\<And>j v. mget us j = Some v \<Longrightarrow> has_secret v s \<Longrightarrow> j = i"
  shows "mget (secretsFrom us) s = Some i"
proof -
  have "(i, u) \<in> set us" using assms(2) by (rule map_of_SomeD)
  then obtain j where j: "mget (secretsFrom us) s = Some j" using assms(3) by (force simp: mget_secretsFrom)
  then show ?thesis using secretsFrom_Some [OF assms(1) j] assms(4) by blast
qed

lemma keyed_mput: "keyed m \<Longrightarrow> u_ID u = i \<Longrightarrow> 0 < i \<Longrightarrow> keyed (mput i u m)"
  unfolding keyed_def by auto

lemma keyed_fold_mput:
  "keyed m \<Longrightarrow> \<forall>p \<in> set us. u_ID (snd p) = fst p \<and> 0 < fst p \<Longrightarrow> keyed (fold (\<lambda>(i, u). mput i u) us m)"
  by (induction us arbitrary: m) (simp_all add: keyed_mput split_beta)

lemma keyed_union: "keyed (union_users ubi)"
proof -
  have step: "\<forall>p \<in> set (usersByID us). u_ID (snd p) = fst p \<and> 0 < fst p" for us
    using keyed_usersByID [of us] by (auto simp: keyed_def mget_in_set)
  have all: "keyed m \<Longrightarrow> keyed (fold (\<lambda>(_, users) m. fold (\<lambda>(i, u). mput i u) (usersByID users) m) ubi m)" for m
  proof (induction ubi arbitrary: m)
    case (Cons p ubi)
    obtain t us where p: "p = (t, us)" by (cases p)
    show ?case using Cons.IH [OF keyed_fold_mput [OF Cons.prems step, of us]] by (simp add: p)
  qed simp
  have "keyed []" by (simp add: keyed_def)
  then show ?thesis unfolding union_users_def by (rule all)
qed

lemma ActiveIDs_iff: "mhas (ActiveIDs m) s \<longleftrightarrow> (\<exists>i. mhas (um_users m) i \<and> s = Itoa i)"
proof -
  have "mhas (fold (\<lambda>(i, _). mput (Itoa i) ()) us acc) s \<longleftrightarrow> (\<exists>p \<in> set us. s = Itoa (fst p)) \<or> mhas acc s"
    for us :: "(int, User) gomap" and acc
    by (induction us arbitrary: acc) (auto simp: split_beta)
  then show ?thesis by (force simp: ActiveIDs_def mhas_iff)
qed

section \<open>Properties\<close>

text \<open>
  C4: Node isolation. After users were applied by inbound, the table every VLESS inbound
  gave its service has exactly the UUIDs of the users listed for its own tag, and that
  of every Hysteria2 inbound exactly their passwords, each with its user's number. No
  credential of another tag's list gets in and none of the own list is missing. The
  users of one list do not share UUIDs or passwords; across lists they may.
\<close>

theorem node_isolation:
  assumes "system_ok ins m" and "\<forall>tag. unshared_users (usersByID (mget0 [] ubi tag))"
    and "vlessBuildEnabled b" and "hysteria2BuildEnabled b"
    and "ApplyBoxByInbound b now ins ubi m = (ins', m')" and "mget ins' tag = Some raw"
  shows "system_ok ins' m' \<and>
    (case raw of
       VLESS_in h \<Rightarrow> (\<lambda>(_, uuid, _). uuid) ` set (vi_service h) =
         {u_UUID u |u i. mget (usersByID (mget0 [] ubi tag)) i = Some u \<and> u_UUID u \<noteq> []}
     | HY2_in h \<Rightarrow> set (hi_service h) =
         {(i, u_Password u) |u i. mget (usersByID (mget0 [] ubi tag)) i = Some u \<and> u_Password u \<noteq> []}
     | Other_in \<Rightarrow> True)"
proof -
  have ok: "system_ok ins' m'"
    using ApplyBoxByInbound_ok [OF assms(3,4,1), of ubi now] assms(2,5) by simp
  have snap: "InboundSnapshot tag m' = usersByID (mget0 [] ubi tag)"
    using snapshot_after [of tag b now ins ubi m] assms(5) by simp
  have "inbound_ok (usersByID (mget0 [] ubi tag)) raw"
    using ok [unfolded system_ok_def, THEN conjunct2, rule_format, OF assms(6)] by (simp add: snap)
  then show ?thesis using ok by (auto simp: inbound_ok_def vless_table hy2_table split: inbound.splits)
qed

definition alice :: User where
  "alice = \<lparr>u_ID = 7, u_UUID = ''uuid-a'', u_Password = ''pw-a'', u_Name = ''7'', u_SpeedLimit = 80\<rparr>"

definition bob :: User where
  "bob = \<lparr>u_ID = 8, u_UUID = ''uuid-b'', u_Password = ''pw-b'', u_Name = ''8'', u_SpeedLimit = 0\<rparr>"

definition empty_vless :: vless_inbound where
  "empty_vless = \<lparr>vi_users = [], vi_service = [], vi_userconns = [], vi_closed = []\<rparr>"

definition empty_hy2 :: hy2_inbound where
  "empty_hy2 = \<lparr>hi_userNameList = [], hi_uidToUuid = [], hi_uuidToUid = [], hi_service = [], hi_userconns = [], hi_closed = []\<rparr>"

definition two_inbounds :: inbounds where
  "two_inbounds = [(''vless-21-in'', VLESS_in empty_vless), (''hy2-22-in'', HY2_in empty_hy2)]"

definition two_lists :: "(string, User list) gomap" where
  "two_lists = [(''vless-21-in'', [alice, bob]), (''hy2-22-in'', [bob])]"

lemma fresh_system_ok: "system_ok two_inbounds (NewUserManager 0 0)"
  by (simp add: system_ok_def two_inbounds_def InboundSnapshot_def NewUserManager_def mget0_def keyed_def
      unshared_users_def unshared_def creds_def inbound_ok_def vless_ok_def hy2_ok_def hy2_maps_def
      empty_vless_def empty_hy2_def)

lemma two_lists_unshared: "unshared_users (usersByID (mget0 [] two_lists tag))"
  by (auto simp: two_lists_def mget0_def unshared_users_def unshared_def creds_def usersByID_def alice_def bob_def
      split: if_splits)

theorem node_isolation_witness:
  "\<exists>h ins' m'. ApplyBoxByInbound [] 0 two_inbounds two_lists (NewUserManager 0 0) = (ins', m') \<and>
     mget ins' ''hy2-22-in'' = Some (HY2_in h) \<and> set (hi_service h) = {(8, ''pw-b'')}"
proof -
  define r where "r = ApplyBoxByInbound [] 0 two_inbounds two_lists (NewUserManager 0 0)"
  have "\<exists>h. mget (fst r) ''hy2-22-in'' = Some (HY2_in h)"
    by (simp add: r_def ApplyBoxByInbound_def two_inbounds_def Let_def apply_inbound_def applyVLESSUsers_build_def
        applyHysteria2Users_build_def applyVLESSUsers_def applyHysteria2Users_def split_beta)
  then obtain h where h: "mget (fst r) ''hy2-22-in'' = Some (HY2_in h)" by blast
  have b: "vlessBuildEnabled []" "hysteria2BuildEnabled []"
    by (simp_all add: vlessBuildEnabled_def hysteria2BuildEnabled_def)
  have "set (hi_service h) = {(i, u_Password u) |u i.
      mget (usersByID (mget0 [] two_lists ''hy2-22-in'')) i = Some u \<and> u_Password u \<noteq> []}"
    using node_isolation [OF fresh_system_ok allI [OF two_lists_unshared] b, of 0 "fst r" "snd r" "''hy2-22-in''" "HY2_in h"] h
    by (simp add: r_def)
  also have "\<dots> = {(8, ''pw-b'')}" by (auto simp: two_lists_def mget0_def usersByID_def bob_def)
  finally show ?thesis using h by (metis prod.collapse r_def)
qed

text \<open>
  C17: Applying users whose credentials are those of the previous snapshot (only speed
  limits may differ) changes no inbound at all, so no session is disturbed.
\<close>

theorem speed_change_keeps_inbounds:
  assumes "\<forall>tag raw. mget ins tag = Some raw \<longrightarrow> keyed (InboundSnapshot tag m) \<and>
      (\<forall>i. rel_option same_auth (mget (InboundSnapshot tag m) i) (mget (usersByID (mget0 [] ubi tag)) i))"
    and "wf_map ins"
  shows "fst (ApplyBoxByInbound b now ins ubi m) = ins"
proof -
  have "apply_inbound b (um_byInbound m) ubi tag raw = raw" if "(tag, raw) \<in> set ins" for tag raw
  proof -
    have "mget ins tag = Some raw" using that assms(2) by (simp add: mget_in_set)
    then have "userChanges (mget0 [] (um_byInbound m) tag) (mget0 [] ubi tag) = ([], [])"
      using assms(1) no_changes by (simp add: InboundSnapshot_def)
    then show ?thesis
      by (simp add: apply_inbound_def applyVLESSUsers_build_def applyHysteria2Users_build_def applyVLESSUsers_def
          applyHysteria2Users_def Let_def split: inbound.split)
  qed
  then have "map (\<lambda>(k, v). (k, apply_inbound b (um_byInbound m) ubi k v)) ins = map (\<lambda>p. p) ins"
    by (intro map_cong) auto
  then show ?thesis by (simp add: ApplyBoxByInbound_def Let_def mmap_def)
qed

theorem speed_change_keeps_inbounds_witness:
  "fst (ApplyBoxByInbound [] 5 two_inbounds
      [(''vless-21-in'', [alice\<lparr>u_SpeedLimit := 10\<rparr>])]
      ((NewUserManager 0 0)\<lparr>um_byInbound := [(''vless-21-in'', [(7, alice)])]\<rparr>)) = two_inbounds"
  by (rule speed_change_keeps_inbounds)
    (auto simp: two_inbounds_def InboundSnapshot_def mget0_def usersByID_def alice_def keyed_def same_auth_def
      split: if_splits)



text \<open>
  C19: A secret of an active user that no other active user has resolves to that user's
  number in decimal, a numeric user name that is among the active ones; a string that
  is nobody's secret stays as it is.
\<close>

theorem resolve_active:
  assumes "m' = snd (ApplyBoxByInbound b now ins ubi m)"
    and "mget (union_users ubi) i = Some u" and "has_secret u s"
    and "\<forall>j v. mget (union_users ubi) j = Some v \<longrightarrow> has_secret v s \<longrightarrow> j = i"
    and "\<forall>j v. mget (union_users ubi) j = Some v \<longrightarrow> \<not> has_secret v x"
  shows "Resolve s m' = Itoa i \<and> isNumericUser (Resolve s m') \<and> mhas (ActiveIDs m') (Resolve s m') \<and> Resolve x m' = x"
proof -
  have k: "keyed (union_users ubi)" by (rule keyed_union)
  then have wf: "wf_map (union_users ubi)" and pos: "0 < i" using assms(2) by (auto simp: keyed_def)
  have sec: "um_bySecret m' = secretsFrom (union_users ubi)" and us: "um_users m' = union_users ubi"
    by (simp_all add: assms(1) ApplyBoxByInbound_def Let_def)
  have s: "mget (um_bySecret m') s = Some i"
    using secretsFrom_active [OF wf assms(2,3)] assms(4) by (simp add: sec)
  have x: "mget (um_bySecret m') x = None"
    using secretsFrom_Some [OF wf, of x] assms(5) by (cases "mget (secretsFrom (union_users ubi)) x") (auto simp: sec)
  have r: "Resolve s m' = Itoa i" using assms(3) s by (simp add: Resolve_def has_secret_def)
  then have "isNumericUser (Resolve s m')" using pos isNumericUser_Itoa [of i] by simp
  moreover have "mhas (ActiveIDs m') (Resolve s m')" unfolding r ActiveIDs_iff us using assms(2) by (auto simp: mhas_def)
  moreover have "Resolve x m' = x" using x by (simp add: Resolve_def)
  ultimately show ?thesis using r by simp
qed

theorem resolve_active_witness:
  "Resolve ''uuid-a'' (snd (ApplyBoxByInbound [] 5 [] two_lists (NewUserManager 0 0))) = ''7''"
proof -
  have u: "union_users two_lists = [(7, alice), (8, bob)]"
    by (simp add: union_users_def two_lists_def usersByID_def alice_def bob_def)
  have 1: "mget (union_users two_lists) 7 = Some alice" by (simp add: u)
  have 2: "has_secret alice ''uuid-a''" by (simp add: has_secret_def alice_def)
  have 3: "\<forall>j v. mget (union_users two_lists) j = Some v \<longrightarrow> has_secret v ''uuid-a'' \<longrightarrow> j = 7"
    by (simp add: u has_secret_def alice_def bob_def)
  have 4: "\<forall>j v. mget (union_users two_lists) j = Some v \<longrightarrow> \<not> has_secret v ''nobody''"
    by (simp add: u has_secret_def alice_def bob_def)
  have "Resolve ''uuid-a'' (snd (ApplyBoxByInbound [] 5 [] two_lists (NewUserManager 0 0))) = Itoa 7"
    by (rule resolve_active [OF refl 1 2 3 4, THEN conjunct1])
  also have "\<dots> = ''7''" by code_simp
  finally show ?thesis .
qed

end
