(* ===== verification/Topology_Panel.thy ===== *)
theory Topology_Panel
  imports Hook_Ledger User_Manager
begin

text \<open>
  The panel of the multi-node mode (\<^verbatim>\<open>cmd/mini-sb-agent/topology_panel.go\<close>): one client
  for every node of the topology. With it the grouping of user lists by inbound
  (\<^verbatim>\<open>node_runtime.go\<close>) and the wiring of the synchronisation loop in \<^verbatim>\<open>main.go\<close>: the
  callback for fetched users and the panel that each mode gets.

  The remote panel books what is pushed to it; \<open>honest\<close> says what is relied on. The
  lemmas lead to the contract \<open>panel_contract\<close> for the topology panel and so to
  exactly-once billing of the whole loop.
\<close>

section \<open>Fetching\<close>

text \<open>The merge keeps the first definition of every number and fails on one that differs.\<close>

fun merge_node :: "string \<Rightarrow> User list \<Rightarrow> (int, User) gomap \<Rightarrow> api_error + (int, User) gomap" where
  "merge_node key [] merged = Inr merged"
| "merge_node key (u # us) merged =
     (case mget merged (u_ID u) of
        Some e \<Rightarrow>
          if u_UUID e \<noteq> u_UUID u \<or> u_Password e \<noteq> u_Password u \<or> u_SpeedLimit e \<noteq> u_SpeedLimit u
          then Inl (ConflictingUser (u_ID u) key)
          else merge_node key us merged
      | None \<Rightarrow> merge_node key us (mput (u_ID u) u merged))"

fun merge_nodes :: "(string, User list) gomap \<Rightarrow> (int, User) gomap \<Rightarrow> api_error + (int, User) gomap" where
  "merge_nodes [] merged = Inr merged"
| "merge_nodes ((key, us) # byNode) merged =
     (case merge_node key us merged of Inl e \<Rightarrow> Inl e | Inr merged' \<Rightarrow> merge_nodes byNode merged')"

definition mergeUsersByNode :: "(string, User list) gomap \<Rightarrow> api_error + User list" where
  "mergeUsersByNode byNode = map_sum id (map snd) (merge_nodes byNode [])"

record 'w topologyPanel =
  tn_clients :: "Client list"
  tn_nodes :: "NodeSpec list"
  tn_apply :: "((string, User list) gomap \<Rightarrow> 'w \<Rightarrow> 'w \<times> api_error option) option"

definition newTopologyPanel ::
  "string \<Rightarrow> string \<Rightarrow> NodeSpec list \<Rightarrow> ((string, User list) gomap \<Rightarrow> 'w \<Rightarrow> 'w \<times> api_error option) option \<Rightarrow> 'w topologyPanel" where
  "newTopologyPanel baseURL token nodes app =
     \<lparr>tn_clients = map (NewNodeClient baseURL token) nodes, tn_nodes = nodes, tn_apply = app\<rparr>"

fun fetch_nodes ::
  "'w transport \<Rightarrow> (Client \<times> NodeSpec) list \<Rightarrow> 'w \<Rightarrow> (string, User list) gomap \<Rightarrow> 'w \<times> (api_error + (string, User list) gomap)" where
  "fetch_nodes http [] w byNode = (w, Inr byNode)"
| "fetch_nodes http ((client, node) # rest) w byNode =
     (case Client_FetchUsers http client w of
        (w', Inl e) \<Rightarrow> (w', Inl (NodeError (Key node) e))
      | (w', Inr us) \<Rightarrow> fetch_nodes http rest w' (mput (Key node) us byNode))"

definition TP_FetchUsers :: "'w transport \<Rightarrow> 'w topologyPanel \<Rightarrow> 'w \<Rightarrow> 'w \<times> (api_error + User list)" where
  "TP_FetchUsers http p w =
     (case fetch_nodes http (zip (tn_clients p) (tn_nodes p)) w [] of
        (w1, Inl e) \<Rightarrow> (w1, Inl e)
      | (w1, Inr byNode) \<Rightarrow>
          (case mergeUsersByNode byNode of
             Inl e \<Rightarrow> (w1, Inl e)
           | Inr merged \<Rightarrow>
               (case tn_apply p of
                  None \<Rightarrow> (w1, Inr merged)
                | Some app \<Rightarrow>
                    (case app byNode w1 of
                       (w2, Some e) \<Rightarrow> (w2, Inl e)
                     | (w2, None) \<Rightarrow> (w2, Inr merged)))))"

section \<open>Pushing\<close>

fun push_nodes ::
  "'w transport \<Rightarrow> (Client \<times> NodeSpec) list \<Rightarrow> 'w \<Rightarrow> deltas \<Rightarrow> acked \<Rightarrow> api_error list \<Rightarrow> 'w \<times> acked \<times> api_error option" where
  "push_nodes http [] w ds ack errs = (w, ack, if errs = [] then None else Some (Joined errs))"
| "push_nodes http ((client, node) # rest) w ds ack errs =
     (case Client_PushTraffic http client w ds of
        (w', _, Some e) \<Rightarrow> push_nodes http rest w' ds ack (errs @ [NodeError (Key node) e])
      | (w', _, None) \<Rightarrow> push_nodes http rest w' ds (mput (InboundTag node) True ack) errs)"

definition TP_PushTraffic :: "'w transport \<Rightarrow> 'w topologyPanel \<Rightarrow> 'w \<Rightarrow> deltas \<Rightarrow> 'w \<times> acked \<times> api_error option" where
  "TP_PushTraffic http p w ds = push_nodes http (zip (tn_clients p) (tn_nodes p)) w ds [] []"

section \<open>Wiring\<close>

definition groupNodeUsers :: "NodeSpec list \<Rightarrow> (string, User list) gomap \<Rightarrow> (string, User list) gomap" where
  "groupNodeUsers nodes usersByNode =
     fold (\<lambda>n out. mput (InboundTag n) (mget0 [] usersByNode (Key n)) out) nodes []"

text \<open>The agent's state besides the traffic registry: the remote side, the live inbounds and
  the user manager. The clock is read from the remote side.\<close>

type_synonym 'r agent = "'r \<times> inbounds \<times> UserManager"

definition agent_http :: "'r transport \<Rightarrow> 'r agent transport" where
  "agent_http http w req = (let (r', resp) = http (fst w) req in ((r', snd w), resp))"

definition topology_apply ::
  "tags \<Rightarrow> ('r \<Rightarrow> int) \<Rightarrow> NodeSpec list \<Rightarrow> (string, User list) gomap \<Rightarrow> 'r agent \<Rightarrow> 'r agent \<times> api_error option" where
  "topology_apply b clk nodes byNode w =
     (let (r, ins, um) = w; (ins', um') = ApplyBoxByInbound b (clk r) ins (groupNodeUsers nodes byNode) um
      in ((r, ins', um'), None))"

definition newPanelUsersCallback ::
  "bool \<Rightarrow> tags \<Rightarrow> ('r \<Rightarrow> int) \<Rightarrow> User list \<Rightarrow> 'r agent \<Rightarrow> store \<times> hook_map \<Rightarrow> 'r agent \<times> (store \<times> hook_map) \<times> api_error option" where
  "newPanelUsersCallback topologyMode b clk list w s =
     (let (r, ins, um) = w;
          (ins', um') = (if topologyMode then (ins, um) else ApplyBox b (clk r) ins list um)
      in ((r, ins', um'), (fst s, Hook_RemoveAbsent (ActiveIDs um') (fst s) (snd s)), None))"

text \<open>The synchronisation loop that \<open>main\<close> starts in topology mode.\<close>

definition topology_syncer ::
  "'r transport \<Rightarrow> string \<Rightarrow> string \<Rightarrow> NodeSpec list \<Rightarrow> tags \<Rightarrow> ('r \<Rightarrow> int) \<Rightarrow> int \<Rightarrow> ('r agent, store \<times> hook_map) Syncer" where
  "topology_syncer http base token nodes b clk every =
     (let p = newTopologyPanel base token nodes (Some (topology_apply b clk nodes))
      in \<lparr>sy_Panel = Some \<lparr>p_FetchUsers = TP_FetchUsers (agent_http http) p,
                           p_PushTraffic = TP_PushTraffic (agent_http http) p\<rparr>,
          sy_Snapshot = Some hook_snapshot, sy_Commit = Some hook_commit,
          sy_Users = Some (newPanelUsersCallback True b clk), sy_Every = every\<rparr>)"

section \<open>What one client pushes\<close>

definition canonical :: "string \<Rightarrow> bool" where
  "canonical u \<longleftrightarrow> isNumericUser u \<longrightarrow> (case parse_ok (Atoi u) of Some i \<Rightarrow> Itoa i = u | None \<Rightarrow> False)"

lemma add_pair64_zero: "is_int64 (fst d) \<Longrightarrow> is_int64 (snd d) \<Longrightarrow> add_pair64 (0, 0) d = d"
  by (simp add: add_pair64_def add64_def)

lemma mput_new: "mget m k = None \<Longrightarrow> mput k v m = m @ [(k, v)]"
  by (induction m) (auto split: if_splits)

lemma add_users_eq:
  assumes "wf_map d" "\<forall>u x. mget d u = Some x \<longrightarrow> is_int64 (fst x) \<and> is_int64 (snd x)"
    and "\<forall>u. mget d u \<noteq> None \<longrightarrow> mget flat u = None"
  shows "add_users d flat = flat @ mfilter (\<lambda>u _. isNumericUser u) d"
  using assms
proof (induction d flat rule: add_users.induct)
  case (2 user x users flat)
  have wf: "wf_map users" and nu: "mget users user = None"
    using 2(2) by (auto simp: map_of_eq_None_iff)
  have vals: "\<forall>u x. mget users u = Some x \<longrightarrow> is_int64 (fst x) \<and> is_int64 (snd x)"
    using 2(3) nu by (metis map_of_Cons_code(2) option.distinct(1))
  have x: "is_int64 (fst x)" "is_int64 (snd x)" and fu: "mget flat user = None"
    using 2(3) [rule_format, of user x] 2(4) [rule_format, of user] by simp_all
  define flat1 where "flat1 = (if isNumericUser user then mput user (add_pair64 (mget0 (0, 0) flat user) x) flat else flat)"
  have flat1: "flat1 = flat @ (if isNumericUser user then [(user, x)] else [])"
    using fu x by (simp add: flat1_def mget0_def add_pair64_zero mput_new)
  have fresh: "\<forall>u. mget users u \<noteq> None \<longrightarrow> mget flat1 u = None"
    using 2(4) nu by (auto simp: flat1 map_add_def split: option.splits if_splits)
  show ?case using 2(1) wf vals fresh by (simp add: flat1_def [symmetric]) (simp add: flat1 mfilter_def)
qed (simp add: mfilter_def)

lemma collect_one:
  assumes "cl_InboundTag c \<noteq> []" "wf_map ds"
  shows "collect c ds flat ack =
    (case mget ds (cl_InboundTag c) of
       None \<Rightarrow> (flat, ack) | Some d \<Rightarrow> (add_users d flat, mput (cl_InboundTag c) True ack))"
  using assms(2)
proof (induction ds arbitrary: flat ack)
  case (Cons p ds)
  obtain tag users where p: "p = (tag, users)" by (cases p)
  have m: "matchesInbound c tag \<longleftrightarrow> tag = cl_InboundTag c" using assms(1) by (simp add: matchesInbound_def)
  have "tag = cl_InboundTag c \<Longrightarrow> mget ds (cl_InboundTag c) = None"
    using Cons.prems by (simp add: p map_of_eq_None_iff)
  then show ?case using Cons m by (cases "tag = cl_InboundTag c") (simp_all add: p)
qed simp

definition exact_key :: "string \<Rightarrow> bool" where
  "exact_key u \<longleftrightarrow> (case parse_ok (Atoi u) of Some i \<Rightarrow> Itoa i = u | None \<Rightarrow> False)"

lemma exact_key_D: "exact_key u \<Longrightarrow> \<exists>i. parse_ok (Atoi u) = Some i \<and> Itoa i = u \<and> is_int64 i"
  by (cases "Atoi u") (auto simp: exact_key_def dest: Atoi_int64)

lemma push_payload_step:
  "exact_key user \<Longrightarrow> \<exists>i. Itoa i = user \<and> is_int64 i \<and> push_payload ((user, d) # flat) p = push_payload flat (mput i d p)"
  using exact_key_D [of user] by auto

lemma mget_push_payload:
  assumes "is_int64 uid"
  shows "wf_map flat \<Longrightarrow> \<forall>u \<in> fst ` set flat. exact_key u \<Longrightarrow>
    mget (push_payload flat p) uid = (case mget flat (Itoa uid) of Some d \<Rightarrow> Some d | None \<Rightarrow> mget p uid)"
proof (induction flat arbitrary: p)
  case (Cons x flat)
  obtain user d where x: "x = (user, d)" by (cases x)
  obtain i where i: "Itoa i = user" "is_int64 i" "push_payload ((user, d) # flat) p = push_payload flat (mput i d p)"
    using push_payload_step [of user d flat p] Cons.prems(2) x by auto
  have nu: "mget flat user = None" using Cons.prems(1) x by (simp add: map_of_eq_None_iff)
  have ih: "mget (push_payload flat (mput i d p)) uid =
      (case mget flat (Itoa uid) of Some d \<Rightarrow> Some d | None \<Rightarrow> mget (mput i d p) uid)"
    using Cons.IH [of "mput i d p"] Cons.prems by simp
  show ?case
  proof (cases "uid = i")
    case True
    then show ?thesis unfolding x i(3) ih using nu i(1) by simp
  next
    case False
    then have "Itoa uid \<noteq> user" using Itoa_inj [OF assms i(2)] i(1) by auto
    then show ?thesis unfolding x i(3) ih using False by (simp split: option.split)
  qed
qed simp

lemma push_payload_nonempty:
  "\<forall>u \<in> fst ` set flat. exact_key u \<Longrightarrow> p \<noteq> [] \<or> flat \<noteq> [] \<Longrightarrow> push_payload flat p \<noteq> []"
proof (induction flat arbitrary: p)
  case (Cons x flat)
  obtain user d where x: "x = (user, d)" by (cases x)
  obtain i where i: "push_payload ((user, d) # flat) p = push_payload flat (mput i d p)"
    using push_payload_step [of user d flat p] Cons.prems(1) x by auto
  have "mput i d p \<noteq> []" by (cases p) (auto split: if_splits)
  then show ?case unfolding x i using Cons by simp
qed simp

section \<open>The remote panel\<close>

text \<open>
  What is relied on of the remote panel: a push that it answers with a 2xx status has
  added the pushed amounts to the account of each user at the address pushed to; a
  push without such an answer has added nothing; fetching adds nothing.
\<close>

definition acknowledged :: "response option \<Rightarrow> bool" where
  "acknowledged resp = (case resp of Some r \<Rightarrow> status_2xx r | None \<Rightarrow> False)"

definition payload_ok :: "payload \<Rightarrow> bool" where
  "payload_ok p \<longleftrightarrow> wf_map p \<and>
     list_all (\<lambda>(uid, d). is_int64 uid \<and> is_int64 (fst d) \<and> is_int64 (snd d)) p"

definition honest :: "'r transport \<Rightarrow> ('r \<Rightarrow> string \<Rightarrow> int \<Rightarrow> int \<times> int) \<Rightarrow> bool" where
  "honest http bill \<longleftrightarrow>
     (\<forall>r ep p ep' uid. payload_ok p \<longrightarrow>
        bill (fst (http r (push_request ep p))) ep' uid =
        padd (bill r ep' uid)
          (if ep' = ep \<and> acknowledged (snd (http r (push_request ep p))) then mget0 (0, 0) p uid else (0, 0))) \<and>
     (\<forall>r ep ep' uid. bill (fst (http r (http_get ep))) ep' uid = bill r ep' uid)"

lemma mput_set: "set (mput k v m) \<subseteq> insert (k, v) (set m)"
  by (induction m) auto

lemma payload_ok_mput:
  "payload_ok p \<Longrightarrow> is_int64 i \<Longrightarrow> is_int64 (fst d) \<Longrightarrow> is_int64 (snd d) \<Longrightarrow> payload_ok (mput i d p)"
  using mput_set [of i d p] by (force simp: payload_ok_def wf_mput list_all_iff)

lemma payload_ok_push:
  "\<forall>x \<in> set flat. exact_key (fst x) \<and> is_int64 (fst (snd x)) \<and> is_int64 (snd (snd x)) \<Longrightarrow> payload_ok p \<Longrightarrow>
     payload_ok (push_payload flat p)"
proof (induction flat arbitrary: p)
  case (Cons x flat)
  obtain user d where x: "x = (user, d)" by (cases x)
  obtain i where i: "is_int64 i" "push_payload ((user, d) # flat) p = push_payload flat (mput i d p)"
    using push_payload_step [of user d flat p] Cons.prems(1) x by auto
  show ?case unfolding x i(2) using Cons i(1) by (simp add: payload_ok_mput x)
qed simp

lemma delta_ok_D:
  assumes "delta_ok adm ds" "mget ds t = Some d" "mget d u = Some x"
  shows "adm t u" "is_int64 (fst x)" "is_int64 (snd x)"
proof -
  have "entry ds t u = Some x" using assms(2,3) by (simp add: entry_def)
  then show "adm t u" "is_int64 (fst x)" "is_int64 (snd x)" using assms(1) unfolding delta_ok_def by blast+
qed

definition push_path :: string where
  "push_path = ''/api/v1/server/UniProxy/push''"

lemma client_push_books:
  assumes hon: "honest http bill" and ds: "delta_ok adm ds" and adm: "\<And>t u. adm t u \<Longrightarrow> canonical u"
    and tag: "cl_InboundTag c \<noteq> []" and push: "Client_PushTraffic http c w ds = (w', ack, err)"
    and uid: "is_int64 uid" "0 \<le> uid"
  shows "bill w' ep' uid = padd (bill w ep' uid)
    (if endpoint_url c push_path = Inr ep' \<and> err = None then dget ds (cl_InboundTag c) (Itoa uid) else (0, 0))"
proof -
  let ?T = "cl_InboundTag c"
  have wf: "wf_map ds" "\<And>d. mget ds ?T = Some d \<Longrightarrow> wf_map d" using ds by (auto simp: delta_ok_def wf_deltas_def)
  define flat where "flat = fst (collect c ds [] [])"
  have flat: "flat = (case mget ds ?T of None \<Rightarrow> [] | Some d \<Rightarrow> mfilter (\<lambda>u _. isNumericUser u) d)"
  proof (cases "mget ds ?T")
    case (Some d)
    have "\<forall>u x. mget d u = Some x \<longrightarrow> is_int64 (fst x) \<and> is_int64 (snd x)"
      using delta_ok_D [OF ds Some] by blast
    then show ?thesis
      using add_users_eq [OF wf(2) [OF Some], of "[]"] by (simp add: flat_def collect_one [OF tag wf(1)] Some)
  qed (simp add: flat_def collect_one [OF tag wf(1)])
  have wff: "wf_map flat" using wf(2) by (auto simp: flat split: option.splits)
  have look: "mget0 (0, 0) flat (Itoa uid) = dget ds ?T (Itoa uid)"
    using wf(2) uid by (auto simp: flat dget_def mget0_def split: option.splits)
  have keys: "\<forall>u \<in> fst ` set flat. exact_key u"
  proof
    fix u
    assume "u \<in> fst ` set flat"
    then have "mget flat u \<noteq> None" by (simp add: map_of_eq_None_iff)
    then obtain d x where "mget ds ?T = Some d" "mget d u = Some x" "isNumericUser u"
      using wf(2) by (auto simp: flat split: option.splits if_splits)
    then have "adm ?T u" using delta_ok_D [OF ds] by blast
    then show "exact_key u" using adm \<open>isNumericUser u\<close> by (auto simp: canonical_def exact_key_def)
  qed
  define p where "p = push_payload flat []"
  have vals: "is_int64 (fst (snd x)) \<and> is_int64 (snd (snd x))" if "x \<in> set flat" for x
  proof -
    have "mget flat (fst x) = Some (snd x)" using that wff by (simp add: mget_in_set)
    then obtain d where "mget ds ?T = Some d" "mget d (fst x) = Some (snd x)"
      using wf(2) by (auto simp: flat split: option.splits if_splits)
    then show ?thesis using delta_ok_D(2,3) [OF ds] by blast
  qed
  have wfp: "payload_ok p"
    unfolding p_def by (rule payload_ok_push) (use keys vals in \<open>auto simp: payload_ok_def\<close>)
  have pl: "mget0 (0, 0) p uid = dget ds ?T (Itoa uid)"
    using mget_push_payload [OF uid(1) wff keys, of "[]"] look by (simp add: p_def mget0_def split: option.splits)
  show ?thesis
  proof (cases "flat = []")
    case True
    then have "dget ds ?T (Itoa uid) = (0, 0)" using look by simp
    moreover have "w' = w" using push True by (auto simp: Client_PushTraffic_def flat_def split_beta)
    ultimately show ?thesis by simp
  next
    case False
    have pne: "p \<noteq> []" unfolding p_def using push_payload_nonempty [OF keys, of "[]"] False by simp
    show ?thesis
    proof (cases "endpoint_url c push_path")
      case (Inl e)
      then have "w' = w" using push False by (auto simp: Client_PushTraffic_def flat_def push_path_def split_beta)
      then show ?thesis using Inl by simp
    next
      case (Inr ep)
      obtain w1 resp where h: "http w (push_request ep p) = (w1, resp)" by (cases "http w (push_request ep p)")
      have r: "w' = w1" "err = None \<longleftrightarrow> acknowledged resp"
        using push False Inr pne h
        by (auto simp: Client_PushTraffic_def flat_def [symmetric] p_def [symmetric] push_path_def split_beta
            acknowledged_def split: option.splits if_splits)
      have "bill w1 ep' uid = padd (bill w ep' uid) (if ep' = ep \<and> acknowledged resp then mget0 (0, 0) p uid else (0, 0))"
        using hon wfp h unfolding honest_def by (metis fst_conv snd_conv)
      then show ?thesis using r Inr pl by auto
    qed
  qed
qed

section \<open>Addresses of the nodes\<close>

definition plain_char :: "char \<Rightarrow> bool" where
  "plain_char c \<longleftrightarrow> 32 \<le> code c \<and> code c \<noteq> 127 \<and> c \<noteq> CHR ''?'' \<and> c \<noteq> CHR ''#''"

definition plain_base :: "string \<Rightarrow> bool" where
  "plain_base base \<longleftrightarrow> TrimRight base ''/'' \<noteq> [] \<and> list_all plain_char base"

definition node_query :: "string \<Rightarrow> string \<Rightarrow> string \<Rightarrow> string" where
  "node_query i ty token =
     ''node_id='' @ QueryEscape i @ ''&node_type='' @ QueryEscape ty @
     (if token = [] then [] else ''&token='' @ QueryEscape token)"

lemma escape_no_amp: "CHR ''&'' \<notin> set (QueryEscape s)"
proof -
  have "CHR ''&'' \<notin> set (escape_char c)" for c
  proof -
    have "upper_hex d \<noteq> CHR ''&''" if "d < 16" for d
    proof
      assume "upper_hex d = CHR ''&''"
      then have "hex_val (CHR ''&'') = Some d" using hex_val_upper [OF that] by simp
      moreover have "hex_val (CHR ''&'') = None" by code_simp
      ultimately show False by simp
    qed
    then have "upper_hex (code c div 16) \<noteq> CHR ''&''" "upper_hex (code c mod 16) \<noteq> CHR ''&''"
      by (simp_all add: less_mult_imp_div_less)
    moreover have "\<not> unreserved (CHR ''&'')" by code_simp
    ultimately show ?thesis by (auto simp: escape_char_def)
  qed
  then show ?thesis by (auto simp: QueryEscape_def)
qed

lemma QueryEscape_inj: "QueryEscape a = QueryEscape b \<Longrightarrow> a = b"
  using QueryUnescape_QueryEscape by (metis option.inject)

lemma node_query_inj:
  assumes "node_query i ty token = node_query i' ty' token"
  shows "i = i' \<and> ty = ty'"
proof -
  define rest where "rest t = ''node_type='' @ QueryEscape t @ (if token = [] then [] else ''&token='' @ QueryEscape token)" for t
  have nq: "node_query j t token = ''node_id='' @ QueryEscape j @ CHR ''&'' # rest t" for j t
    by (simp add: node_query_def rest_def)
  have "QueryEscape i @ CHR ''&'' # rest ty = QueryEscape i' @ CHR ''&'' # rest ty'" using assms by (simp add: nq)
  from sep_inj [OF escape_no_amp escape_no_amp this]
  have i: "QueryEscape i = QueryEscape i'" and r: "rest ty = rest ty'" by auto
  have "QueryEscape ty = QueryEscape ty'" using r by (simp add: rest_def split: if_splits)
  then show ?thesis using i QueryEscape_inj by blast
qed

lemma Encode_node:
  assumes "i \<noteq> []" "ty \<noteq> []"
  shows "Encode (set_if ''node_type'' ty (set_if ''node_id'' i (set_if ''token'' token []))) = node_query i ty token"
proof -
  have k: "sort [''token'', ''node_id'', ''node_type''] = [''node_id'', ''node_type'', ''token'']"
    "sort [''node_id'', ''node_type''] = [''node_id'', ''node_type'']"
    by code_simp+
  have e: "QueryEscape ''node_id'' = ''node_id''" "QueryEscape ''node_type'' = ''node_type''" "QueryEscape ''token'' = ''token''"
    by code_simp+
  show ?thesis
    using assms by (simp add: Encode_def set_if_def node_query_def k e mget0_def)
qed

lemma set_TrimRight: "set (TrimRight s cs) \<subseteq> set s"
  by (auto simp: TrimRight_def dest: set_dropWhileD)

lemma takeWhile_all: "(\<forall>x \<in> set xs. P x) \<Longrightarrow> takeWhile P xs = xs"
  by simp

definition node_address :: "string \<Rightarrow> string \<Rightarrow> NodeSpec \<Rightarrow> string" where
  "node_address base token n =
     TrimRight base ''/'' @ push_path @ ''?'' @ node_query (ns_NodeID n) (PanelNodeType n) token"

lemma endpoint_node:
  assumes "plain_base base" "node_ok n"
  shows "endpoint_url (NewNodeClient base token n) push_path = Inr (node_address base token n)"
proof -
  define u where "u = TrimRight base ''/'' @ push_path"
  have path: "list_all plain_char push_path" unfolding push_path_def by code_simp
  have u: "plain_char c" if "c \<in> set u" for c
    using that assms(1) set_TrimRight [of base "''/''"] path unfolding u_def plain_base_def list_all_iff by auto
  have tw: "takeWhile (\<lambda>c. c \<noteq> CHR ''#'') u = u" "takeWhile (\<lambda>c. c \<noteq> CHR ''?'') u = u"
    by (intro takeWhile_all ballI; drule u; simp add: plain_char_def)+
  have nc: "\<not> (\<exists>c \<in> set u. code c < 32 \<or> code c = 127)" using u unfolding plain_char_def by (metis not_le)
  have p: "url_parse u = Some (u, [], [])"
    unfolding url_parse_def by (simp only: if_not_P [OF nc] tw Let_def) simp
  have q: "ParseQuery [] = []" by (simp add: ParseQuery_def add_pair_def)
  have i: "ns_NodeID n \<noteq> []" using assms(2) by (auto simp: node_ok_def validateNodeID_def TrimSpace_def)
  have ty: "PanelNodeType n \<noteq> []" by (simp add: PanelNodeType_def)
  have "Encode (set_if ''node_type'' (PanelNodeType n) (set_if ''node_id'' (ns_NodeID n) (set_if ''token'' token [])))
      = node_query (ns_NodeID n) (PanelNodeType n) token" by (rule Encode_node [OF i ty])
  moreover have "node_query (ns_NodeID n) (PanelNodeType n) token \<noteq> []" by (simp add: node_query_def)
  ultimately show ?thesis
    using assms(1) p
    by (simp add: endpoint_url_def NewNodeClient_def NewClient_def plain_base_def q u_def url_string_def node_address_def)
qed

lemma node_address_inj:
  assumes "node_ok n" "node_ok n'" "node_address base token n = node_address base token n'"
  shows "Key n = Key n'"
proof -
  have "node_query (ns_NodeID n) (PanelNodeType n) token = node_query (ns_NodeID n') (PanelNodeType n') token"
    using assms(3) by (simp add: node_address_def)
  from node_query_inj [OF this]
  have eq: "ns_NodeID n = ns_NodeID n'" "PanelNodeType n = PanelNodeType n'" by simp_all
  have "normalizeNodeType (ns_NodeType m) = PanelNodeType m" if "node_ok m" for m
    using that by (auto simp: node_ok_def PanelNodeType_def)
  then show ?thesis using eq assms(1,2) by (simp add: Key_def NodeKey_def)
qed

section \<open>The contract of the topology panel\<close>

definition node_adm :: "NodeSpec list \<Rightarrow> string \<Rightarrow> string \<Rightarrow> bool" where
  "node_adm nodes t u \<longleftrightarrow> t \<in> InboundTag ` set nodes \<and> canonical u"

text \<open>The account of a user at the node that an inbound belongs to.\<close>

definition node_booked ::
  "('r \<Rightarrow> string \<Rightarrow> int \<Rightarrow> int \<times> int) \<Rightarrow> string \<Rightarrow> string \<Rightarrow> NodeSpec list \<Rightarrow> 'r agent \<Rightarrow> string \<Rightarrow> string \<Rightarrow> int \<times> int" where
  "node_booked bill base token nodes w t u =
     (case (find (\<lambda>n. InboundTag n = t) nodes, parse_ok (Atoi u)) of
        (Some n, Some uid) \<Rightarrow> bill (fst w) (node_address base token n) uid
      | _ \<Rightarrow> (0, 0))"

lemma honest_agent: "honest http bill \<Longrightarrow> honest (agent_http http) (\<lambda>w. bill (fst w))"
  by (simp add: honest_def agent_http_def split_beta)

lemma push_nodes_books:
  assumes hon: "honest http bill" and ds: "delta_ok adm ds" and adm: "\<And>t u. adm t u \<Longrightarrow> canonical u"
    and base: "plain_base base" and uid: "is_int64 uid" "0 \<le> uid"
  shows "list_all node_ok ns \<Longrightarrow> distinct (map Key ns) \<Longrightarrow> distinct (map InboundTag ns) \<Longrightarrow>
    push_nodes http (zip (map (NewNodeClient base token) ns) ns) w ds ack errs = (w', ack', err) \<Longrightarrow>
    (\<forall>n \<in> set ns. \<not> mget0 False ack (InboundTag n)) \<Longrightarrow>
    (\<forall>n \<in> set ns. bill w' (node_address base token n) uid = padd (bill w (node_address base token n) uid)
        (if mget0 False ack' (InboundTag n) then dget ds (InboundTag n) (Itoa uid) else (0, 0))) \<and>
    (\<forall>ep. ep \<notin> node_address base token ` set ns \<longrightarrow> bill w' ep uid = bill w ep uid) \<and>
    (\<forall>t. t \<notin> InboundTag ` set ns \<longrightarrow> mget0 False ack' t = mget0 False ack t) \<and>
    (err = None \<longrightarrow> errs = [] \<and> (\<forall>n \<in> set ns. mget0 False ack' (InboundTag n)))"
proof (induction ns arbitrary: w ack errs)
  case Nil
  then show ?case by (auto split: if_splits)
next
  case (Cons n ns)
  have ok: "node_ok n" "list_all node_ok ns" and dk: "distinct (map Key ns)" "Key n \<notin> Key ` set ns"
    and dt: "distinct (map InboundTag ns)" "InboundTag n \<notin> InboundTag ` set ns" using Cons.prems by auto
  let ?c = "NewNodeClient base token n"
  have tag: "cl_InboundTag ?c = InboundTag n" "cl_InboundTag ?c \<noteq> []"
    using InboundTag_safe [OF ok(1)] by (simp_all add: NewNodeClient_def)
  obtain w1 a1 e1 where push: "Client_PushTraffic http ?c w ds = (w1, a1, e1)" by (metis prod_cases3)
  have b1: "bill w1 ep uid = padd (bill w ep uid)
      (if node_address base token n = ep \<and> e1 = None then dget ds (InboundTag n) (Itoa uid) else (0, 0))" for ep
    using client_push_books [where ep' = ep, OF hon ds adm tag(2) push uid] by (simp add: tag(1) endpoint_node [OF base ok(1)])
  define ack1 where "ack1 = (if e1 = None then mput (InboundTag n) True ack else ack)"
  define errs1 where "errs1 = (case e1 of None \<Rightarrow> errs | Some e \<Rightarrow> errs @ [NodeError (Key n) e])"
  have rest: "push_nodes http (zip (map (NewNodeClient base token) ns) ns) w1 ds ack1 errs1 = (w', ack', err)"
    using Cons.prems(4) push by (cases e1) (simp_all add: ack1_def errs1_def)
  have "\<forall>n \<in> set ns. \<not> mget0 False ack1 (InboundTag n)" using Cons.prems(5) dt(2) by (auto simp: ack1_def) (metis image_eqI)
  note ih = Cons.IH [OF ok(2) dk(1) dt(1) rest this]
  have addr: "node_address base token n \<notin> node_address base token ` set ns"
    using node_address_inj [OF ok(1)] ok(2) dk(2) by (auto simp: list_all_iff)
  have a': "mget0 False ack' (InboundTag n) \<longleftrightarrow> e1 = None"
    using ih dt(2) Cons.prems(5) by (simp add: ack1_def)
  have head: "bill w' (node_address base token n) uid = padd (bill w (node_address base token n) uid)
      (if mget0 False ack' (InboundTag n) then dget ds (InboundTag n) (Itoa uid) else (0, 0))"
    using ih addr by (simp add: b1 a')
  have tail: "bill w1 (node_address base token m) uid = bill w (node_address base token m) uid" if "m \<in> set ns" for m
    using addr that by (simp add: b1) (metis image_eqI)
  have none: "err = None \<longrightarrow> errs = [] \<and> e1 = None"
    using ih by (cases e1) (simp_all add: errs1_def)
  show ?case
  proof (intro conjI ballI allI impI)
    fix m
    assume "m \<in> set (n # ns)"
    then show "bill w' (node_address base token m) uid = padd (bill w (node_address base token m) uid)
        (if mget0 False ack' (InboundTag m) then dget ds (InboundTag m) (Itoa uid) else (0, 0))"
      using head ih tail by auto
  next
    fix ep
    assume "ep \<notin> node_address base token ` set (n # ns)"
    then show "bill w' ep uid = bill w ep uid" using ih by (auto simp: b1)
  next
    fix t
    assume "t \<notin> InboundTag ` set (n # ns)"
    then show "mget0 False ack' t = mget0 False ack t" using ih by (simp add: ack1_def)
  next
    assume "err = None"
    then show "errs = []" using none by simp
  next
    fix m
    assume "err = None" "m \<in> set (n # ns)"
    then show "mget0 False ack' (InboundTag m)" using none ih a' by auto
  qed
qed

lemma find_tag:
  assumes "distinct (map InboundTag nodes)" "n \<in> set nodes"
  shows "find (\<lambda>m. InboundTag m = InboundTag n) nodes = Some n"
  using assms by (induction nodes) (auto simp: image_iff)

lemma canonical_uid:
  assumes "canonical u" "isNumericUser u"
  shows "\<exists>uid. parse_ok (Atoi u) = Some uid \<and> Itoa uid = u \<and> is_int64 uid \<and> 0 \<le> uid"
proof -
  obtain i where i: "parse_ok (Atoi u) = Some i" "Itoa i = u" "is_int64 i"
    using exact_key_D [of u] assms by (auto simp: canonical_def exact_key_def)
  then show ?thesis using assms(2) isNumericUser_Itoa [of i] by auto
qed

lemma topology_contract:
  assumes hon: "honest http bill" and base: "plain_base base" and ok: "topology_ok \<lparr>tp_Nodes = nodes\<rparr>"
  shows "panel_contract (TP_PushTraffic (agent_http http) (newTopologyPanel base token nodes app))
           (node_booked bill base token nodes) (node_adm nodes)"
proof
  fix ds :: deltas and w w' :: "'a agent" and ack err u t
  assume ds: "delta_ok (node_adm nodes) ds" and num: "isNumericUser u" and adm: "node_adm nodes t u"
    and push: "TP_PushTraffic (agent_http http) (newTopologyPanel base token nodes app) w ds = (w', ack, err)"
  have nodes: "list_all node_ok nodes" "distinct (map Key nodes)" "distinct (map InboundTag nodes)"
    using ok by (simp_all add: topology_ok_def)
  obtain n where n: "n \<in> set nodes" "t = InboundTag n" using adm by (auto simp: node_adm_def)
  obtain uid where uid: "parse_ok (Atoi u) = Some uid" "Itoa uid = u" "is_int64 uid" "0 \<le> uid"
    using canonical_uid [OF _ num] adm by (auto simp: node_adm_def)
  have "push_nodes (agent_http http) (zip (map (NewNodeClient base token) nodes) nodes) w ds [] [] = (w', ack, err)"
    using push by (simp add: TP_PushTraffic_def newTopologyPanel_def)
  note books = push_nodes_books [OF honest_agent [OF hon] ds _ base uid(3,4) nodes this]
  have "bill (fst w') (node_address base token n) uid = padd (bill (fst w) (node_address base token n) uid)
      (if mget0 False ack (InboundTag n) then dget ds (InboundTag n) (Itoa uid) else (0, 0))"
    and "err = None \<longrightarrow> mget0 False ack (InboundTag n)"
    using books n(1) by (auto simp: node_adm_def)
  then show "node_booked bill base token nodes w' t u = padd (node_booked bill base token nodes w t u)
      (if accepted ack err t then dget ds t u else (0, 0))"
    using uid(1,2) by (auto simp: node_booked_def n(2) find_tag [OF nodes(3) n(1)] accepted_def)
qed

lemma fetch_keeps_bill:
  assumes "honest http bill"
  shows "bill (fst (Client_FetchUsers http c w)) ep uid = bill w ep uid"
  using assms by (auto simp: Client_FetchUsers_def honest_def split_beta split: sum.splits option.splits)

lemma fetch_nodes_keeps_bill:
  assumes "honest http bill"
  shows "bill (fst (fetch_nodes http cs w byNode)) ep uid = bill w ep uid"
proof (induction cs arbitrary: w byNode)
  case (Cons p cs)
  obtain client node where p: "p = (client, node)" by (cases p)
  obtain w1 r where f: "Client_FetchUsers http client w = (w1, r)" by (cases "Client_FetchUsers http client w")
  have "bill w1 ep uid = bill w ep uid" using fetch_keeps_bill [OF assms, of client w ep uid] f by simp
  then show ?case using Cons.IH by (cases r) (simp_all add: p f)
qed simp

lemma TP_FetchUsers_bill:
  assumes "honest http bill"
  shows "bill (fst (fst (TP_FetchUsers (agent_http http)
      (newTopologyPanel base token nodes (Some (topology_apply b clk nodes))) w))) ep uid = bill (fst w) ep uid"
proof -
  let ?cs = "zip (map (NewNodeClient base token) nodes) nodes"
  obtain w1 r where f: "fetch_nodes (agent_http http) ?cs w [] = (w1, r)" by (cases "fetch_nodes (agent_http http) ?cs w []")
  have "bill (fst w1) ep uid = bill (fst w) ep uid"
    using fetch_nodes_keeps_bill [OF honest_agent [OF assms], of ?cs w "[]" ep uid] f by simp
  moreover have "fst (fst (topology_apply b clk nodes byNode w1)) = fst w1" for byNode
    by (simp add: topology_apply_def split_beta)
  ultimately show ?thesis
    by (auto simp: TP_FetchUsers_def newTopologyPanel_def f topology_apply_def split_beta split: sum.splits)
qed

lemma callback_prunes:
  "newPanelUsersCallback True b clk us w s =
     (w, (fst s, Hook_RemoveAbsent (ActiveIDs (snd (snd w))) (fst s) (snd s)), None)"
  by (simp add: newPanelUsersCallback_def split_beta)

lemma prune_inv:
  assumes "hook_inv adm s"
  shows "hook_inv adm (fst s, Hook_RemoveAbsent act (fst s) (snd s))"
    and "hook_pend (fst s, Hook_RemoveAbsent act (fst s) (snd s)) t u = hook_pend s t u"
proof -
  have ok: "hook_ok (fst s) (snd s)" using assms by (simp add: hook_inv_def)
  have "hook_addr (Hook_RemoveAbsent act (fst s) (snd s)) t u = Some a \<Longrightarrow> hook_addr (snd s) t u = Some a" for t u a
    by (simp add: hook_addr_RemoveAbsent [OF ok] split: option.splits if_splits)
  then show "hook_inv adm (fst s, Hook_RemoveAbsent act (fst s) (snd s))"
    using assms hook_ok_RemoveAbsent [OF ok] by (simp add: hook_inv_def)
  show "hook_pend (fst s, Hook_RemoveAbsent act (fst s) (snd s)) t u = hook_pend s t u"
    by (simp add: hook_pend_def pending_at_RemoveAbsent [OF ok])
qed

lemma topology_billing:
  assumes "honest http bill" "plain_base base" "topology_ok \<lparr>tp_Nodes = nodes\<rparr>"
  shows "billing (hook_inv (node_adm nodes)) hook_pend hook_snapshot hook_commit hook_act (hook_enabled (node_adm nodes))
    hook_amount (node_adm nodes)
    (TP_PushTraffic (agent_http http) (newTopologyPanel base token nodes (Some (topology_apply b clk nodes))))
    (node_booked bill base token nodes)
    (TP_FetchUsers (agent_http http) (newTopologyPanel base token nodes (Some (topology_apply b clk nodes))))
    (newPanelUsersCallback True b clk)"
proof (intro billing.intro billing_axioms.intro)
  show "traffic_ledger (hook_inv (node_adm nodes)) hook_pend hook_snapshot hook_commit hook_act
      (hook_enabled (node_adm nodes)) hook_amount (node_adm nodes)" by (rule hook.traffic_ledger_axioms)
  show "panel_contract (TP_PushTraffic (agent_http http) (newTopologyPanel base token nodes (Some (topology_apply b clk nodes))))
    (node_booked bill base token nodes) (node_adm nodes)" by (rule topology_contract [OF assms])
next
  fix w w' :: "'a agent" and r t u
  assume f: "TP_FetchUsers (agent_http http) (newTopologyPanel base token nodes (Some (topology_apply b clk nodes))) w = (w', r)"
  then have "bill (fst w') ep uid = bill (fst w) ep uid" for ep uid
    using TP_FetchUsers_bill [OF assms(1), of base token nodes b clk w] by simp
  then show "node_booked bill base token nodes w' t u = node_booked bill base token nodes w t u"
    by (simp add: node_booked_def split: option.split)
qed (auto simp: callback_prunes prune_inv)

lemma topology_syncer_eq:
  "topology_syncer http base token nodes b clk every =
     billing_syncer
       (TP_FetchUsers (agent_http http) (newTopologyPanel base token nodes (Some (topology_apply b clk nodes))))
       (TP_PushTraffic (agent_http http) (newTopologyPanel base token nodes (Some (topology_apply b clk nodes))))
       hook_snapshot hook_commit (newPanelUsersCallback True b clk) every"
  by (simp add: topology_syncer_def billing_syncer_def Let_def)

section \<open>Merging and grouping\<close>

definition agrees :: "User \<Rightarrow> User \<Rightarrow> bool" where
  "agrees u v \<longleftrightarrow> u_UUID u = u_UUID v \<and> u_Password u = u_Password v \<and> u_SpeedLimit u = u_SpeedLimit v"

definition covers :: "(int, User) gomap \<Rightarrow> User set \<Rightarrow> bool" where
  "covers m S \<longleftrightarrow> wf_map m \<and> (\<forall>i e. mget m i = Some e \<longrightarrow> e \<in> S \<and> u_ID e = i) \<and>
     (\<forall>u \<in> S. \<exists>e. mget m (u_ID u) = Some e \<and> agrees e u)"

lemma covers_insert_old:
  "covers m S \<Longrightarrow> mget m (u_ID u) = Some e \<Longrightarrow> agrees e u \<Longrightarrow> covers m (insert u S)"
  unfolding covers_def by auto

lemma covers_insert_new:
  "covers m S \<Longrightarrow> mget m (u_ID u) = None \<Longrightarrow> covers (mput (u_ID u) u m) (insert u S)"
  unfolding covers_def by (auto simp: agrees_def)

lemma merge_node_covers:
  "covers m S \<Longrightarrow> merge_node key us m = Inr m' \<Longrightarrow> covers m' (S \<union> set us)"
proof (induction key us m arbitrary: S rule: merge_node.induct)
  case (2 key u us merged)
  show ?case
  proof (cases "mget merged (u_ID u)")
    case None
    then show ?thesis using "2.IH"(1) [OF None covers_insert_new [OF "2.prems"(1) None]] "2.prems"(2) by simp
  next
    case (Some e)
    then have a: "agrees e u" using "2.prems"(2) by (auto simp: agrees_def split: if_splits)
    then show ?thesis
      using "2.IH"(2) [OF Some _ covers_insert_old [OF "2.prems"(1) Some a]] "2.prems"(2) Some
      by (simp add: agrees_def)
  qed
qed simp

lemma merge_nodes_covers:
  "covers m S \<Longrightarrow> merge_nodes byNode m = Inr m' \<Longrightarrow> covers m' (S \<union> (\<Union>p \<in> set byNode. set (snd p)))"
proof (induction byNode m arbitrary: S rule: merge_nodes.induct)
  case (2 key us byNode merged)
  then obtain m1 where m1: "merge_node key us merged = Inr m1" by (auto split: sum.splits)
  then show ?case using "2.IH" [OF m1 merge_node_covers [OF "2.prems"(1) m1]] "2.prems"(2) by (simp add: Un_assoc)
qed simp

definition consistent :: "User set \<Rightarrow> bool" where
  "consistent S \<longleftrightarrow> (\<forall>u \<in> S. \<forall>v \<in> S. u_ID u = u_ID v \<longrightarrow> agrees u v)"

lemma merge_node_consistent:
  assumes "covers m S" "consistent (S \<union> set us)"
  shows "\<exists>m'. merge_node key us m = Inr m' \<and> covers m' (S \<union> set us)"
  using assms
proof (induction us arbitrary: m S)
  case (Cons u us)
  have c: "consistent (insert u S \<union> set us)" using Cons.prems(2) by simp
  show ?case
  proof (cases "mget m (u_ID u)")
    case None
    then show ?thesis using Cons.IH [OF covers_insert_new [OF Cons.prems(1) None] c] by simp
  next
    case (Some e)
    then have "e \<in> S" "u_ID e = u_ID u" using Cons.prems(1) by (auto simp: covers_def)
    then have a: "agrees e u" using Cons.prems(2) by (auto simp: consistent_def)
    then show ?thesis using Cons.IH [OF covers_insert_old [OF Cons.prems(1) Some a] c] Some by (simp add: agrees_def)
  qed
qed simp

lemma merge_nodes_consistent:
  assumes "covers m S" "consistent (S \<union> (\<Union>p \<in> set byNode. set (snd p)))"
  shows "\<exists>m'. merge_nodes byNode m = Inr m'"
  using assms
proof (induction byNode arbitrary: m S)
  case (Cons p byNode)
  obtain key us where p: "p = (key, us)" by (cases p)
  have "consistent (S \<union> set us)" using Cons.prems(2) by (auto simp: consistent_def p)
  then obtain m1 where m1: "merge_node key us m = Inr m1" "covers m1 (S \<union> set us)"
    using merge_node_consistent [OF Cons.prems(1)] by blast
  then show ?case using Cons.IH [OF m1(2)] Cons.prems(2) by (simp add: p Un_assoc)
qed simp

lemma covers_consistent: "covers m S \<Longrightarrow> consistent S"
  unfolding covers_def consistent_def agrees_def by (metis option.inject)

lemma covers_empty: "covers [] {}"
  by (simp add: covers_def)

lemma groupNodeUsers_get:
  assumes "distinct (map InboundTag nodes)" "n \<in> set nodes"
  shows "mget (groupNodeUsers nodes byNode) (InboundTag n) = Some (mget0 [] byNode (Key n))"
proof -
  have "mget (fold (\<lambda>n out. mput (InboundTag n) (mget0 [] byNode (Key n)) out) ns acc) t =
      (case find (\<lambda>n. InboundTag n = t) (rev ns) of Some n \<Rightarrow> Some (mget0 [] byNode (Key n)) | None \<Rightarrow> mget acc t)"
    for ns t acc
    by (induction ns rule: rev_induct) auto
  then show ?thesis
    using find_tag [of "rev nodes" n] assms by (simp add: groupNodeUsers_def rev_map [symmetric])
qed

lemma fetch_nodes_keeps_agent:
  "snd (fst (fetch_nodes (agent_http http) cs w byNode)) = snd w"
proof (induction cs arbitrary: w byNode)
  case (Cons p cs)
  obtain client node where p: "p = (client, node)" by (cases p)
  obtain w1 r where f: "Client_FetchUsers (agent_http http) client w = (w1, r)"
    by (cases "Client_FetchUsers (agent_http http) client w")
  have "snd w1 = snd w"
    using f by (auto simp: Client_FetchUsers_def agent_http_def split_beta split: sum.splits prod.splits option.splits)
  then show ?case using Cons.IH by (cases r) (simp_all add: p f)
qed simp

section \<open>Properties\<close>


text \<open>
  C16: Merging the lists of the nodes succeeds exactly when all nodes agree on the UUID, the
  password and the speed limit of every user number, whatever the order in which the
  map of lists is traversed, and then the result has one entry for every number.
\<close>

theorem merge_agrees:
  "case mergeUsersByNode byNode of
     Inl _ \<Rightarrow> \<not> consistent (\<Union>p \<in> set byNode. set (snd p))
   | Inr us \<Rightarrow> consistent (\<Union>p \<in> set byNode. set (snd p)) \<and> distinct (map u_ID us) \<and>
       u_ID ` set us = u_ID ` (\<Union>p \<in> set byNode. set (snd p)) \<and> set us \<subseteq> (\<Union>p \<in> set byNode. set (snd p))"
proof (cases "merge_nodes byNode []")
  case (Inl e)
  then show ?thesis using merge_nodes_consistent [OF covers_empty, of byNode] by (auto simp: mergeUsersByNode_def)
next
  case (Inr m)
  have c: "covers m (\<Union>p \<in> set byNode. set (snd p))" using merge_nodes_covers [OF covers_empty Inr] by simp
  then have ids: "map u_ID (map snd m) = map fst m"
    unfolding covers_def by (auto simp: mget_in_set)
  have dist: "distinct (map u_ID (map snd m))" unfolding ids using c by (simp add: covers_def)
  have sub: "set (map snd m) \<subseteq> (\<Union>p \<in> set byNode. set (snd p))"
    using c unfolding covers_def by (auto simp: mget_in_set)
  have sup: "u_ID ` (\<Union>p \<in> set byNode. set (snd p)) \<subseteq> u_ID ` set (map snd m)"
  proof
    fix i
    assume "i \<in> u_ID ` (\<Union>p \<in> set byNode. set (snd p))"
    then obtain e where "mget m i = Some e" using c unfolding covers_def by blast
    then have "e \<in> set (map snd m)" "u_ID e = i"
      using c unfolding covers_def by (force dest: map_of_SomeD)+
    then show "i \<in> u_ID ` set (map snd m)" by blast
  qed
  have "u_ID ` set (map snd m) = u_ID ` (\<Union>p \<in> set byNode. set (snd p))"
    by (rule subset_antisym [OF image_mono [OF sub] sup])
  then show ?thesis using covers_consistent [OF c] dist sub by (simp add: mergeUsersByNode_def Inr)
qed

end
