(* ===== verification/Billing.thy ===== *)
theory Billing
  imports Topology_Panel
begin

text \<open>
  Exactly-once billing of the agent as it is wired in the multi-node mode: the loop of
  theory Sync over the panel of theory Topology_Panel and the registry of theory
  Hook_Ledger. The locale \<open>topology_run\<close> names what is relied on, is shown to be an
  instance of the abstract contract \<open>billing\<close>, and is itself interpreted with a remote
  that keeps its books in memory.
\<close>

section \<open>A remote panel that keeps its word\<close>

text \<open>An in-memory remote: it books a pushed body on the address it was pushed to and
  answers every request with the status 200 and an empty user list.\<close>

definition body_amount :: "json \<Rightarrow> int \<Rightarrow> int \<times> int" where
  "body_amount j uid =
     (case j of
        JObj ms \<Rightarrow>
          (case map_of ms (Itoa uid) of
             Some (JArr [JNum a, JNum b]) \<Rightarrow> (parse_value 0 (Atoi a), parse_value 0 (Atoi b))
           | _ \<Rightarrow> (0, 0))
      | _ \<Rightarrow> (0, 0))"

definition ledger_http :: "(string \<Rightarrow> int \<Rightarrow> int \<times> int) transport" where
  "ledger_http r req =
     (let resp = \<lparr>rs_StatusCode = 200, rs_Status = ''200 OK'', rs_Body = [CHR 0x7B, CHR 0x7D]\<rparr> in
      if rq_method req = ''POST'' then
        (case json_parse (rq_body req) of
           Some j \<Rightarrow> ((\<lambda>ep uid. if ep = rq_url req \<and> is_int64 uid then padd (r ep uid) (body_amount j uid) else r ep uid), Some resp)
         | None \<Rightarrow> (r, Some resp))
      else (r, Some resp))"

lemma payload_ok_Cons:
  "payload_ok (q # p) \<longleftrightarrow> mget p (fst q) = None \<and> is_int64 (fst q) \<and> is_int64 (fst (snd q)) \<and> is_int64 (snd (snd q)) \<and>
     payload_ok p"
  by (cases q) (auto simp: payload_ok_def map_of_eq_None_iff)

definition member_of :: "int \<times> int \<times> int \<Rightarrow> string \<times> json" where
  "member_of q = (Itoa (fst q), JArr [int_json (fst (snd q)), int_json (snd (snd q))])"

lemma payload_json_member_of: "payload_json p = JObj (sort_key fst (map member_of p))"
  by (simp add: payload_json_def member_of_def [abs_def] case_prod_unfold)

lemma payload_ok_keys: "payload_ok p \<Longrightarrow> is_int64 uid \<Longrightarrow> Itoa uid \<in> set (map fst (map member_of p)) \<Longrightarrow> mget p uid \<noteq> None"
  by (induction p) (auto simp: payload_ok_Cons member_of_def dest: Itoa_inj)

lemma distinct_members: "payload_ok p \<Longrightarrow> distinct (map fst (map member_of p))"
proof (induction p)
  case (Cons q p)
  then have "Itoa (fst q) \<notin> set (map fst (map member_of p))" using payload_ok_keys [of p "fst q"] by (auto simp: payload_ok_Cons)
  then show ?case using Cons by (simp add: payload_ok_Cons member_of_def)
qed simp

lemma map_of_members:
  "payload_ok p \<Longrightarrow> is_int64 uid \<Longrightarrow>
     map_of (map member_of p) (Itoa uid) = map_option (\<lambda>d. JArr [int_json (fst d), int_json (snd d)]) (mget p uid)"
proof (induction p)
  case (Cons q p)
  then show ?case using Itoa_inj [of uid "fst q"] by (cases q) (auto simp: payload_ok_Cons member_of_def)
qed simp

lemma payload_ok_get: "payload_ok p \<Longrightarrow> mget p uid = Some d \<Longrightarrow> is_int64 (fst d) \<and> is_int64 (snd d)"
  by (induction p) (auto simp: payload_ok_Cons split: if_splits)

lemma body_amount_payload:
  assumes "payload_ok p" "is_int64 uid"
  shows "body_amount (payload_json p) uid = mget0 (0, 0) p uid"
proof -
  have look: "map_of (sort_key fst (map member_of p)) (Itoa uid) =
      map_option (\<lambda>d. JArr [int_json (fst d), int_json (snd d)]) (mget p uid)"
    by (simp only: map_of_sort_key [OF distinct_members [OF assms(1)]] map_of_members [OF assms])
  show ?thesis
  proof (cases "mget p uid")
    case (Some d)
    then show ?thesis using payload_ok_get [OF assms(1) Some]
      by (simp add: body_amount_def payload_json_member_of look int_json_def mget0_def)
  next
    case None
    then show ?thesis by (simp add: body_amount_def payload_json_member_of look mget0_def)
  qed
qed

lemma payload_ok_none: "payload_ok p \<Longrightarrow> \<not> is_int64 uid \<Longrightarrow> mget p uid = None"
  by (induction p) (auto simp: payload_ok_Cons)

lemma wf_payload_json: "wf_json (payload_json p)"
  by (auto simp: payload_json_member_of member_of_def int_json_def)

lemma ledger_push:
  assumes "payload_ok p"
  shows "fst (ledger_http r (push_request ep p)) ep' uid =
      padd (r ep' uid) (if ep' = ep \<and> acknowledged (snd (ledger_http r (push_request ep p))) then mget0 (0, 0) p uid else (0, 0))"
proof (cases "is_int64 uid")
  case True
  have "quot64 200 100 = 2" by code_simp
  with True show ?thesis
    by (simp add: ledger_http_def push_request_def Let_def json_parse_print [OF wf_payload_json]
        body_amount_payload [OF assms] acknowledged_def status_2xx_def)
next
  case False
  then show ?thesis
    by (simp add: ledger_http_def push_request_def Let_def json_parse_print [OF wf_payload_json]
        payload_ok_none [OF assms] mget0_def)
qed

lemma honest_ledger: "honest ledger_http (\<lambda>r. r)"
  unfolding honest_def using ledger_push by (auto simp: ledger_http_def http_get_def Let_def)

lemma ledger_acks: "acknowledged (snd (ledger_http r req))"
proof -
  have "quot64 200 100 = 2" by code_simp
  then show ?thesis by (auto simp: ledger_http_def Let_def acknowledged_def status_2xx_def split: option.splits)
qed

section \<open>Billing in the multi-node mode\<close>

lemma agent_acks: "(\<And>r req. acknowledged (snd (http r req))) \<Longrightarrow> acknowledged (snd (agent_http http w req))"
  by (simp add: agent_http_def split_beta)

lemma client_push_acked:
  assumes "\<And>w req. acknowledged (snd (http w req))" "endpoint_url c push_path = Inr ep"
  shows "snd (snd (Client_PushTraffic http c w ds)) = None"
proof -
  have "snd (snd (case http w req of (w', None) \<Rightarrow> (w', [], Some TransportFailed)
      | (w', Some resp) \<Rightarrow> if status_2xx resp then (w', ack, None) else (w', [], Some (BadStatus (rs_Status resp) [])))) = None"
    for req and ack :: acked
    using assms(1) [of w req] by (auto simp: acknowledged_def split: prod.split option.splits)
  then show ?thesis using assms(2) by (simp add: Client_PushTraffic_def push_path_def Let_def split_beta)
qed

lemma push_nodes_acked:
  assumes "\<And>w req. acknowledged (snd (http w req))" "plain_base base"
  shows "list_all node_ok ns \<Longrightarrow> snd (snd (push_nodes http (zip (map (NewNodeClient base token) ns) ns) w ds ack [])) = None"
proof (induction ns arbitrary: w ack)
  case (Cons n ns)
  obtain w1 a1 e1 where push: "Client_PushTraffic http (NewNodeClient base token n) w ds = (w1, a1, e1)" by (metis prod_cases3)
  have "endpoint_url (NewNodeClient base token n) push_path = Inr (node_address base token n)"
    using endpoint_node [OF assms(2), of n token] Cons.prems by simp
  from client_push_acked [of http, OF assms(1) this, of w ds] have "e1 = None" by (simp add: push)
  then show ?case using Cons push by simp
qed simp

lemma topology_push_acked:
  assumes "\<And>r req. acknowledged (snd (http r req))" "plain_base base" "topology_ok \<lparr>tp_Nodes = nodes\<rparr>"
  shows "snd (snd (TP_PushTraffic (agent_http http) (newTopologyPanel base token nodes app) w ds)) = None"
  using push_nodes_acked [of "agent_http http", OF agent_acks [of http, OF assms(1)] assms(2)] assms(3)
  by (simp add: TP_PushTraffic_def newTopologyPanel_def topology_ok_def)

locale topology_run =
  fixes http :: "'r transport" and bill :: "'r \<Rightarrow> string \<Rightarrow> int \<Rightarrow> int \<times> int"
    and base :: string and token :: string and nodes :: "NodeSpec list"
    and b :: tags and clk :: "'r \<Rightarrow> int"
  assumes remote: "honest http bill" and address: "plain_base base" and valid: "topology_ok \<lparr>tp_Nodes = nodes\<rparr>"

sublocale topology_run \<subseteq> billed: billing "hook_inv (node_adm nodes)" hook_pend hook_snapshot hook_commit hook_act
    "hook_enabled (node_adm nodes)" hook_amount "node_adm nodes"
    "TP_PushTraffic (agent_http http) (newTopologyPanel base token nodes (Some (topology_apply b clk nodes)))"
    "node_booked bill base token nodes"
    "TP_FetchUsers (agent_http http) (newTopologyPanel base token nodes (Some (topology_apply b clk nodes)))"
    "newPanelUsersCallback True b clk" every
  for every
  by (rule topology_billing [OF remote address valid])

context topology_run
begin

lemma syncer_eq: "billed.sy every = topology_syncer http base token nodes b clk every"
  by (simp add: billed.sy_def topology_syncer_eq)

lemma rounds_bill_once:
  assumes "hook_inv (node_adm nodes) s" and "script_ok (topology_syncer http base token nodes b clk every) hook_act
      (hook_enabled (node_adm nodes)) rs (w, s)"
    and "rounds (topology_syncer http base token nodes b clk every) (map (script_env hook_act) rs) (w, s) = (w', s')"
    and "node_adm nodes t u" "isNumericUser u"
  shows "hook_inv (node_adm nodes) s'"
    and "padd (node_booked bill base token nodes w' t u) (hook_pend s' t u) =
      padd (padd (node_booked bill base token nodes w t u) (hook_pend s t u))
        (script_sum (topology_syncer http base token nodes b clk every) hook_act hook_amount rs (w, s) t u)"
  using billed.rounds_total [of "(w, s)" every rs w' s' u t] assms by (simp_all add: syncer_eq)

lemma final_flush_bills:
  assumes acks: "\<And>r req. acknowledged (snd (http r req))" and inv: "hook_inv (node_adm nodes) s"
    and fin: "FinalFlush (topology_syncer http base token nodes b clk every) (\<lambda>s. s) w s = (w', s')"
    and u: "node_adm nodes t u" "isNumericUser u"
  shows "hook_pend s' t u = (0, 0)"
    and "node_booked bill base token nodes w' t u = padd (node_booked bill base token nodes w t u) (hook_pend s t u)"
proof -
  have fin': "FinalFlush (billed.sy every) (\<lambda>s. s) w s = (w', s')" using fin by (simp add: syncer_eq)
  have run: "(\<lambda>s. s) = run_events hook_act []" by (simp add: fun_eq_iff)
  have none: "err = None"
    if p: "TP_PushTraffic (agent_http http) (newTopologyPanel base token nodes (Some (topology_apply b clk nodes))) w
        (hook_snapshot s) = (w1, ack, err)" for w1 ack err
    using topology_push_acked [of http, OF acks address valid, of token "Some (topology_apply b clk nodes)" w "hook_snapshot s"]
    by (simp add: p)
  show settled: "hook_pend s' t u = (0, 0)"
    by (rule billed.final_flush_settles [OF inv fin' u(2)]) (use none in \<open>auto simp: accepted_def\<close>)
  have "flush (billed.sy every) (run_events hook_act []) w s = (w', s')" using fin' by (simp add: FinalFlush_def run [symmetric])
  from billed.flush_total(2) [OF inv _ this u(2,1)]
  show "node_booked bill base token nodes w' t u = padd (node_booked bill base token nodes w t u) (hook_pend s t u)"
    by (simp add: settled)
qed

end


interpretation ledger: topology_run ledger_http "\<lambda>r. r" "''https://panel.example''" "''t0ken''"
  "tp_Nodes sample_topology" "[]" "\<lambda>r. 0"
proof
  show "honest ledger_http (\<lambda>r. r)" by (rule honest_ledger)
  show "plain_base ''https://panel.example''" by code_simp
  show "topology_ok \<lparr>tp_Nodes = tp_Nodes sample_topology\<rparr>"
    using sample_topology_valid by (simp add: Validate_None_iff sample_topology_def)
qed

section \<open>Properties\<close>


definition sample_round :: "hook_event list \<times> hook_event list" where
  "sample_round = ([Connect ''vless-21-in'' ''7'', Count 0 10 20], [])"

definition sample_syncer :: "((string \<Rightarrow> int \<Rightarrow> int \<times> int) agent, store \<times> hook_map) Syncer" where
  "sample_syncer = topology_syncer ledger_http ''https://panel.example'' ''t0ken'' (tp_Nodes sample_topology) [] (\<lambda>r. 0) 0"

definition sample_agent :: "(string \<Rightarrow> int \<Rightarrow> int \<times> int) agent" where
  "sample_agent = (\<lambda>_ _. (0, 0), [], NewUserManager 0 0)"

lemma seven: "Itoa 7 = ''7''"
  by code_simp

lemma sample_user: "node_adm (tp_Nodes sample_topology) ''vless-21-in'' ''7''" "isNumericUser ''7''"
proof -
  have "InboundTag (hd (tp_Nodes sample_topology)) = ''vless-21-in''" and "tp_Nodes sample_topology \<noteq> []" by code_simp+
  moreover have "canonical ''7''" unfolding seven [symmetric] by (simp add: canonical_def is_int64_def)
  ultimately show "node_adm (tp_Nodes sample_topology) ''vless-21-in'' ''7''"
    unfolding node_adm_def by (metis hd_in_set image_eqI)
  show "isNumericUser ''7''" unfolding seven [symmetric] by (simp add: is_int64_def)
qed

lemma sample_counted:
  "hook_act (Connect ''vless-21-in'' ''7'') (empty_store, []) =
     (fst (alloc empty_store), [(''vless-21-in'', [(''7'', 0)])])"
  by (simp add: hook_act_def hook_counter_def tc_def tag_or_default_def mhas_def GetCounter_def mget0_def
      NewTrafficCounter_def alloc_def empty_store_def Let_def)

lemma sample_inv: "hook_inv adm (empty_store, [])"
  using empty_hook_ok by (simp add: hook_inv_def hook_addr_def) (simp add: empty_store_def new_storage_def storage_ok_def)

lemma sample_round_ok:
  "script_ok sample_syncer hook_act (hook_enabled (node_adm (tp_Nodes sample_topology))) [sample_round] (sample_agent, empty_store, [])"
  using sample_user
  by (simp add: sample_round_def sample_counted hook_enabled_def tag_or_default_def)
    (simp add: alloc_def empty_store_def new_storage_def)


text \<open>
  C3: The last flush settles every account. When the remote answers every request with a
  success status, \<open>FinalFlush\<close> at shutdown leaves nothing pending and the remote has
  booked exactly what was pending before, for every user at every node.
\<close>

theorem final_flush_liveness:
  assumes "honest http bill" and "\<And>r req. acknowledged (snd (http r req))" and "plain_base base"
    and "Validate \<lparr>tp_Nodes = nodes\<rparr> = None" and "hook_inv (node_adm nodes) s" and "node_adm nodes t u" and "isNumericUser u"
  shows "\<exists>w' s'. FinalFlush (topology_syncer http base token nodes b clk every) (\<lambda>s. s) w s = (w', s') \<and>
    hook_pend s' t u = (0, 0) \<and>
    node_booked bill base token nodes w' t u = padd (node_booked bill base token nodes w t u) (hook_pend s t u)"
proof -
  have run: "topology_run http bill base nodes"
    using assms(1,3,4) by unfold_locales (simp_all add: Validate_None_iff)
  obtain w' s' where fin: "FinalFlush (topology_syncer http base token nodes b clk every) (\<lambda>s. s) w s = (w', s')" by (metis surj_pair)
  show ?thesis using topology_run.final_flush_bills [OF run assms(2,5) fin assms(6,7)] fin by blast
qed

theorem final_flush_liveness_witness:
  "\<exists>w' s'. FinalFlush sample_syncer (\<lambda>s. s) sample_agent (run_events hook_act (fst sample_round) (empty_store, [])) = (w', s') \<and>
     node_booked (\<lambda>r. r) ''https://panel.example'' ''t0ken'' (tp_Nodes sample_topology) w' ''vless-21-in'' ''7'' = (10, 20)"
proof -
  let ?N = "tp_Nodes sample_topology" and ?s = "run_events hook_act (fst sample_round) (empty_store, [])"
  have ev: "events_ok hook_act (hook_enabled (node_adm ?N)) (fst sample_round) (empty_store, [])"
    using sample_round_ok by simp
  have inv: "hook_inv (node_adm ?N) ?s" by (rule hook.run_inv [OF sample_inv ev])
  have "hook_pend ?s ''vless-21-in'' ''7'' = (10, 20)"
    using hook.run_pend [OF sample_inv ev, of "''vless-21-in''" "''7''"]
    by (simp add: sample_round_def sample_counted hook_amount_def hook_addr_def) (simp add: hook_pend_def pending_at_def hook_addr_def)
  moreover have "node_booked (\<lambda>r. r) ''https://panel.example'' ''t0ken'' ?N sample_agent ''vless-21-in'' ''7'' = (0, 0)"
    by (simp add: node_booked_def sample_agent_def split: option.split)
  moreover have "Validate \<lparr>tp_Nodes = ?N\<rparr> = None"
    using sample_topology_valid by (simp add: sample_topology_def)
  ultimately show ?thesis
    using final_flush_liveness [of ledger_http, OF ledger.remote ledger_acks ledger.address _ inv sample_user, of "''t0ken''" "[]" "\<lambda>r. 0" 0 sample_agent]
    by (auto simp: sample_syncer_def)
qed

end
