(* ===== verification/Node_Config.thy ===== *)
theory Node_Config
  imports Panel_Client
begin

text \<open>
  The node configuration a panel serves (\<^verbatim>\<open>panelapi/node_config.go\<close>): its JSON form, the
  request that fetches it and the probing of the protocol of a node. The lemmas say
  which answers are accepted, with and without the wrapping \<open>data\<close> object, and which
  protocol a probe settles on.
\<close>

section \<open>Data\<close>

record BaseConfig =
  bc_PushInterval :: int
  bc_PullInterval :: int

record ECHConfig =
  ech_Enabled :: bool
  ech_Config :: json
  ech_QueryServerName :: "string option"
  ech_Key :: string
  ech_KeyPath :: string
  ech_ConfigPath :: "string option"

record TLSSettings =
  tls_ServerName :: string
  tls_ServerPort :: string
  tls_PublicKey :: string
  tls_PrivateKey :: string
  tls_ShortID :: string
  tls_AllowInsecure :: bool
  tls_ECH :: ECHConfig

record NodeConfig =
  nc_Protocol :: string
  nc_ListenIP :: string
  nc_ServerPort :: int
  nc_Network :: string
  nc_NetworkConfig :: json
  nc_TLS :: int
  nc_Flow :: string
  nc_Decryption :: "string option"
  nc_TLSSettings :: TLSSettings
  nc_Version :: int
  nc_Host :: string
  nc_ServerName :: string
  nc_UpMbps :: int
  nc_DownMbps :: int
  nc_Obfs :: string
  nc_ObfsPassword :: string
  nc_BaseConfig :: BaseConfig

section \<open>Decoding\<close>

text \<open>\<open>StringInt\<close>: a string, or an integer that is written out again.\<close>

definition dec_StringInt :: "json \<Rightarrow> string option" where
  "dec_StringInt j =
     (case j of
        JNull \<Rightarrow> Some []
      | JStr s \<Rightarrow> Some s
      | JNum s \<Rightarrow> map_option Itoa (parse_ok (ParseInt s 10))
      | _ \<Rightarrow> None)"

definition dec_pstring :: "json \<Rightarrow> string option option" where
  "dec_pstring j = (case j of JNull \<Rightarrow> Some None | JStr s \<Rightarrow> Some (Some s) | _ \<Rightarrow> None)"

definition dec_BaseConfig :: "json \<Rightarrow> BaseConfig option" where
  "dec_BaseConfig j = do {
     ms \<leftarrow> dec_members j;
     let get = (\<lambda>name. obj_field [''push_interval'', ''pull_interval''] name ms);
     push \<leftarrow> dec_int (get ''push_interval'');
     pull \<leftarrow> dec_int (get ''pull_interval'');
     Some \<lparr>bc_PushInterval = push, bc_PullInterval = pull\<rparr>
   }"

definition dec_ECHConfig :: "json \<Rightarrow> ECHConfig option" where
  "dec_ECHConfig j = do {
     ms \<leftarrow> dec_members j;
     let get = (\<lambda>name. obj_field [''enabled'', ''config'', ''query_server_name'', ''key'', ''key_path'', ''config_path''] name ms);
     en \<leftarrow> dec_bool (get ''enabled'');
     q \<leftarrow> dec_pstring (get ''query_server_name'');
     key \<leftarrow> dec_string (get ''key'');
     kp \<leftarrow> dec_string (get ''key_path'');
     cp \<leftarrow> dec_pstring (get ''config_path'');
     Some \<lparr>ech_Enabled = en, ech_Config = get ''config'', ech_QueryServerName = q, ech_Key = key,
           ech_KeyPath = kp, ech_ConfigPath = cp\<rparr>
   }"

definition tls_fields :: "string list" where
  "tls_fields = [''server_name'', ''server_port'', ''public_key'', ''private_key'', ''short_id'', ''allow_insecure'', ''ech'']"

definition dec_TLSSettings :: "json \<Rightarrow> TLSSettings option" where
  "dec_TLSSettings j = do {
     ms \<leftarrow> dec_members j;
     let get = (\<lambda>name. obj_field tls_fields name ms);
     sn \<leftarrow> dec_string (get ''server_name'');
     sp \<leftarrow> dec_StringInt (get ''server_port'');
     pub \<leftarrow> dec_string (get ''public_key'');
     priv \<leftarrow> dec_string (get ''private_key'');
     sid \<leftarrow> dec_string (get ''short_id'');
     ins \<leftarrow> dec_bool (get ''allow_insecure'');
     ech \<leftarrow> dec_ECHConfig (get ''ech'');
     Some \<lparr>tls_ServerName = sn, tls_ServerPort = sp, tls_PublicKey = pub, tls_PrivateKey = priv,
           tls_ShortID = sid, tls_AllowInsecure = ins, tls_ECH = ech\<rparr>
   }"

definition config_fields :: "string list" where
  "config_fields =
     [''protocol'', ''listen_ip'', ''server_port'', ''network'', ''networkSettings'', ''tls'', ''flow'', ''decryption'',
      ''tls_settings'', ''version'', ''host'', ''server_name'', ''up_mbps'', ''down_mbps'', ''obfs'', ''obfs-password'',
      ''base_config'']"

definition dec_NodeConfig :: "json \<Rightarrow> NodeConfig option" where
  "dec_NodeConfig j = do {
     ms \<leftarrow> dec_members j;
     let get = (\<lambda>name. obj_field config_fields name ms);
     protocol \<leftarrow> dec_string (get ''protocol'');
     listen \<leftarrow> dec_string (get ''listen_ip'');
     port \<leftarrow> dec_int (get ''server_port'');
     network \<leftarrow> dec_string (get ''network'');
     tls \<leftarrow> dec_int (get ''tls'');
     flow \<leftarrow> dec_string (get ''flow'');
     decr \<leftarrow> dec_pstring (get ''decryption'');
     settings \<leftarrow> dec_TLSSettings (get ''tls_settings'');
     version \<leftarrow> dec_int (get ''version'');
     host \<leftarrow> dec_string (get ''host'');
     sname \<leftarrow> dec_string (get ''server_name'');
     up \<leftarrow> dec_int (get ''up_mbps'');
     down \<leftarrow> dec_int (get ''down_mbps'');
     obfs \<leftarrow> dec_string (get ''obfs'');
     obfsp \<leftarrow> dec_string (get ''obfs-password'');
     bc \<leftarrow> dec_BaseConfig (get ''base_config'');
     Some \<lparr>nc_Protocol = protocol, nc_ListenIP = listen, nc_ServerPort = port, nc_Network = network,
           nc_NetworkConfig = get ''networkSettings'', nc_TLS = tls, nc_Flow = flow, nc_Decryption = decr,
           nc_TLSSettings = settings, nc_Version = version, nc_Host = host, nc_ServerName = sname,
           nc_UpMbps = up, nc_DownMbps = down, nc_Obfs = obfs, nc_ObfsPassword = obfsp, nc_BaseConfig = bc\<rparr>
   }"

definition present :: "NodeConfig \<Rightarrow> bool" where
  "present cfg \<longleftrightarrow> nc_Protocol cfg \<noteq> [] \<or> nc_ServerPort cfg \<noteq> 0"

definition wrapped_config :: "json \<Rightarrow> api_error + NodeConfig" where
  "wrapped_config j =
     (case dec_members j \<bind> (\<lambda>ms. dec_NodeConfig (obj_field [''data''] ''data'' ms)) of
        None \<Rightarrow> Inl BadBody
      | Some d \<Rightarrow> if present d then Inr d else Inl MissingNodeConfig)"

definition decodeNodeConfig :: "string \<Rightarrow> api_error + NodeConfig" where
  "decodeNodeConfig raw =
     (case json_parse raw of
        None \<Rightarrow> Inl BadBody
      | Some j \<Rightarrow>
          (case dec_NodeConfig j of
             Some cfg \<Rightarrow> if present cfg then Inr cfg else wrapped_config j
           | None \<Rightarrow> wrapped_config j))"

section \<open>Fetching\<close>

text \<open>The text of an error answer. Its decoding error is ignored, so a member of the wrong
  type leaves what was there.\<close>

definition text_field :: "string list \<Rightarrow> string \<Rightarrow> json \<Rightarrow> string" where
  "text_field names name j =
     (case j of
        JObj ms \<Rightarrow>
          fold (\<lambda>(k, v) acc. case v of JStr s \<Rightarrow> if key_selects names name k then s else acc | _ \<Rightarrow> acc) ms []
      | _ \<Rightarrow> [])"

definition error_text :: "string \<Rightarrow> string" where
  "error_text raw =
     (case json_parse raw of
        None \<Rightarrow> []
      | Some j \<Rightarrow>
          (let msg = TrimSpace (text_field [''message'', ''error''] ''message'' j)
           in if msg = [] then TrimSpace (text_field [''message'', ''error''] ''error'' j) else msg))"

definition FetchNodeConfig :: "'w transport \<Rightarrow> Client \<Rightarrow> 'w \<Rightarrow> 'w \<times> (api_error + NodeConfig)" where
  "FetchNodeConfig http c w =
     (case endpoint_url c ''/api/v1/server/UniProxy/config'' of
        Inl e \<Rightarrow> (w, Inl e)
      | Inr ep \<Rightarrow>
          (case http w (http_get ep) of
             (w', None) \<Rightarrow> (w', Inl TransportFailed)
           | (w', Some resp) \<Rightarrow>
               (w', if status_2xx resp then decodeNodeConfig (rs_Body resp)
                    else Inl (BadStatus (rs_Status resp) (error_text (rs_Body resp))))))"

fun probe_types ::
  "'w transport \<Rightarrow> string \<Rightarrow> string \<Rightarrow> string \<Rightarrow> string list \<Rightarrow> 'w \<Rightarrow> api_error option \<Rightarrow> 'w \<times> (api_error + string \<times> NodeConfig)" where
  "probe_types http baseURL token nodeID [] w lastErr = (w, Inl (ProbeFailed lastErr))"
| "probe_types http baseURL token nodeID (nodeType # rest) w lastErr =
     (case FetchNodeConfig http (NewClient baseURL token nodeID nodeType) w of
        (w', Inr cfg) \<Rightarrow> (w', Inr (nodeType, cfg))
      | (w', Inl e) \<Rightarrow> probe_types http baseURL token nodeID rest w' (Some e))"

definition ProbeNodeConfig :: "'w transport \<Rightarrow> string \<Rightarrow> string \<Rightarrow> string \<Rightarrow> 'w \<Rightarrow> 'w \<times> (api_error + string \<times> NodeConfig)" where
  "ProbeNodeConfig http baseURL token nodeID w =
     probe_types http baseURL token nodeID [''vless'', ''hysteria2'', ''hysteria''] w None"

section \<open>Lemmas\<close>

lemma FetchNodeConfig_present:
  assumes "FetchNodeConfig http c w = (w', Inr cfg)"
  shows "present cfg"
proof -
  have "present cfg" if "decodeNodeConfig raw = Inr cfg" for raw
    using that by (auto simp: decodeNodeConfig_def wrapped_config_def split: option.splits if_splits)
  then show ?thesis
    using assms by (auto simp: FetchNodeConfig_def split: sum.splits prod.splits option.splits if_splits)
qed

lemma probe_types_Inr:
  "probe_types http base token i tys w le = (w', Inr (ty, cfg)) \<Longrightarrow> ty \<in> set tys \<and> present cfg"
  by (induction tys arbitrary: w le)
    (auto simp: FetchNodeConfig_present split: prod.splits sum.splits dest: FetchNodeConfig_present)

lemma data_selects_nothing: "name \<in> set config_fields \<Longrightarrow> obj_field config_fields name [(''data'', j)] = JNull"
proof -
  have "list_all (\<lambda>name. \<not> key_selects config_fields name ''data'') config_fields" by code_simp
  then show "name \<in> set config_fields \<Longrightarrow> obj_field config_fields name [(''data'', j)] = JNull"
    by (auto simp: obj_field_def list_all_iff)
qed

lemma config_fields_mem:
  "''protocol'' \<in> set config_fields"
  "''listen_ip'' \<in> set config_fields"
  "''server_port'' \<in> set config_fields"
  "''network'' \<in> set config_fields"
  "''networkSettings'' \<in> set config_fields"
  "''tls'' \<in> set config_fields"
  "''flow'' \<in> set config_fields"
  "''decryption'' \<in> set config_fields"
  "''tls_settings'' \<in> set config_fields"
  "''version'' \<in> set config_fields"
  "''host'' \<in> set config_fields"
  "''server_name'' \<in> set config_fields"
  "''up_mbps'' \<in> set config_fields"
  "''down_mbps'' \<in> set config_fields"
  "''obfs'' \<in> set config_fields"
  "''obfs-password'' \<in> set config_fields"
  "''base_config'' \<in> set config_fields"
  by code_simp+

lemma zero_decodes:
  "\<exists>t. dec_TLSSettings JNull = Some t" "\<exists>b. dec_BaseConfig JNull = Some b"
  by (simp_all add: dec_TLSSettings_def dec_BaseConfig_def dec_ECHConfig_def dec_members_def dec_string_def dec_int_def
      dec_pstring_def dec_StringInt_def dec_bool_def)

lemma bare_data: "\<exists>cfg. dec_NodeConfig (JObj [(''data'', j)]) = Some cfg \<and> \<not> present cfg"
proof -
  obtain t b where "dec_TLSSettings JNull = Some t" "dec_BaseConfig JNull = Some b" using zero_decodes by blast
  then show ?thesis
    by (simp add: dec_NodeConfig_def dec_members_def data_selects_nothing config_fields_mem dec_string_def dec_int_def
        dec_pstring_def present_def)
qed

section \<open>Properties\<close>

text \<open>
  A node configuration is read the same bare and wrapped. Whatever JSON object a panel
  serves and the agent accepts as a configuration, it accepts the object with that one
  as its \<open>data\<close> member as well, with the same result; and an accepted configuration has
  a protocol or a port.
\<close>

theorem wrapping_is_transparent:
  assumes "wf_json j" and "dec_NodeConfig j = Some cfg" and "present cfg"
  shows "decodeNodeConfig (print_json j) = Inr cfg \<and> decodeNodeConfig (print_json (JObj [(''data'', j)])) = Inr cfg"
proof -
  have ne: "j \<noteq> JNull" using assms(2,3)
    by (auto simp: dec_NodeConfig_def dec_members_def obj_field_def dec_string_def dec_int_def present_def Let_def
        split: bind_splits)
  obtain z where z: "dec_NodeConfig (JObj [(''data'', j)]) = Some z" "\<not> present z" using bare_data by blast
  have "wrapped_config (JObj [(''data'', j)]) = Inr cfg"
    using assms(2,3) ne by (simp add: wrapped_config_def dec_members_def obj_field_def key_selects_def)
  then show ?thesis
    using assms z by (simp add: decodeNodeConfig_def json_parse_print del: print_json.simps)
qed

definition sample_config :: json where
  "sample_config = JObj [(''protocol'', JStr ''vless''), (''listen_ip'', JNull)]"

theorem wrapping_is_transparent_witness:
  "\<exists>cfg. decodeNodeConfig (print_json (JObj [(''data'', sample_config)])) = Inr cfg \<and> nc_Protocol cfg = ''vless''"
proof -
  have "map_option (\<lambda>c. (present c, nc_Protocol c)) (dec_NodeConfig sample_config) = Some (True, ''vless'')" by code_simp
  then obtain cfg where "dec_NodeConfig sample_config = Some cfg" "present cfg" "nc_Protocol cfg = ''vless''" by auto
  moreover have "wf_json sample_config" by (simp add: sample_config_def)
  ultimately show ?thesis using wrapping_is_transparent [of sample_config cfg] by blast
qed

end
