(* ===== verification/Json_Indent.thy ===== *)
theory Json_Indent
  imports Json
begin

text \<open>
  \<^verbatim>\<open>json.MarshalIndent\<close> with an empty prefix and two blanks: every element and member on
  a line of its own, empty lists and objects closed at once. Parsing what it prints
  gives the tree back.
\<close>

definition nl :: "nat \<Rightarrow> string" where
  "nl d = CHR 0x0A # replicate (2 * d) (CHR '' '')"

fun indent_json :: "nat \<Rightarrow> json \<Rightarrow> string" where
  "indent_json d (JArr js) =
     (if js = [] then [CHR 0x5B, CHR 0x5D]
      else CHR 0x5B # nl (Suc d) @ Join (map (indent_json (Suc d)) js) (CHR '','' # nl (Suc d)) @ nl d @ [CHR 0x5D])"
| "indent_json d (JObj ms) =
     (if ms = [] then [CHR 0x7B, CHR 0x7D]
      else CHR 0x7B # nl (Suc d) @
        Join (map (\<lambda>(k, v). print_str k @ CHR '':'' # CHR '' '' # indent_json (Suc d) v) ms) (CHR '','' # nl (Suc d)) @
        nl d @ [CHR 0x7D])"
| "indent_json d j = print_json j"

definition MarshalIndent :: "json \<Rightarrow> string" where
  "MarshalIndent j = indent_json 0 j"

lemma skip_ws_nl [simp]: "skip_ws (nl d @ s) = skip_ws s"
proof -
  have "is_ws (CHR 0x0A)" "is_ws (CHR '' '')" by code_simp+
  then show ?thesis by (simp add: nl_def skip_ws_def dropWhile_append)
qed

lemma nl_not_Nil [simp]: "nl d \<noteq> []"
  by (simp add: nl_def)

lemma json_value_ws [simp]: "json_value n (nl d @ s) = json_value n s"
  by (cases n) simp_all

lemma json_elems_ws [simp]: "json_elems n (nl d @ s) = json_elems n s"
  by (cases n) simp_all

lemma json_members_ws [simp]: "json_members n (nl d @ s) = json_members n s"
  by (cases n) simp_all

lemma rest_ok_nl [simp]: "rest_ok (nl d @ s)" "rest_ok (CHR '','' # s)" "rest_ok (CHR 0x5D # s)" "rest_ok (CHR 0x7D # s)"
  by (simp_all add: rest_ok_def nl_def)

lemma skip_ws_close [simp]:
  "skip_ws (CHR 0x5D # s) = CHR 0x5D # s" "skip_ws (CHR 0x7D # s) = CHR 0x7D # s" "skip_ws (CHR '','' # s) = CHR '','' # s"
  "skip_ws (CHR '':'' # s) = CHR '':'' # s" "skip_ws (CHR 0x22 # s) = CHR 0x22 # s"
proof -
  have "\<not> is_ws (CHR 0x5D)" "\<not> is_ws (CHR 0x7D)" "\<not> is_ws (CHR '','')" "\<not> is_ws (CHR '':'')" "\<not> is_ws (CHR 0x22)"
    by code_simp+
  then show "skip_ws (CHR 0x5D # s) = CHR 0x5D # s" "skip_ws (CHR 0x7D # s) = CHR 0x7D # s"
    "skip_ws (CHR '','' # s) = CHR '','' # s" "skip_ws (CHR '':'' # s) = CHR '':'' # s" "skip_ws (CHR 0x22 # s) = CHR 0x22 # s"
    by (simp_all add: skip_ws_def)
qed

lemma json_value_blank: "json_value n (CHR '' '' # s) = json_value n s"
proof -
  have "is_ws (CHR '' '')" by code_simp
  then have "skip_ws (CHR '' '' # s) = skip_ws s" by (simp add: skip_ws_def)
  then show ?thesis by (cases n) simp_all
qed

lemma elems_indent:
  assumes "js \<noteq> []" and "fuel_list (map fuel js) \<le> n"
    and "\<And>j m r. j \<in> set js \<Longrightarrow> fuel j \<le> m \<Longrightarrow> rest_ok r \<Longrightarrow> json_value m (indent_json d j @ r) = Some (j, r)"
  shows "json_elems n (Join (map (indent_json d) js) (CHR '','' # nl d) @ nl e @ CHR 0x5D # r) = Some (js, r)"
  using assms
proof (induction js arbitrary: n)
  case (Cons j js)
  then obtain m where m: "n = Suc m" "fuel j \<le> m" "fuel_list (map fuel js) \<le> m" by (cases n) auto
  show ?case
  proof (cases js)
    case Nil
    then show ?thesis using m Cons.prems(3) [of j m] by simp
  next
    case (Cons j' js')
    have "json_elems m (Join (map (indent_json d) js) (CHR '','' # nl d) @ nl e @ CHR 0x5D # r) = Some (js, r)"
      using Cons.IH [of m] Cons.prems m Cons by simp
    then show ?thesis using m Cons.prems(3) [of j m] Cons by simp
  qed
qed simp

lemma parse_str_print_str: "parse_str (length (print_str k @ x)) (tl (print_str k @ x)) = Some (k, x)"
  using parse_str_print [of k "length (print_str k @ x)" x] length_print_chars [of k]
  by (simp add: print_str_def)

lemma print_str_quote: "\<exists>y. print_str k @ x = CHR 0x22 # y"
  by (simp add: print_str_def)

lemma members_indent_step:
  assumes "json_value m (s @ x) = Some (v, x)"
  shows "json_members (Suc m) (print_str k @ CHR '':'' # CHR '' '' # s @ x) =
     (case skip_ws x of [] \<Rightarrow> None
      | c # t \<Rightarrow> if c = CHR 0x7D then Some ([(k, v)], t)
                 else if c = CHR '','' then map_option (\<lambda>(vs, r). ((k, v) # vs, r)) (json_members m t)
                 else None)"
proof -
  obtain y where y: "print_str k @ CHR '':'' # CHR '' '' # s @ x = CHR 0x22 # y" using print_str_quote by blast
  show ?thesis
    using y parse_str_print_str [of k "CHR '':'' # CHR '' '' # s @ x"] assms
    by (auto simp: Let_def json_value_blank split: list.splits)
qed

lemma members_indent:
  assumes "ms \<noteq> []" and "fuel_list (map (\<lambda>p. fuel (snd p)) ms) \<le> n"
    and "\<And>p m r. p \<in> set ms \<Longrightarrow> fuel (snd p) \<le> m \<Longrightarrow> rest_ok r \<Longrightarrow>
           json_value m (indent_json d (snd p) @ r) = Some (snd p, r)"
  shows "json_members n (Join (map (\<lambda>(k, v). print_str k @ CHR '':'' # CHR '' '' # indent_json d v) ms) (CHR '','' # nl d) @
      nl e @ CHR 0x7D # r) = Some (ms, r)"
  using assms
proof (induction ms arbitrary: n)
  case (Cons p ms)
  obtain k v where p: "p = (k, v)" by (cases p)
  obtain m where m: "n = Suc m" "fuel v \<le> m" "fuel_list (map (\<lambda>p. fuel (snd p)) ms) \<le> m"
    using Cons.prems(2) p by (cases n) auto
  have val: "rest_ok x \<Longrightarrow> json_value m (indent_json d v @ x) = Some (v, x)" for x
    using Cons.prems(3) [of p m x] p m by simp
  note step = members_indent_step [OF val, of _ k]
  show ?case
  proof (cases ms)
    case Nil
    then show ?thesis using step [of "nl e @ CHR 0x7D # r"] p m(1) by simp
  next
    case (Cons p' ms')
    let ?t = "Join (map (\<lambda>(k, v). print_str k @ CHR '':'' # CHR '' '' # indent_json d v) ms) (CHR '','' # nl d) @ nl e @ CHR 0x7D # r"
    have "json_members m ?t = Some (ms, r)" using Cons.IH [of m] Cons.prems m Cons by simp
    then show ?thesis using step [of "CHR '','' # nl d @ ?t"] p m(1) Cons by simp
  qed
qed simp

lemma indent_Cons:
  assumes "wf_json j"
  shows "\<exists>c s. indent_json d j = c # s \<and> \<not> is_ws c \<and> c \<noteq> CHR 0x5D \<and> c \<noteq> CHR 0x7D"
proof -
  have ws: "\<not> is_ws (CHR 0x5B)" "\<not> is_ws (CHR 0x7B)" by code_simp+
  obtain c s where "print_json j = c # s" "\<not> is_ws c" "c \<noteq> CHR 0x5D" "c \<noteq> CHR 0x7D" using print_json_Cons [OF assms] .
  then show ?thesis using ws by (cases j) simp_all
qed

lemma json_value_indent:
  "wf_json j \<Longrightarrow> fuel j \<le> n \<Longrightarrow> rest_ok r \<Longrightarrow> json_value n (indent_json d j @ r) = Some (j, r)"
proof (induction j arbitrary: n r d)
  case (JArr js)
  then obtain m where m: "n = Suc m" "fuel_list (map fuel js) \<le> m" by (cases n) auto
  show ?case
  proof (cases js)
    case Nil
    then show ?thesis using m by (simp add: Let_def)
  next
    case (Cons j js')
    then have "wf_json j" using JArr.prems by simp
    then obtain c s where c: "indent_json (Suc d) j = c # s" "\<not> is_ws c" "c \<noteq> CHR 0x5D" "c \<noteq> CHR 0x7D"
      using indent_Cons by blast
    let ?t = "Join (map (indent_json (Suc d)) js) (CHR '','' # nl (Suc d)) @ nl d @ CHR 0x5D # r"
    have "json_elems m ?t = Some (js, r)" using Cons m JArr by (intro elems_indent) auto
    moreover obtain t where "?t = c # t" using c Cons by (cases js') auto
    moreover have "skip_ws (c # t) = c # t" for t using c(2) by (simp add: skip_ws_def)
    ultimately show ?thesis using m c Cons by (simp add: Let_def)
  qed
next
  case (JObj ms)
  then obtain m where m: "n = Suc m" "fuel_list (map (\<lambda>p. fuel (snd p)) ms) \<le> m" by (cases n) auto
  show ?case
  proof (cases ms)
    case Nil
    then show ?thesis using m by (simp add: Let_def)
  next
    case (Cons p ms')
    obtain k v where p: "p = (k, v)" by (cases p)
    let ?t = "Join (map (\<lambda>(k, v). print_str k @ CHR '':'' # CHR '' '' # indent_json (Suc d) v) ms) (CHR '','' # nl (Suc d)) @ nl d @ CHR 0x7D # r"
    have "json_value m' (indent_json (Suc d) (snd q) @ r') = Some (snd q, r')"
      if "q \<in> set ms" "fuel (snd q) \<le> m'" "rest_ok r'" for q m' r'
      using JObj.IH [of q "snd q" m' r' "Suc d"] JObj.prems(1) that by (cases q) auto
    then have "json_members m ?t = Some (ms, r)" using Cons m by (intro members_indent) auto
    moreover obtain t where "?t = CHR 0x22 # t" using Cons p by (cases ms') (auto simp: print_str_def)
    ultimately show ?thesis using m Cons by (simp add: Let_def)
  qed
qed (simp_all only: indent_json.simps json_value_print)

lemma length_Join_mono:
  "list_all2 (\<lambda>x y. length x \<le> length y) xs ys \<Longrightarrow> length s \<le> length t \<Longrightarrow> length (Join xs s) \<le> length (Join ys t)"
proof (induction xs ys rule: list_all2_induct)
  case (Cons x xs y ys)
  then show ?case by (cases xs; cases ys) auto
qed simp

lemma indent_longer: "length (print_json j) \<le> length (indent_json d j)"
proof (induction j arbitrary: d)
  case (JArr js)
  have "length (Join (map print_json js) '','') \<le> length (Join (map (indent_json (Suc d)) js) (CHR '','' # nl (Suc d)))"
    using JArr by (intro length_Join_mono) (auto simp: list_all2_map1 list_all2_map2 list.rel_refl_strong)
  then show ?case by (auto simp: nl_def)
next
  case (JObj ms)
  have "length (Join (map (\<lambda>(k, v). print_str k @ CHR '':'' # print_json v) ms) '','') \<le>
      length (Join (map (\<lambda>(k, v). print_str k @ CHR '':'' # CHR '' '' # indent_json (Suc d) v) ms) (CHR '','' # nl (Suc d)))"
    using JObj
    by (intro length_Join_mono) (auto simp: list_all2_map1 list_all2_map2 le_SucI intro!: list.rel_refl_strong intro: snds.intros)
  then show ?case by (auto simp: nl_def)
qed simp_all

lemma parse_MarshalIndent: "wf_json j \<Longrightarrow> json_parse (MarshalIndent j) = Some j"
  using json_value_indent [of j "2 * length (indent_json 0 j) + 2" "[]" 0] fuel_bound [of j] indent_longer [of j 0]
  by (simp add: json_parse_def MarshalIndent_def rest_ok_def skip_ws_def)

end
