(* ===== verification/Go_Path.thy ===== *)
theory Go_Path
  imports Go_Strings
begin

text \<open>
  The functions of Go's \<^verbatim>\<open>path/filepath\<close> the program uses, with a slash as separator:
  \<open>Clean\<close>, \<open>Dir\<close> and \<open>Join\<close>. The lemma on joining a file name says where the file lies.
\<close>

definition slash :: char where "slash = CHR ''/''"

definition clean_step :: "bool \<Rightarrow> string \<Rightarrow> string list \<Rightarrow> string list" where
  "clean_step rooted e acc =
     (if e = [] \<or> e = ''.'' then acc
      else if e = ''..'' then
        (case acc of
           [] \<Rightarrow> if rooted then [] else [e]
         | prev # below \<Rightarrow> if prev = ''..'' then e # acc else below)
      else e # acc)"

definition clean_elems :: "bool \<Rightarrow> string \<Rightarrow> string list" where
  "clean_elems rooted p = rev (fold (clean_step rooted) (SplitByte p slash) [])"

definition is_rooted :: "string \<Rightarrow> bool" where
  "is_rooted p \<longleftrightarrow> p \<noteq> [] \<and> hd p = slash"

definition Clean :: "string \<Rightarrow> string" where
  "Clean p =
     (let es = clean_elems (is_rooted p) p in
      if is_rooted p then slash # Join es [slash] else if es = [] then ''.'' else Join es [slash])"

definition Dir :: "string \<Rightarrow> string" where
  "Dir p = Clean (rev (dropWhile (\<lambda>c. c \<noteq> slash) (rev p)))"

definition Join_path :: "string \<Rightarrow> string \<Rightarrow> string" where
  "Join_path a b = (if a = [] \<and> b = [] then [] else if a = [] then Clean b else Clean (a @ slash # b))"

lemma SplitByte_not_Nil [simp]: "SplitByte s b \<noteq> []"
  by (induction s b rule: SplitByte.induct) (auto split: list.splits)

lemma SplitByte_none: "b \<notin> set s \<Longrightarrow> SplitByte s b = [s]"
  by (induction s b rule: SplitByte.induct) auto

lemma SplitByte_append: "SplitByte (s @ b # t) b = SplitByte s b @ SplitByte t b"
  by (induction s b rule: SplitByte.induct) (auto split: list.splits)

lemma Join_snoc: "es \<noteq> [] \<Longrightarrow> Join (es @ [e]) sep = Join es sep @ sep @ e"
  by (induction es sep rule: Join.induct) auto

definition plain_name :: "string \<Rightarrow> bool" where
  "plain_name e \<longleftrightarrow> slash \<notin> set e \<and> e \<notin> {[], ''.'', ''..''}"

lemma clean_elems_join:
  "plain_name e \<Longrightarrow> clean_elems r (d @ slash # e) = clean_elems r d @ [e]"
  by (simp add: clean_elems_def SplitByte_append SplitByte_none plain_name_def clean_step_def)

lemma clean_elems_ne: "e \<in> set (clean_elems r p) \<Longrightarrow> e \<noteq> []"
proof -
  have "e \<noteq> []" if "e \<in> set (fold (clean_step r) es acc)" "\<forall>e \<in> set acc. e \<noteq> []" for es acc
    using that
  proof (induction es arbitrary: acc)
    case (Cons x es)
    have "\<forall>e \<in> set (clean_step r x acc). e \<noteq> []" using Cons.prems(2) by (auto simp: clean_step_def split: list.splits)
    then show ?case using Cons by simp
  qed simp
  then show "e \<in> set (clean_elems r p) \<Longrightarrow> e \<noteq> []" by (auto simp: clean_elems_def)
qed

lemma Join_ne: "es \<noteq> [] \<Longrightarrow> \<forall>e \<in> set es. e \<noteq> [] \<Longrightarrow> Join es s \<noteq> []"
  by (induction es s rule: Join.induct) auto

lemma Join_clean_ne: "clean_elems r p \<noteq> [] \<Longrightarrow> Join (clean_elems r p) s \<noteq> []"
  using Join_ne clean_elems_ne by blast

lemma Clean_not_Nil [simp]: "Clean p \<noteq> []"
  using Join_clean_ne by (auto simp: Clean_def Let_def)

text \<open>The directory part of a joined path: everything in front of the file's name.\<close>

definition dir_prefix :: "string \<Rightarrow> string" where
  "dir_prefix d = (if is_rooted d \<and> clean_elems True d = [] then [slash] else if \<not> is_rooted d \<and> clean_elems False d = [] then [] else Clean d @ [slash])"

lemma Join_path_name:
  assumes "d \<noteq> []" "plain_name e"
  shows "Join_path d e = dir_prefix d @ e"
proof -
  define es where "es = clean_elems (is_rooted d) d"
  have r: "is_rooted (d @ slash # e) = is_rooted d" using assms(1) by (simp add: is_rooted_def)
  have j: "clean_elems (is_rooted d) (d @ slash # e) = es @ [e]" by (simp add: es_def clean_elems_join [OF assms(2)])
  show ?thesis
  proof (cases "es = []")
    case True
    then show ?thesis using assms(1) r j by (auto simp: Join_path_def Clean_def dir_prefix_def es_def Let_def slash_def)
  next
    case False
    have "Join es [slash] \<noteq> []" using False Join_clean_ne by (simp add: es_def)
    then show ?thesis using False assms(1) r j by (auto simp: Join_path_def Clean_def dir_prefix_def es_def Let_def Join_snoc)
  qed
qed

end
