(* ===== verification/Xboard_Config.thy ===== *)
theory Xboard_Config
  imports Node_Config Json_Indent Go_Path
begin

text \<open>
  The generation of the proxy's configuration from what the panel serves
  (\<^verbatim>\<open>cmd/mini-sb-agent/xboard_config.go\<close>): inbounds from node configurations, their
  certificates, and the files of the single-node, dual-node and topology modes. The
  lemmas read the written file back: every node's inbound has the node's tag and is
  routed to the node's own outbound, everything else is blocked.

  Files are a map from paths to contents; a set of paths says where creating or writing
  fails. Making a key and certificate is an argument, since it draws random numbers.
\<close>

section \<open>The host\<close>

record fs =
  fs_files :: "(string, string) gomap"
  fs_fails :: "string \<Rightarrow> bool"

record 'r host =
  h_remote :: 'r
  h_fs :: fs

datatype cfg_error =
    Api api_error
  | EmptyCertPath
  | MkdirFailed string
  | WriteFailed string
  | KeyGeneration
  | UnsupportedProtocol string
  | UnsupportedVersion int
  | MissingPort string
  | MissingPrivateKey
  | MissingNodeID string
  | BadNodeMode
  | ProtocolMismatch string string string
  | InvalidTopology topo_error
  | NodeFailed string cfg_error

definition Stat :: "string \<Rightarrow> 'r host \<Rightarrow> bool" where
  "Stat p h = mhas (fs_files (h_fs h)) p"

definition MkdirAll :: "string \<Rightarrow> 'r host \<Rightarrow> cfg_error option" where
  "MkdirAll d h = (if fs_fails (h_fs h) d then Some (MkdirFailed d) else None)"

definition WriteFile :: "string \<Rightarrow> string \<Rightarrow> 'r host \<Rightarrow> 'r host \<times> cfg_error option" where
  "WriteFile p data h =
     (if fs_fails (h_fs h) p then (h, Some (WriteFailed p))
      else (h\<lparr>h_fs := (h_fs h)\<lparr>fs_files := mput p data (fs_files (h_fs h))\<rparr>\<rparr>, None))"

definition host_http :: "'r transport \<Rightarrow> 'r host transport" where
  "host_http http h req = (let (r, resp) = http (h_remote h) req in (h\<lparr>h_remote := r\<rparr>, resp))"

type_synonym 'r keymaker = "'r \<Rightarrow> string \<Rightarrow> 'r \<times> (string \<times> string) option"

section \<open>Inbounds\<close>

type_synonym gen_object = "(string, json) gomap"

text \<open>A Go map of values is printed with its keys sorted.\<close>

definition json_map :: "gen_object \<Rightarrow> json" where
  "json_map m = JObj (sort_key fst m)"

definition num :: "int \<Rightarrow> json" where
  "num i = JNum (Itoa i)"

record xboardGenerateOptions =
  xo_PanelURL :: string
  xo_PanelToken :: string
  xo_PanelNodeID :: string
  xo_PanelNodeType :: string
  xo_NodeMode :: string
  xo_VLESSNodeID :: string
  xo_HY2NodeID :: string
  xo_Out :: string
  xo_NodeTypeOutPath :: string
  xo_CertPath :: string
  xo_KeyPath :: string

definition normalizeNodeMode :: "string \<Rightarrow> string" where
  "normalizeNodeMode v =
     (let t = ToLower (TrimSpace v) in
      if t \<in> {''vless'', ''vless-reality'', ''reality''} then ''vless''
      else if t \<in> {''hy2'', ''hysteria'', ''hysteria2''} then ''hy2''
      else if t \<in> {''both'', ''dual'', ''all''} then ''both''
      else t)"

definition defaultListen :: "string \<Rightarrow> string" where
  "defaultListen listen = (if listen = [] then ''::'' else listen)"

fun firstNonEmpty :: "string list \<Rightarrow> string" where
  "firstNonEmpty [] = []"
| "firstNonEmpty (v # vs) = (if v \<noteq> [] then v else firstNonEmpty vs)"

definition handshake_port :: "string \<Rightarrow> int" where
  "handshake_port s = (case parse_ok (Atoi s) of Some p \<Rightarrow> if s \<noteq> [] \<and> p > 0 then p else 443 | None \<Rightarrow> 443)"

definition vlessInboundFromNodeConfig :: "NodeConfig \<Rightarrow> string \<Rightarrow> cfg_error + gen_object" where
  "vlessInboundFromNodeConfig cfg listen =
     (let t = nc_TLSSettings cfg in
      if nc_ServerPort cfg \<le> 0 then Inl (MissingPort ''vless'')
      else if tls_PrivateKey t = [] then Inl MissingPrivateKey
      else
        let serverName = firstNonEmpty [tls_ServerName t, ''www.microsoft.com''];
            shortIDs = (if tls_ShortID t \<noteq> [] then [JStr (tls_ShortID t)] else [])
        in Inr
          [(''type'', JStr ''vless''), (''tag'', JStr ''vless-in''), (''listen'', JStr listen),
           (''listen_port'', num (nc_ServerPort cfg)), (''users'', JArr []),
           (''tls'', json_map
              [(''enabled'', JBool True), (''server_name'', JStr serverName),
               (''reality'', json_map
                  [(''enabled'', JBool True),
                   (''handshake'', json_map [(''server'', JStr serverName), (''server_port'', num (handshake_port (tls_ServerPort t)))]),
                   (''private_key'', JStr (tls_PrivateKey t)), (''short_id'', JArr shortIDs)])])])"

definition ensureSelfSignedCert :: "'r keymaker \<Rightarrow> string \<Rightarrow> string \<Rightarrow> string \<Rightarrow> 'r host \<Rightarrow> 'r host \<times> cfg_error option" where
  "ensureSelfSignedCert mk certPath keyPath serverName h =
     (if certPath = [] \<or> keyPath = [] then (h, Some EmptyCertPath)
      else if Stat certPath h \<and> Stat keyPath h then (h, None)
      else case MkdirAll (Dir certPath) h of
        Some e \<Rightarrow> (h, Some e)
      | None \<Rightarrow>
          (case MkdirAll (Dir keyPath) h of
             Some e \<Rightarrow> (h, Some e)
           | None \<Rightarrow>
               (case mk (h_remote h) serverName of
                  (r, None) \<Rightarrow> (h\<lparr>h_remote := r\<rparr>, Some KeyGeneration)
                | (r, Some (cert, key)) \<Rightarrow>
                    (case WriteFile certPath cert (h\<lparr>h_remote := r\<rparr>) of
                       (h1, Some e) \<Rightarrow> (h1, Some e)
                     | (h1, None) \<Rightarrow> WriteFile keyPath key h1))))"

definition cert_paths :: "xboardGenerateOptions \<Rightarrow> string \<times> string" where
  "cert_paths opts =
     (let outDir = Dir (xo_Out opts)
      in (if xo_CertPath opts = [] then Join_path outDir ''cert.pem'' else xo_CertPath opts,
          if xo_KeyPath opts = [] then Join_path outDir ''key.pem'' else xo_KeyPath opts))"

definition hy2_object :: "NodeConfig \<Rightarrow> string \<Rightarrow> string \<Rightarrow> string \<Rightarrow> string \<Rightarrow> gen_object" where
  "hy2_object cfg listen serverName certPath keyPath =
     [(''type'', JStr ''hysteria2''), (''tag'', JStr ''hy2-in''), (''listen'', JStr listen),
      (''listen_port'', num (nc_ServerPort cfg)), (''users'', JArr []),
      (''tls'', json_map
         [(''enabled'', JBool True), (''server_name'', JStr serverName),
          (''certificate_path'', JStr certPath), (''key_path'', JStr keyPath)])] @
     (if nc_UpMbps cfg > 0 then [(''up_mbps'', num (nc_UpMbps cfg))] else []) @
     (if nc_DownMbps cfg > 0 then [(''down_mbps'', num (nc_DownMbps cfg))] else []) @
     (if nc_Obfs cfg \<noteq> [] \<and> nc_ObfsPassword cfg \<noteq> []
      then [(''obfs'', json_map [(''type'', JStr (nc_Obfs cfg)), (''password'', JStr (nc_ObfsPassword cfg))])] else [])"

definition hy2InboundFromNodeConfig ::
  "'r keymaker \<Rightarrow> NodeConfig \<Rightarrow> xboardGenerateOptions \<Rightarrow> string \<Rightarrow> 'r host \<Rightarrow> 'r host \<times> (cfg_error + gen_object)" where
  "hy2InboundFromNodeConfig mk cfg opts listen h =
     (if nc_ServerPort cfg \<le> 0 then (h, Inl (MissingPort ''hysteria2''))
      else
        let (certPath, keyPath) = cert_paths opts;
            serverName = firstNonEmpty [nc_ServerName cfg, tls_ServerName (nc_TLSSettings cfg), ''bing.com'']
        in case ensureSelfSignedCert mk certPath keyPath serverName h of
             (h1, Some e) \<Rightarrow> (h1, Inl e)
           | (h1, None) \<Rightarrow> (h1, Inr (hy2_object cfg listen serverName certPath keyPath)))"

definition inboundFromNodeConfig ::
  "'r keymaker \<Rightarrow> NodeConfig \<Rightarrow> xboardGenerateOptions \<Rightarrow> string \<Rightarrow> 'r host \<Rightarrow> 'r host \<times> (cfg_error + gen_object)" where
  "inboundFromNodeConfig mk cfg opts listen h =
     (let p = ToLower (nc_Protocol cfg) in
      if p = ''vless'' then (h, vlessInboundFromNodeConfig cfg listen)
      else if p = ''hysteria'' \<or> p = ''hysteria2'' then
        (if nc_Version cfg \<noteq> 0 \<and> nc_Version cfg \<noteq> 2 then (h, Inl (UnsupportedVersion (nc_Version cfg)))
         else hy2InboundFromNodeConfig mk cfg opts listen h)
      else (h, Inl (UnsupportedProtocol (nc_Protocol cfg))))"

section \<open>Single-node and dual-node modes\<close>

definition simple_outbound :: "string \<Rightarrow> string \<Rightarrow> json" where
  "simple_outbound ty tag = json_map [(''type'', JStr ty), (''tag'', JStr tag)]"

definition builtin_outbounds :: "json list" where
  "builtin_outbounds = [simple_outbound ''direct'' ''direct'', simple_outbound ''block'' ''block'', simple_outbound ''dns'' ''dns-out'']"

definition config_root :: "json list \<Rightarrow> json list \<Rightarrow> gen_object \<Rightarrow> json" where
  "config_root inbounds outbounds route =
     json_map
       [(''log'', json_map [(''level'', JStr ''warn''), (''timestamp'', JBool True)]),
        (''inbounds'', JArr inbounds), (''outbounds'', JArr outbounds), (''route'', json_map route)]"

definition buildSingBoxConfigFromInbounds :: "gen_object list \<Rightarrow> string" where
  "buildSingBoxConfigFromInbounds inbounds =
     MarshalIndent (config_root (map json_map inbounds) builtin_outbounds [(''final'', JStr ''direct'')])"

definition buildSingBoxConfigFromNode ::
  "'r keymaker \<Rightarrow> NodeConfig \<Rightarrow> xboardGenerateOptions \<Rightarrow> 'r host \<Rightarrow> 'r host \<times> (cfg_error + string)" where
  "buildSingBoxConfigFromNode mk cfg opts h =
     (case inboundFromNodeConfig mk cfg opts (defaultListen (nc_ListenIP cfg)) h of
        (h1, Inl e) \<Rightarrow> (h1, Inl e)
      | (h1, Inr inbound) \<Rightarrow> (h1, Inr (buildSingBoxConfigFromInbounds [inbound])))"

definition fetch_config ::
  "'r transport \<Rightarrow> xboardGenerateOptions \<Rightarrow> string \<Rightarrow> string \<Rightarrow> 'r host \<Rightarrow> 'r host \<times> (cfg_error + NodeConfig)" where
  "fetch_config http opts nodeID nodeType h =
     (case FetchNodeConfig (host_http http) (NewClient (xo_PanelURL opts) (xo_PanelToken opts) nodeID nodeType) h of
        (h1, Inl e) \<Rightarrow> (h1, Inl (Api e))
      | (h1, Inr cfg) \<Rightarrow> (h1, Inr cfg))"

definition node_inbound ::
  "'r keymaker \<Rightarrow> xboardGenerateOptions \<Rightarrow> NodeConfig \<Rightarrow> 'r host \<Rightarrow> 'r host \<times> (cfg_error + gen_object)" where
  "node_inbound mk opts cfg h = inboundFromNodeConfig mk cfg opts (defaultListen (nc_ListenIP cfg)) h"

text \<open>The inbounds of the mode: one case of the switch.\<close>

definition one_inbound ::
  "'r transport \<Rightarrow> 'r keymaker \<Rightarrow> xboardGenerateOptions \<Rightarrow> string \<Rightarrow> string \<Rightarrow> string \<Rightarrow> 'r host \<Rightarrow> 'r host \<times> (cfg_error + gen_object list)" where
  "one_inbound http mk opts mode i nodeType h =
     (if i = [] then (h, Inl (MissingNodeID mode))
      else case fetch_config http opts i nodeType h of
        (h1, Inl e) \<Rightarrow> (h1, Inl e)
      | (h1, Inr cfg) \<Rightarrow>
          (case node_inbound mk opts cfg h1 of
             (h2, Inl e) \<Rightarrow> (h2, Inl e)
           | (h2, Inr inbound) \<Rightarrow> (h2, Inr [inbound])))"

definition both_inbounds ::
  "'r transport \<Rightarrow> 'r keymaker \<Rightarrow> xboardGenerateOptions \<Rightarrow> string \<Rightarrow> string \<Rightarrow> 'r host \<Rightarrow> 'r host \<times> (cfg_error + gen_object list)" where
  "both_inbounds http mk opts vlessID hy2ID h =
     (if vlessID = [] \<or> hy2ID = [] then (h, Inl (MissingNodeID ''both''))
      else case fetch_config http opts vlessID ''vless'' h of
        (h1, Inl e) \<Rightarrow> (h1, Inl e)
      | (h1, Inr vlessCfg) \<Rightarrow>
          (case fetch_config http opts hy2ID ''hysteria'' h1 of
             (h2, Inl e) \<Rightarrow> (h2, Inl e)
           | (h2, Inr hy2Cfg) \<Rightarrow>
               (case node_inbound mk opts vlessCfg h2 of
                  (h3, Inl e) \<Rightarrow> (h3, Inl e)
                | (h3, Inr vlessInbound) \<Rightarrow>
                    (case node_inbound mk opts hy2Cfg h3 of
                       (h4, Inl e) \<Rightarrow> (h4, Inl e)
                     | (h4, Inr hy2Inbound) \<Rightarrow> (h4, Inr [vlessInbound, hy2Inbound])))))"

definition chosen_mode :: "xboardGenerateOptions \<Rightarrow> string" where
  "chosen_mode opts =
     (let m1 = normalizeNodeMode (xo_NodeMode opts);
          m2 = (if m1 = [] \<or> m1 = ''auto'' then normalizeNodeMode (xo_PanelNodeType opts) else m1)
      in if m2 = [] \<or> m2 = ''auto'' then ''vless'' else m2)"

definition mode_inbounds ::
  "'r transport \<Rightarrow> 'r keymaker \<Rightarrow> xboardGenerateOptions \<Rightarrow> string \<Rightarrow> 'r host \<Rightarrow> 'r host \<times> (cfg_error + gen_object list)" where
  "mode_inbounds http mk opts mode h =
     (if mode = ''vless'' then one_inbound http mk opts mode (firstNonEmpty [xo_VLESSNodeID opts, xo_PanelNodeID opts]) ''vless'' h
      else if mode = ''hy2'' then one_inbound http mk opts mode (firstNonEmpty [xo_HY2NodeID opts, xo_PanelNodeID opts]) ''hysteria'' h
      else if mode = ''both'' then
        both_inbounds http mk opts (firstNonEmpty [xo_VLESSNodeID opts, xo_PanelNodeID opts]) (xo_HY2NodeID opts) h
      else (h, Inl BadNodeMode))"

text \<open>Creating the directory of a file and writing it.\<close>

definition write_out :: "string \<Rightarrow> string \<Rightarrow> 'r host \<Rightarrow> 'r host \<times> cfg_error option" where
  "write_out p data h = (case MkdirAll (Dir p) h of Some e \<Rightarrow> (h, Some e) | None \<Rightarrow> WriteFile p data h)"

definition generateXboardConfig ::
  "'r transport \<Rightarrow> 'r keymaker \<Rightarrow> xboardGenerateOptions \<Rightarrow> 'r host \<Rightarrow> 'r host \<times> (cfg_error + string)" where
  "generateXboardConfig http mk opts h =
     (let mode = chosen_mode opts in
      case mode_inbounds http mk opts mode h of
        (h1, Inl e) \<Rightarrow> (h1, Inl e)
      | (h1, Inr inbounds) \<Rightarrow>
          (case write_out (xo_Out opts) (buildSingBoxConfigFromInbounds inbounds) h1 of
             (h2, Some e) \<Rightarrow> (h2, Inl e)
           | (h2, None) \<Rightarrow>
               if xo_NodeTypeOutPath opts = [] then (h2, Inr mode)
               else (case write_out (xo_NodeTypeOutPath opts) (mode @ [CHR 0x0A]) h2 of
                       (h3, Some e) \<Rightarrow> (h3, Inl e)
                     | (h3, None) \<Rightarrow> (h3, Inr mode))))"

text \<open>The exit code of the subcommand, given the parsed flags, or \<open>None\<close> when the flags are
  not accepted.\<close>

definition runXboardGenerateConfig ::
  "'r transport \<Rightarrow> 'r keymaker \<Rightarrow> xboardGenerateOptions option \<Rightarrow> 'r host \<Rightarrow> 'r host \<times> int" where
  "runXboardGenerateConfig http mk parsed h =
     (case parsed of
        None \<Rightarrow> (h, 2)
      | Some opts \<Rightarrow>
          if xo_PanelURL opts = [] \<or> xo_PanelToken opts = [] \<or> xo_Out opts = [] then (h, 2)
          else
            let o1 = (if xo_NodeMode opts = [] \<and> xo_PanelNodeType opts \<noteq> []
                      then opts\<lparr>xo_NodeMode := normalizeNodeMode (xo_PanelNodeType opts)\<rparr> else opts);
                o2 = (if xo_NodeMode o1 = [] then o1\<lparr>xo_NodeMode := ''vless''\<rparr> else o1)
            in case generateXboardConfig http mk o2 h of
                 (h1, Inl e) \<Rightarrow> (h1, 1)
               | (h1, Inr _) \<Rightarrow> (h1, 0))"

section \<open>Topology mode\<close>

definition protocol_norm :: "string \<Rightarrow> string" where
  "protocol_norm p =
     (let t = ToLower (TrimSpace p) in
      if t \<in> {''vless'', ''vless-reality'', ''reality''} then ''vless''
      else if t \<in> {''hy2'', ''hysteria'', ''hysteria2''} then ''hysteria''
      else t)"

definition validateNodeProtocol :: "NodeSpec \<Rightarrow> NodeConfig \<Rightarrow> cfg_error option" where
  "validateNodeProtocol node cfg =
     (if protocol_norm (ns_NodeType node) \<noteq> protocol_norm (nc_Protocol cfg)
      then Some (ProtocolMismatch (ns_NodeID node) (ns_NodeType node) (nc_Protocol cfg)) else None)"

definition outboundFromNodeSpec :: "NodeSpec \<Rightarrow> json" where
  "outboundFromNodeSpec node =
     (let ob = ns_Outbound node in
      json_map
        [(''type'', JStr ''shadowsocks''), (''tag'', JStr (OutboundTag node)), (''server'', JStr (ob_Server ob)),
         (''server_port'', num (ob_ServerPort ob)), (''method'', JStr (ob_Method ob)), (''password'', JStr (ob_Password ob)),
         (''plugin'', JStr (ob_Plugin ob)), (''plugin_opts'', JStr (ob_PluginOpts ob))])"

definition node_options :: "nat \<Rightarrow> string \<Rightarrow> string \<Rightarrow> string \<Rightarrow> NodeSpec \<Rightarrow> xboardGenerateOptions" where
  "node_options count out certPath keyPath node =
     (let own = count > 1 \<and> normalizeNodeMode (ns_NodeType node) = ''hy2'' in
      \<lparr>xo_PanelURL = [], xo_PanelToken = [], xo_PanelNodeID = [], xo_PanelNodeType = [], xo_NodeMode = [],
       xo_VLESSNodeID = [], xo_HY2NodeID = [], xo_Out = out, xo_NodeTypeOutPath = [],
       xo_CertPath = (if own then Join_path (Dir out) (''cert-'' @ ns_NodeID node @ ''.pem'') else certPath),
       xo_KeyPath = (if own then Join_path (Dir out) (''key-'' @ ns_NodeID node @ ''.pem'') else keyPath)\<rparr>)"

definition outbound_tag_for :: "NodeSpec \<Rightarrow> string" where
  "outbound_tag_for node = (if outboundKind (ns_Outbound node) = ''direct'' then ''direct'' else OutboundTag node)"

definition node_outbounds :: "NodeSpec \<Rightarrow> json list" where
  "node_outbounds node =
     (if outboundKind (ns_Outbound node) = ''shadowsocks'' \<or> outboundKind (ns_Outbound node) = ''ss''
      then [outboundFromNodeSpec node] else [])"

definition node_rule :: "NodeSpec \<Rightarrow> json" where
  "node_rule node =
     json_map [(''inbound'', JArr [JStr (InboundTag node)]), (''outbound'', JStr (outbound_tag_for node))]"

fun topology_nodes ::
  "'r transport \<Rightarrow> 'r keymaker \<Rightarrow> string \<Rightarrow> string \<Rightarrow> nat \<Rightarrow> string \<Rightarrow> string \<Rightarrow> string \<Rightarrow> NodeSpec list \<Rightarrow> 'r host \<Rightarrow>
   gen_object list \<Rightarrow> json list \<Rightarrow> json list \<Rightarrow> 'r host \<times> (cfg_error + gen_object list \<times> json list \<times> json list)" where
  "topology_nodes http mk url token count out certPath keyPath [] h inbounds outbounds rules =
     (h, Inr (inbounds, outbounds, rules))"
| "topology_nodes http mk url token count out certPath keyPath (node # rest) h inbounds outbounds rules =
     (case FetchNodeConfig (host_http http) (NewClient url token (ns_NodeID node) (PanelNodeType node)) h of
        (h1, Inl e) \<Rightarrow> (h1, Inl (NodeFailed (Key node) (Api e)))
      | (h1, Inr cfg) \<Rightarrow>
          (case validateNodeProtocol node cfg of
             Some e \<Rightarrow> (h1, Inl e)
           | None \<Rightarrow>
               (case inboundFromNodeConfig mk cfg (node_options count out certPath keyPath node) (defaultListen (nc_ListenIP cfg)) h1 of
                  (h2, Inl e) \<Rightarrow> (h2, Inl (NodeFailed (Key node) e))
                | (h2, Inr inbound) \<Rightarrow>
                    topology_nodes http mk url token count out certPath keyPath rest h2
                      (inbounds @ [mput ''tag'' (JStr (InboundTag node)) inbound])
                      (outbounds @ node_outbounds node) (rules @ [node_rule node]))))"

definition generateTopologyConfig ::
  "'r transport \<Rightarrow> 'r keymaker \<Rightarrow> string \<Rightarrow> string \<Rightarrow> Topology \<Rightarrow> string \<Rightarrow> string \<Rightarrow> string \<Rightarrow> 'r host \<Rightarrow> 'r host \<times> cfg_error option" where
  "generateTopologyConfig http mk url token topology out certPath keyPath h =
     (case Validate topology of
        Some e \<Rightarrow> (h, Some (InvalidTopology e))
      | None \<Rightarrow>
          (case topology_nodes http mk url token (length (tp_Nodes topology)) out certPath keyPath (tp_Nodes topology) h
                  [] builtin_outbounds [] of
             (h1, Inl e) \<Rightarrow> (h1, Some e)
           | (h1, Inr (inbounds, outbounds, rules)) \<Rightarrow>
               write_out out
                 (MarshalIndent (config_root (map json_map inbounds) outbounds
                    [(''rules'', JArr rules), (''final'', JStr ''block'')])) h1))"

section \<open>Reading the generated file\<close>

definition jget :: "string \<Rightarrow> json \<Rightarrow> json option" where
  "jget k j = (case j of JObj ms \<Rightarrow> map_of ms k | _ \<Rightarrow> None)"

definition jlist :: "string \<Rightarrow> json \<Rightarrow> json list" where
  "jlist k j = (case jget k j of Some (JArr js) \<Rightarrow> js | _ \<Rightarrow> [])"

text \<open>The outbound of the first rule that lists the inbound, or the final one.\<close>

definition rule_lists :: "string \<Rightarrow> json \<Rightarrow> bool" where
  "rule_lists tag r \<longleftrightarrow> JStr tag \<in> set (jlist ''inbound'' r)"

definition route_of :: "json \<Rightarrow> string \<Rightarrow> json option" where
  "route_of doc tag =
     (case jget ''route'' doc of
        None \<Rightarrow> None
      | Some route \<Rightarrow>
          (case find (rule_lists tag) (jlist ''rules'' route) of
             Some r \<Rightarrow> jget ''outbound'' r
           | None \<Rightarrow> jget ''final'' route))"

lemma jget_json_map: "wf_map m \<Longrightarrow> jget k (json_map m) = mget m k"
  by (simp add: jget_def json_map_def map_of_sort_key)

lemma jget_config_root:
  assumes "wf_map route"
  shows "jget ''inbounds'' (config_root i ob route) = Some (JArr i)"
    and "jget ''outbounds'' (config_root i ob route) = Some (JArr ob)"
    and "jget ''route'' (config_root i ob route) = Some (json_map route)"
  by (simp_all add: config_root_def jget_json_map)

lemma wf_json_map [simp]: "wf_json (json_map m) \<longleftrightarrow> list_all (\<lambda>p. wf_json (snd p)) m"
  by (simp add: json_map_def list_all_iff)

lemma wf_num [simp]: "wf_json (num i)"
  by (auto simp: num_def)

definition obj_ok :: "gen_object \<Rightarrow> bool" where
  "obj_ok m \<longleftrightarrow> wf_map m \<and> list_all (\<lambda>p. wf_json (snd p)) m"

lemma wf_config_root:
  assumes "\<forall>j \<in> set i. wf_json j" "\<forall>j \<in> set ob. wf_json j" "list_all (\<lambda>p. wf_json (snd p)) route"
  shows "wf_json (config_root i ob route)"
  using assms by (simp add: config_root_def)

lemma vless_object:
  assumes "vlessInboundFromNodeConfig cfg listen = Inr m"
  shows "obj_ok m" "mget m ''type'' = Some (JStr ''vless'')" "mget m ''listen_port'' = Some (num (nc_ServerPort cfg))"
proof -
  have "obj_ok m \<and> mget m ''type'' = Some (JStr ''vless'') \<and> mget m ''listen_port'' = Some (num (nc_ServerPort cfg))"
    using assms by (cases "tls_ShortID (nc_TLSSettings cfg) = []")
      (simp_all add: vlessInboundFromNodeConfig_def Let_def obj_ok_def split: if_split_asm, auto)
  then show "obj_ok m" "mget m ''type'' = Some (JStr ''vless'')" "mget m ''listen_port'' = Some (num (nc_ServerPort cfg))"
    by simp_all
qed

lemma hy2_object_ok:
  "obj_ok (hy2_object cfg listen sn cp kp)" "mget (hy2_object cfg listen sn cp kp) ''type'' = Some (JStr ''hysteria2'')"
  "mget (hy2_object cfg listen sn cp kp) ''listen_port'' = Some (num (nc_ServerPort cfg))"
  by (simp_all add: hy2_object_def obj_ok_def)

lemma inbound_object:
  assumes "inboundFromNodeConfig mk cfg opts listen h = (h', Inr m)"
  shows "obj_ok m"
    and "mget m ''type'' = Some (JStr (if ToLower (nc_Protocol cfg) = ''vless'' then ''vless'' else ''hysteria2''))"
    and "mget m ''listen_port'' = Some (num (nc_ServerPort cfg))" and "ToLower (nc_Protocol cfg) \<in> {''vless'', ''hysteria'', ''hysteria2''}"
proof -
  consider "ToLower (nc_Protocol cfg) = ''vless''" "vlessInboundFromNodeConfig cfg listen = Inr m"
    | sn cp kp where "ToLower (nc_Protocol cfg) \<in> {''hysteria'', ''hysteria2''}" "m = hy2_object cfg listen sn cp kp"
    using assms
    by (auto simp: inboundFromNodeConfig_def hy2InboundFromNodeConfig_def Let_def split: if_splits prod.splits option.splits)
  then have "obj_ok m \<and> mget m ''type'' = Some (JStr (if ToLower (nc_Protocol cfg) = ''vless'' then ''vless'' else ''hysteria2'')) \<and>
      mget m ''listen_port'' = Some (num (nc_ServerPort cfg)) \<and> ToLower (nc_Protocol cfg) \<in> {''vless'', ''hysteria'', ''hysteria2''}"
  proof cases
    case 1
    then show ?thesis using vless_object [of cfg listen m] by simp
  next
    case 2
    then have "ToLower (nc_Protocol cfg) \<noteq> ''vless''" by auto
    then show ?thesis using 2 by (simp add: hy2_object_ok)
  qed
  then show "obj_ok m"
    "mget m ''type'' = Some (JStr (if ToLower (nc_Protocol cfg) = ''vless'' then ''vless'' else ''hysteria2''))"
    "mget m ''listen_port'' = Some (num (nc_ServerPort cfg))" "ToLower (nc_Protocol cfg) \<in> {''vless'', ''hysteria'', ''hysteria2''}"
    by blast+
qed

definition proxy_type :: "NodeSpec \<Rightarrow> string" where
  "proxy_type n = (if normalizeNodeType (ns_NodeType n) = ''vless'' then ''vless'' else ''hysteria2'')"

lemma protocol_norm_eq: "protocol_norm = normalizeNodeType"
  by (simp add: protocol_norm_def normalizeNodeType_def fun_eq_iff)

definition tagged :: "NodeSpec \<Rightarrow> gen_object \<Rightarrow> bool" where
  "tagged n m \<longleftrightarrow> obj_ok m \<and> mget m ''tag'' = Some (JStr (InboundTag n)) \<and> mget m ''type'' = Some (JStr (proxy_type n))"

lemma obj_ok_mput: "obj_ok m \<Longrightarrow> wf_json j \<Longrightarrow> obj_ok (mput k j m)"
proof -
  have "set (mput k j m) \<subseteq> insert (k, j) (set m)" for m :: gen_object by (induction m) auto
  then show "obj_ok m \<Longrightarrow> wf_json j \<Longrightarrow> obj_ok (mput k j m)" by (fastforce simp: obj_ok_def list_all_iff)
qed

lemma node_inbound_tagged:
  assumes "validateNodeProtocol n cfg = None" "inboundFromNodeConfig mk cfg opts listen h = (h', Inr m)"
  shows "tagged n (mput ''tag'' (JStr (InboundTag n)) m)"
proof -
  note io = inbound_object [OF assms(2)]
  have "TrimSpace ''vless'' = ''vless''" "TrimSpace ''hysteria'' = ''hysteria''" "TrimSpace ''hysteria2'' = ''hysteria2''"
    by code_simp+
  then have "normalizeNodeType (nc_Protocol cfg) = (if ToLower (nc_Protocol cfg) = ''vless'' then ''vless'' else ''hysteria'')"
    using io(4) unfolding normalizeNodeType_def TrimSpace_ToLower [symmetric] by (elim insertE emptyE) simp_all
  then have "proxy_type n = (if ToLower (nc_Protocol cfg) = ''vless'' then ''vless'' else ''hysteria2'')"
    using assms(1) by (auto simp: proxy_type_def validateNodeProtocol_def protocol_norm_eq split: if_splits)
  then show ?thesis using obj_ok_mput [OF io(1), of "JStr (InboundTag n)" "''tag''"] io(2) by (simp add: tagged_def)
qed

lemma topology_nodes_Inr:
  "topology_nodes http mk url token count out cp kp ns h ins obs rs = (h', Inr (ins', obs', rs')) \<Longrightarrow>
     obs' = obs @ concat (map node_outbounds ns) \<and> rs' = rs @ map node_rule ns \<and>
     (\<exists>new. ins' = ins @ new \<and> list_all2 tagged ns new)"
proof (induction ns arbitrary: h ins obs rs)
  case (Cons n ns)
  obtain h1 cfg h2 m where "validateNodeProtocol n cfg = None"
    "inboundFromNodeConfig mk cfg (node_options count out cp kp n) (defaultListen (nc_ListenIP cfg)) h1 = (h2, Inr m)"
    and rest: "topology_nodes http mk url token count out cp kp ns h2 (ins @ [mput ''tag'' (JStr (InboundTag n)) m])
        (obs @ node_outbounds n) (rs @ [node_rule n]) = (h', Inr (ins', obs', rs'))"
    using Cons.prems by (auto split: prod.splits sum.splits option.splits)
  then have "tagged n (mput ''tag'' (JStr (InboundTag n)) m)" using node_inbound_tagged by blast
  then show ?case using Cons.IH [OF rest] by auto
qed simp

lemma rule_lists_node: "rule_lists t (node_rule n) \<longleftrightarrow> t = InboundTag n"
  by (auto simp: rule_lists_def node_rule_def jlist_def jget_json_map)

lemma find_rule:
  "find (rule_lists t) (map node_rule ns) = map_option node_rule (find (\<lambda>n. InboundTag n = t) ns)"
  by (induction ns) (auto simp: rule_lists_node)

lemma route_of_root:
  "route_of (config_root i ob [(''rules'', JArr (map node_rule ns)), (''final'', JStr ''block'')]) t =
     Some (JStr (case find (\<lambda>n. InboundTag n = t) ns of Some n \<Rightarrow> outbound_tag_for n | None \<Rightarrow> ''block''))"
  by (auto simp: route_of_def jget_config_root jget_json_map jlist_def find_rule node_rule_def split: option.split)

lemma write_out_None:
  assumes "write_out p data h = (h', None)"
  shows "fs_files (h_fs h') = mput p data (fs_files (h_fs h))"
  using assms by (auto simp: write_out_def MkdirAll_def WriteFile_def split: if_splits)

lemma wf_outbounds: "\<forall>j \<in> set (builtin_outbounds @ concat (map node_outbounds ns)). wf_json j"
  by (auto simp: builtin_outbounds_def simple_outbound_def node_outbounds_def outboundFromNodeSpec_def Let_def split: if_splits)

lemma wf_rules: "wf_json (JArr (map node_rule ns))"
  by (simp add: node_rule_def)

lemma tagged_read:
  assumes "list_all2 tagged ns ins"
  shows "\<forall>j \<in> set (map json_map ins). wf_json j"
    and "map (jget ''tag'') (map json_map ins) = map (\<lambda>n. Some (JStr (InboundTag n))) ns"
    and "map (jget ''type'') (map json_map ins) = map (\<lambda>n. Some (JStr (proxy_type n))) ns"
  using assms by (induction ns ins rule: list_all2_induct) (simp_all add: tagged_def obj_ok_def jget_json_map)

lemma in_TrimSpace: "c \<in> set s \<Longrightarrow> \<not> is_space c \<Longrightarrow> c \<in> set (TrimSpace s)"
proof -
  have d: "c \<in> set t \<Longrightarrow> \<not> is_space c \<Longrightarrow> c \<in> set (dropWhile is_space t)" for t by (induction t) auto
  show "c \<in> set s \<Longrightarrow> \<not> is_space c \<Longrightarrow> c \<in> set (TrimSpace s)" using d [of "rev (dropWhile is_space s)"] d [of s] by (simp add: TrimSpace_def)
qed

lemma node_id_no_slash: "validateNodeID i \<Longrightarrow> slash \<notin> set i"
proof
  assume v: "validateNodeID i" and c: "slash \<in> set i"
  have "\<not> is_space slash" by code_simp
  then have "CHR ''/'' \<in> set (TrimSpace i)" using in_TrimSpace [OF c] by (simp add: slash_def)
  then show False using v Contains_byte [of "TrimSpace i" "CHR ''/''"] by (simp add: validateNodeID_def Let_def)
qed

lemma plain_pem:
  assumes "validateNodeID i" "pre = ''cert-'' \<or> pre = ''key-''"
  shows "plain_name (pre @ i @ ''.pem'')"
  using assms node_id_no_slash [OF assms(1)] by (auto simp: plain_name_def slash_def)

lemma hy2_mode_type: "normalizeNodeMode t = ''hy2'' \<longleftrightarrow> normalizeNodeType t = ''hysteria''"
  by (auto simp: normalizeNodeMode_def normalizeNodeType_def Let_def)

lemma own_paths:
  assumes "node_ok n" "normalizeNodeType (ns_NodeType n) = ''hysteria''" "1 < count"
  shows "xo_CertPath (node_options count out cp kp n) = dir_prefix (Dir out) @ ''cert-'' @ ns_NodeID n @ ''.pem''"
    and "xo_KeyPath (node_options count out cp kp n) = dir_prefix (Dir out) @ ''key-'' @ ns_NodeID n @ ''.pem''"
proof -
  have v: "validateNodeID (ns_NodeID n)" using assms(1) by (simp add: node_ok_def)
  have d: "Dir out \<noteq> []" by (simp add: Dir_def)
  have "Join_path (Dir out) (''cert-'' @ ns_NodeID n @ ''.pem'') = dir_prefix (Dir out) @ ''cert-'' @ ns_NodeID n @ ''.pem''"
    by (rule Join_path_name [OF d plain_pem [OF v]]) simp
  moreover have "Join_path (Dir out) (''key-'' @ ns_NodeID n @ ''.pem'') = dir_prefix (Dir out) @ ''key-'' @ ns_NodeID n @ ''.pem''"
    by (rule Join_path_name [OF d plain_pem [OF v]]) simp
  ultimately show "xo_CertPath (node_options count out cp kp n) = dir_prefix (Dir out) @ ''cert-'' @ ns_NodeID n @ ''.pem''"
    "xo_KeyPath (node_options count out cp kp n) = dir_prefix (Dir out) @ ''key-'' @ ns_NodeID n @ ''.pem''"
    using assms(2,3) by (simp_all add: node_options_def hy2_mode_type)
qed

section \<open>Properties\<close>

lemma written_topology_config:
  assumes "generateTopologyConfig http mk url token \<lparr>tp_Nodes = nodes\<rparr> out cp kp h = (h', None)"
  shows "\<exists>text doc. mget (fs_files (h_fs h')) out = Some text \<and> json_parse text = Some doc \<and>
    map (jget ''tag'') (jlist ''inbounds'' doc) = map (\<lambda>n. Some (JStr (InboundTag n))) nodes \<and>
    map (jget ''type'') (jlist ''inbounds'' doc) = map (\<lambda>n. Some (JStr (proxy_type n))) nodes \<and>
    jlist ''outbounds'' doc = builtin_outbounds @ concat (map node_outbounds nodes) \<and>
    (\<forall>n \<in> set nodes. route_of doc (InboundTag n) = Some (JStr (outbound_tag_for n))) \<and>
    (\<forall>t. t \<notin> InboundTag ` set nodes \<longrightarrow> route_of doc t = Some (JStr ''block''))"
proof -
  have v: "Validate \<lparr>tp_Nodes = nodes\<rparr> = None" using assms by (auto simp: generateTopologyConfig_def split: option.splits)
  obtain h1 ins obs rs where tn: "topology_nodes http mk url token (length nodes) out cp kp nodes h [] builtin_outbounds [] =
      (h1, Inr (ins, obs, rs))"
    and wr: "write_out out (MarshalIndent (config_root (map json_map ins) obs [(''rules'', JArr rs), (''final'', JStr ''block'')])) h1 = (h', None)"
    using assms v by (auto simp: generateTopologyConfig_def split: prod.splits sum.splits)
  have o: "obs = builtin_outbounds @ concat (map node_outbounds nodes)" and r: "rs = map node_rule nodes"
    and t: "list_all2 tagged nodes ins" using topology_nodes_Inr [OF tn] by auto
  define doc where "doc = config_root (map json_map ins) obs [(''rules'', JArr rs), (''final'', JStr ''block'')]"
  have "wf_json doc"
    unfolding doc_def o r using tagged_read(1) [OF t] wf_outbounds wf_rules by (intro wf_config_root) auto
  then have parse: "json_parse (MarshalIndent doc) = Some doc" by (rule parse_MarshalIndent)
  have d: "distinct (map InboundTag nodes)" using v by (simp add: Validate_None_iff topology_ok_def)
  have find: "find (\<lambda>m. InboundTag m = InboundTag n) nodes = Some n" if "n \<in> set nodes" for n
    using d that by (induction nodes) (auto simp: image_iff)
  have none: "find (\<lambda>m. InboundTag m = t) nodes = None" if "t \<notin> InboundTag ` set nodes" for t
    using that by (auto simp: find_None_iff)
  have "mget (fs_files (h_fs h')) out = Some (MarshalIndent doc)" using write_out_None [OF wr] by (simp add: doc_def)
  moreover have "jlist ''inbounds'' doc = map json_map ins" "jlist ''outbounds'' doc = obs"
    by (simp_all add: doc_def jlist_def jget_config_root)
  moreover have "route_of doc (InboundTag n) = Some (JStr (outbound_tag_for n))" if "n \<in> set nodes" for n
    using find [OF that] by (simp add: doc_def r route_of_root)
  moreover have "route_of doc t = Some (JStr ''block'')" if "t \<notin> InboundTag ` set nodes" for t
    using none [OF that] by (simp add: doc_def r route_of_root)
  ultimately show ?thesis using parse tagged_read(2,3) [OF t] o by (intro exI conjI) auto
qed


definition sample_body :: json where
  "sample_body =
     JObj [(''protocol'', JStr ''vless''), (''server_port'', JNum (Itoa 443)), (''tls_settings'', JObj [(''private_key'', JStr ''k'')])]"

definition sample_http :: "unit transport" where
  "sample_http r req = (r, Some \<lparr>rs_StatusCode = 200, rs_Status = ''200 OK'', rs_Body = print_json sample_body\<rparr>)"

definition empty_host :: "unit host" where
  "empty_host = \<lparr>h_remote = (), h_fs = \<lparr>fs_files = [], fs_fails = (\<lambda>p. False)\<rparr>\<rparr>"

definition one_node :: NodeSpec where
  "one_node = \<lparr>ns_NodeID = ''21'', ns_NodeType = ''vless'', ns_Tag = [], ns_Outbound = direct_out\<rparr>"

lemma sample_body_decodes:
  "\<exists>cfg. dec_NodeConfig sample_body = Some cfg \<and> nc_Protocol cfg = ''vless'' \<and> nc_ServerPort cfg = 443 \<and>
     tls_PrivateKey (nc_TLSSettings cfg) = ''k''"
proof -
  have "obj_field config_fields name [(''protocol'', a), (''server_port'', b), (''tls_settings'', c)] =
      mget0 JNull [(''protocol'', a), (''server_port'', b), (''tls_settings'', c)] name" for name a b c
    by (rule obj_field_exact) (simp_all add: config_fields_def)
  moreover have "obj_field tls_fields name [(''private_key'', a)] = mget0 JNull [(''private_key'', a)] name" for name a
    by (rule obj_field_exact) (simp_all add: tls_fields_def)
  ultimately show ?thesis
    by (simp add: sample_body_def dec_NodeConfig_def dec_TLSSettings_def dec_BaseConfig_def dec_ECHConfig_def dec_pstring_def
        dec_StringInt_def mget0_def is_int64_def)
qed

lemma sample_fetch:
  assumes "cl_BaseURL c = ''http://p''"
  shows "\<exists>cfg. FetchNodeConfig (host_http sample_http) c h = (h, Inr cfg) \<and> nc_Protocol cfg = ''vless'' \<and>
     nc_ServerPort cfg = 443 \<and> tls_PrivateKey (nc_TLSSettings cfg) = ''k''"
proof -
  obtain cfg where cfg: "dec_NodeConfig sample_body = Some cfg" "nc_Protocol cfg = ''vless''" "nc_ServerPort cfg = 443"
    "tls_PrivateKey (nc_TLSSettings cfg) = ''k''" using sample_body_decodes by blast
  have "list_all (\<lambda>x. 32 \<le> code x \<and> code x \<noteq> 127) (''http://p'' @ ''/api/v1/server/UniProxy/config'')" by code_simp
  then obtain ep where ep: "endpoint_url c ''/api/v1/server/UniProxy/config'' = Inr ep"
    using endpoint_ok [of c "''/api/v1/server/UniProxy/config''"] unfolding assms by blast
  have "wf_json sample_body" by (auto simp: sample_body_def)
  then have "decodeNodeConfig (print_json sample_body) = Inr cfg"
    using cfg by (simp add: decodeNodeConfig_def json_parse_print present_def)
  moreover have "status_2xx \<lparr>rs_StatusCode = 200, rs_Status = ''200 OK'', rs_Body = print_json sample_body\<rparr>"
    by (simp add: status_2xx_iff)
  ultimately show ?thesis using cfg ep by (simp add: FetchNodeConfig_def host_http_def sample_http_def)
qed

lemma sample_generates:
  assumes "fs_fails (h_fs h) = (\<lambda>p. False)"
  shows "snd (generateTopologyConfig sample_http (\<lambda>r n. (r, None)) ''http://p'' ''t'' \<lparr>tp_Nodes = [one_node]\<rparr> ''/etc/c.json'' [] [] h) = None"
proof -
  let ?c = "NewClient ''http://p'' ''t'' (ns_NodeID one_node) (PanelNodeType one_node)"
  have "cl_BaseURL ?c = ''http://p''" unfolding NewClient_def by (simp add: TrimRight_def)
  from sample_fetch [OF this, of h]
  obtain cfg where f: "FetchNodeConfig (host_http sample_http) ?c h = (h, Inr cfg)"
    and cfg: "nc_Protocol cfg = ''vless''" "nc_ServerPort cfg = 443" "tls_PrivateKey (nc_TLSSettings cfg) = ''k''" by blast
  have v: "Validate \<lparr>tp_Nodes = [one_node]\<rparr> = None" by code_simp
  have pt: "protocol_norm (ns_NodeType one_node) = protocol_norm ''vless''" by (simp add: one_node_def)
  have low: "ToLower ''vless'' = ''vless''" by code_simp
  show ?thesis
    using v f pt cfg low
    by (simp add: generateTopologyConfig_def validateNodeProtocol_def inboundFromNodeConfig_def vlessInboundFromNodeConfig_def
        Let_def write_out_def MkdirAll_def WriteFile_def assms)
qed


text \<open>
  The certificates of a topology's Hysteria2 nodes do not collide and stay in the
  directory of the configuration file. With more than one node, the certificate and key
  paths of every Hysteria2 node lie directly in that directory (the file name has no
  slash, whatever the node's identifier), and those of two different nodes are different
  files.
\<close>

theorem certificate_paths_separate:
  assumes "Validate \<lparr>tp_Nodes = nodes\<rparr> = None" and "i < length nodes" and "j < length nodes" and "i \<noteq> j"
    and "normalizeNodeType (ns_NodeType (nodes ! i)) = ''hysteria''" and "normalizeNodeType (ns_NodeType (nodes ! j)) = ''hysteria''"
  shows "(\<exists>f. xo_CertPath (node_options (length nodes) out cp kp (nodes ! i)) = dir_prefix (Dir out) @ f \<and> slash \<notin> set f) \<and>
    distinct [xo_CertPath (node_options (length nodes) out cp kp (nodes ! i)), xo_KeyPath (node_options (length nodes) out cp kp (nodes ! i)),
      xo_CertPath (node_options (length nodes) out cp kp (nodes ! j)), xo_KeyPath (node_options (length nodes) out cp kp (nodes ! j))]"
proof -
  have ok: "list_all node_ok nodes" "distinct (map Key nodes)" using assms(1) by (auto simp: Validate_None_iff topology_ok_def)
  have n: "node_ok (nodes ! i)" "node_ok (nodes ! j)" using ok(1) assms(2,3) by (auto simp: list_all_length)
  have c: "1 < length nodes" using assms(2-4) by linarith
  have "Key (nodes ! i) \<noteq> Key (nodes ! j)" using ok(2) assms(2-4) by (metis length_map nth_eq_iff_index_eq nth_map)
  then have ids: "ns_NodeID (nodes ! i) \<noteq> ns_NodeID (nodes ! j)" using assms(5,6) by (auto simp: Key_def NodeKey_def)
  note p = own_paths [OF n(1) assms(5) c, of out cp kp] own_paths [OF n(2) assms(6) c, of out cp kp]
  have "slash \<notin> set (''cert-'' @ ns_NodeID (nodes ! i) @ ''.pem'')"
    using plain_pem [of "ns_NodeID (nodes ! i)" "''cert-''"] n(1) unfolding plain_name_def node_ok_def by blast
  then show ?thesis using p ids by auto
qed

definition two_hy2 :: "NodeSpec list" where
  "two_hy2 =
     [\<lparr>ns_NodeID = ''21'', ns_NodeType = ''hy2'', ns_Tag = [], ns_Outbound = direct_out\<rparr>,
      \<lparr>ns_NodeID = ''22'', ns_NodeType = ''hysteria2'', ns_Tag = [], ns_Outbound = direct_out\<rparr>]"

theorem certificate_paths_separate_witness:
  "xo_CertPath (node_options 2 ''/etc/c.json'' [] [] (two_hy2 ! 0)) \<noteq> xo_CertPath (node_options 2 ''/etc/c.json'' [] [] (two_hy2 ! 1))"
proof -
  have "Validate \<lparr>tp_Nodes = two_hy2\<rparr> = None" by code_simp
  moreover have "normalizeNodeType (ns_NodeType (two_hy2 ! 0)) = ''hysteria''" "normalizeNodeType (ns_NodeType (two_hy2 ! 1)) = ''hysteria''"
    by code_simp+
  moreover have "length two_hy2 = 2" by (simp add: two_hy2_def)
  ultimately show ?thesis using certificate_paths_separate [of two_hy2 0 1 "''/etc/c.json''" "[]" "[]"] by simp
qed

text \<open>
  A certificate and key that are put in place belong together. When the call succeeds,
  either both files were there and nothing is touched, or both were written with the two
  halves of one newly generated pair; no other file changes.
\<close>

theorem certificate_pair_matches:
  assumes "ensureSelfSignedCert mk certPath keyPath serverName h = (h', None)" and "certPath \<noteq> keyPath"
  shows "(h' = h \<and> Stat certPath h \<and> Stat keyPath h) \<or>
    (\<exists>r cert key. mk (h_remote h) serverName = (r, Some (cert, key)) \<and>
       mget (fs_files (h_fs h')) certPath = Some cert \<and> mget (fs_files (h_fs h')) keyPath = Some key \<and>
       (\<forall>p. p \<noteq> certPath \<longrightarrow> p \<noteq> keyPath \<longrightarrow> mget (fs_files (h_fs h')) p = mget (fs_files (h_fs h)) p))"
  using assms
  by (auto simp: ensureSelfSignedCert_def MkdirAll_def WriteFile_def split: if_splits prod.splits option.splits)

theorem certificate_pair_matches_witness:
  "\<exists>h'. ensureSelfSignedCert (\<lambda>r n. (r, Some (''C'', ''K''))) ''c.pem'' ''k.pem'' ''bing.com'' empty_host = (h', None) \<and>
     mget (fs_files (h_fs h')) ''c.pem'' = Some ''C'' \<and> mget (fs_files (h_fs h')) ''k.pem'' = Some ''K''"
proof -
  have "snd (ensureSelfSignedCert (\<lambda>r n. (r, Some (''C'', ''K''))) ''c.pem'' ''k.pem'' ''bing.com'' empty_host) = None"
    by (simp add: ensureSelfSignedCert_def Stat_def mhas_def MkdirAll_def WriteFile_def empty_host_def)
  then obtain h' where e: "ensureSelfSignedCert (\<lambda>r n. (r, Some (''C'', ''K''))) ''c.pem'' ''k.pem'' ''bing.com'' empty_host = (h', None)"
    by (metis surj_pair snd_conv)
  have "\<not> Stat ''c.pem'' empty_host" by (simp add: Stat_def mhas_def empty_host_def)
  then show ?thesis using certificate_pair_matches [OF e] e by auto
qed

text \<open>
  A key that cannot be replaced is left with a certificate it does not belong to. When
  the key file exists but cannot be written and the certificate is missing, the call
  fails after it has written the new certificate, and from then on the call succeeds at
  once with the new certificate and the old key.
\<close>

theorem stale_key_accepted:
  assumes "certPath \<noteq> []" and "keyPath \<noteq> []" and "certPath \<noteq> keyPath" and "mget (fs_files (h_fs h)) keyPath = Some oldKey" and "\<not> Stat certPath h"
    and "fs_fails (h_fs h) keyPath" and "\<not> fs_fails (h_fs h) certPath"
    and "\<not> fs_fails (h_fs h) (Dir certPath)" and "\<not> fs_fails (h_fs h) (Dir keyPath)"
    and "mk (h_remote h) serverName = (r, Some (cert, key))"
  shows "\<exists>h'. ensureSelfSignedCert mk certPath keyPath serverName h = (h', Some (WriteFailed keyPath)) \<and>
    ensureSelfSignedCert mk certPath keyPath serverName h' = (h', None) \<and>
    mget (fs_files (h_fs h')) certPath = Some cert \<and> mget (fs_files (h_fs h')) keyPath = Some oldKey"
  using assms by (simp add: ensureSelfSignedCert_def MkdirAll_def WriteFile_def Stat_def mhas_def)

theorem stale_key_accepted_witness:
  "\<exists>h'. ensureSelfSignedCert (\<lambda>r n. (r, Some (''C'', ''K''))) ''c.pem'' ''k.pem'' ''bing.com''
       \<lparr>h_remote = (), h_fs = \<lparr>fs_files = [(''k.pem'', ''old'')], fs_fails = (\<lambda>p. p = ''k.pem'')\<rparr>\<rparr> = (h', Some (WriteFailed ''k.pem'')) \<and>
     mget (fs_files (h_fs h')) ''c.pem'' = Some ''C'' \<and> mget (fs_files (h_fs h')) ''k.pem'' = Some ''old''"
proof -
  have "Dir ''c.pem'' = ''.''" "Dir ''k.pem'' = ''.''" by code_simp+
  then show ?thesis
    using stale_key_accepted [of "''c.pem''" "''k.pem''" "\<lparr>h_remote = (), h_fs = \<lparr>fs_files = [(''k.pem'', ''old'')], fs_fails = (\<lambda>p. p = ''k.pem'')\<rparr>\<rparr>"
        "''old''" "\<lambda>r n. (r, Some (''C'', ''K''))" "''bing.com''" "()" "''C''" "''K''"]
    by (simp add: Stat_def mhas_def) blast
qed

end
