(* ===== verification/Control_Plane.thy ===== *)
theory Control_Plane
  imports Panel_Client
begin

text \<open>
  The client of the native control plane (\<^verbatim>\<open>panelapi/control_plane.go\<close>): the versioned
  topology answer, traffic batches, and the two requests. The JSON forms are given in
  both directions; decoding what was encoded gives the value back.
\<close>

record ControlPlaneClient =
  cp_BaseURL :: string
  cp_Token :: string
  cp_AgentID :: string

record TopologyResponse =
  ts_SchemaVersion :: int
  ts_Revision :: string
  ts_Topology :: Topology

record TrafficItem =
  ti_NodeID :: string
  ti_NodeType :: string
  ti_UserID :: int
  ti_Upload :: int
  ti_Download :: int

record TrafficPushRequest =
  tq_BatchID :: string
  tq_Items :: "TrafficItem list"

datatype cp_error =
    CP_EmptyBaseURL
  | CP_Transport
  | CP_Status int
  | CP_Body
  | CP_Schema int
  | CP_EmptyRevision
  | CP_Topology topo_error
  | CP_EmptyBatch
  | CP_Item int

section \<open>JSON forms\<close>

text \<open>Members in the order of the struct; an empty value of a field marked \<open>omitempty\<close> is
  left out.\<close>

definition str_member :: "string \<Rightarrow> string \<Rightarrow> (string \<times> json) list" where
  "str_member k s = (if s = [] then [] else [(k, JStr s)])"

definition int_member :: "string \<Rightarrow> int \<Rightarrow> (string \<times> json) list" where
  "int_member k i = (if i = 0 then [] else [(k, JNum (Itoa i))])"

definition enc_OutboundSpec :: "OutboundSpec \<Rightarrow> json" where
  "enc_OutboundSpec ob =
     JObj ((''type'', JStr (ob_Type ob)) # str_member ''server'' (ob_Server ob) @ int_member ''server_port'' (ob_ServerPort ob) @
       str_member ''method'' (ob_Method ob) @ str_member ''password'' (ob_Password ob) @
       str_member ''plugin'' (ob_Plugin ob) @ str_member ''plugin_opts'' (ob_PluginOpts ob))"

definition enc_NodeSpec :: "NodeSpec \<Rightarrow> json" where
  "enc_NodeSpec n =
     JObj ([(''node_id'', JStr (ns_NodeID n)), (''node_type'', JStr (ns_NodeType n))] @ str_member ''tag'' (ns_Tag n) @
       [(''outbound'', enc_OutboundSpec (ns_Outbound n))])"

text \<open>The list of nodes is \<open>null\<close> when it is nil; a validated one is not empty.\<close>

definition enc_Topology :: "Topology \<Rightarrow> json" where
  "enc_Topology t = JObj [(''nodes'', JArr (map enc_NodeSpec (tp_Nodes t)))]"

definition enc_TopologyResponse :: "TopologyResponse \<Rightarrow> json" where
  "enc_TopologyResponse r =
     JObj [(''schema_version'', JNum (Itoa (ts_SchemaVersion r))), (''revision'', JStr (ts_Revision r)),
           (''topology'', enc_Topology (ts_Topology r))]"

definition dec_TopologyResponse :: "json \<Rightarrow> TopologyResponse option" where
  "dec_TopologyResponse j = do {
     ms \<leftarrow> dec_members j;
     let get = (\<lambda>name. obj_field [''schema_version'', ''revision'', ''topology''] name ms);
     v \<leftarrow> dec_int (get ''schema_version'');
     r \<leftarrow> dec_string (get ''revision'');
     t \<leftarrow> dec_Topology (get ''topology'');
     Some \<lparr>ts_SchemaVersion = v, ts_Revision = r, ts_Topology = t\<rparr>
   }"

definition enc_TrafficItem :: "TrafficItem \<Rightarrow> json" where
  "enc_TrafficItem i =
     JObj [(''node_id'', JStr (ti_NodeID i)), (''node_type'', JStr (ti_NodeType i)), (''user_id'', JNum (Itoa (ti_UserID i))),
           (''upload'', JNum (Itoa (ti_Upload i))), (''download'', JNum (Itoa (ti_Download i)))]"

definition item_fields :: "string list" where
  "item_fields = [''node_id'', ''node_type'', ''user_id'', ''upload'', ''download'']"

definition dec_TrafficItem :: "json \<Rightarrow> TrafficItem option" where
  "dec_TrafficItem j = do {
     ms \<leftarrow> dec_members j;
     let get = (\<lambda>name. obj_field item_fields name ms);
     i \<leftarrow> dec_string (get ''node_id'');
     ty \<leftarrow> dec_string (get ''node_type'');
     u \<leftarrow> dec_int (get ''user_id'');
     up \<leftarrow> dec_int (get ''upload'');
     down \<leftarrow> dec_int (get ''download'');
     Some \<lparr>ti_NodeID = i, ti_NodeType = ty, ti_UserID = u, ti_Upload = up, ti_Download = down\<rparr>
   }"

definition enc_TrafficPushRequest :: "TrafficPushRequest \<Rightarrow> json" where
  "enc_TrafficPushRequest p =
     JObj [(''batch_id'', JStr (tq_BatchID p)), (''items'', JArr (map enc_TrafficItem (tq_Items p)))]"

definition dec_TrafficPushRequest :: "json \<Rightarrow> TrafficPushRequest option" where
  "dec_TrafficPushRequest j = do {
     ms \<leftarrow> dec_members j;
     b \<leftarrow> dec_string (obj_field [''batch_id'', ''items''] ''batch_id'' ms);
     items \<leftarrow> dec_list dec_TrafficItem (obj_field [''batch_id'', ''items''] ''items'' ms);
     Some \<lparr>tq_BatchID = b, tq_Items = items\<rparr>
   }"

section \<open>Requests\<close>

definition NewControlPlaneClient :: "string \<Rightarrow> string \<Rightarrow> string \<Rightarrow> ControlPlaneClient" where
  "NewControlPlaneClient baseURL token agentID =
     \<lparr>cp_BaseURL = TrimRight baseURL ''/'', cp_Token = token, cp_AgentID = agentID\<rparr>"

definition requestHeaders :: "ControlPlaneClient \<Rightarrow> (string, string) gomap \<Rightarrow> cp_error + (string, string) gomap" where
  "requestHeaders c extra =
     (if cp_BaseURL c = [] then Inl CP_EmptyBaseURL
      else let h1 = (if cp_Token c \<noteq> [] then mput ''Authorization'' (''Bearer '' @ cp_Token c) extra else extra)
           in Inr (if cp_AgentID c \<noteq> [] then mput ''X-Agent-ID'' (cp_AgentID c) h1 else h1))"

definition topology_path :: string where "topology_path = ''/api/v2/agent/topology''"
definition traffic_path :: string where "traffic_path = ''/api/v2/agent/traffic''"

definition topology_of_response :: "response \<Rightarrow> cp_error + TopologyResponse option" where
  "topology_of_response resp =
     (if rs_StatusCode resp = 304 then Inr None
      else if \<not> status_2xx resp then Inl (CP_Status (rs_StatusCode resp))
      else case json_parse (rs_Body resp) \<bind> dec_TopologyResponse of
        None \<Rightarrow> Inl CP_Body
      | Some out \<Rightarrow>
          if ts_SchemaVersion out \<noteq> 1 then Inl (CP_Schema (ts_SchemaVersion out))
          else if TrimSpace (ts_Revision out) = [] then Inl CP_EmptyRevision
          else (case Validate (ts_Topology out) of
                  Some e \<Rightarrow> Inl (CP_Topology e)
                | None \<Rightarrow> Inr (Some out)))"

text \<open>The result \<open>None\<close> is an unchanged topology.\<close>

definition FetchTopology ::
  "'w transport \<Rightarrow> ControlPlaneClient \<Rightarrow> string \<Rightarrow> 'w \<Rightarrow> 'w \<times> (cp_error + TopologyResponse option)" where
  "FetchTopology http c etag w =
     (case requestHeaders c [] of
        Inl e \<Rightarrow> (w, Inl e)
      | Inr headers \<Rightarrow>
          (case http w \<lparr>rq_method = ''GET'', rq_url = cp_BaseURL c @ topology_path,
                        rq_headers = (if etag \<noteq> [] then mput ''If-None-Match'' etag headers else headers), rq_body = []\<rparr> of
             (w', None) \<Rightarrow> (w', Inl CP_Transport)
           | (w', Some resp) \<Rightarrow> (w', topology_of_response resp)))"

definition bad_item :: "TrafficItem \<Rightarrow> bool" where
  "bad_item i \<longleftrightarrow> TrimSpace (ti_NodeID i) = [] \<or> TrimSpace (ti_NodeType i) = []"

definition CP_PushTraffic ::
  "'w transport \<Rightarrow> ControlPlaneClient \<Rightarrow> TrafficPushRequest \<Rightarrow> 'w \<Rightarrow> 'w \<times> cp_error option" where
  "CP_PushTraffic http c payload w =
     (if TrimSpace (tq_BatchID payload) = [] then (w, Some CP_EmptyBatch)
      else if tq_Items payload = [] then (w, None)
      else case find bad_item (tq_Items payload) of
        Some i \<Rightarrow> (w, Some (CP_Item (ti_UserID i)))
      | None \<Rightarrow>
          (case requestHeaders c [(''Content-Type'', ''application/json''), (''Idempotency-Key'', tq_BatchID payload)] of
             Inl e \<Rightarrow> (w, Some e)
           | Inr headers \<Rightarrow>
               (case http w \<lparr>rq_method = ''POST'', rq_url = cp_BaseURL c @ traffic_path, rq_headers = headers,
                             rq_body = print_json (enc_TrafficPushRequest payload)\<rparr> of
                  (w', None) \<Rightarrow> (w', Some CP_Transport)
                | (w', Some resp) \<Rightarrow>
                    (w', if status_2xx resp then None else Some (CP_Status (rs_StatusCode resp))))))"

section \<open>Round trips of the JSON forms\<close>

lemma dec_OutboundSpec_enc:
  assumes "is_int64 (ob_ServerPort ob)"
  shows "dec_OutboundSpec (enc_OutboundSpec ob) = Some ob"
proof -
  define ms where "ms = (''type'', JStr (ob_Type ob)) # str_member ''server'' (ob_Server ob) @ int_member ''server_port'' (ob_ServerPort ob) @
       str_member ''method'' (ob_Method ob) @ str_member ''password'' (ob_Password ob) @
       str_member ''plugin'' (ob_Plugin ob) @ str_member ''plugin_opts'' (ob_PluginOpts ob)"
  have "obj_field outbound_fields name ms = mget0 JNull ms name" for name
    by (rule obj_field_exact) (auto simp: ms_def str_member_def int_member_def outbound_fields_def)
  then have get: "obj_field outbound_fields ''type'' ms = JStr (ob_Type ob)"
    "obj_field outbound_fields ''server'' ms = (if ob_Server ob = [] then JNull else JStr (ob_Server ob))"
    "obj_field outbound_fields ''server_port'' ms = (if ob_ServerPort ob = 0 then JNull else JNum (Itoa (ob_ServerPort ob)))"
    "obj_field outbound_fields ''method'' ms = (if ob_Method ob = [] then JNull else JStr (ob_Method ob))"
    "obj_field outbound_fields ''password'' ms = (if ob_Password ob = [] then JNull else JStr (ob_Password ob))"
    "obj_field outbound_fields ''plugin'' ms = (if ob_Plugin ob = [] then JNull else JStr (ob_Plugin ob))"
    "obj_field outbound_fields ''plugin_opts'' ms = (if ob_PluginOpts ob = [] then JNull else JStr (ob_PluginOpts ob))"
    by (simp_all add: ms_def str_member_def int_member_def mget0_def)
  have "enc_OutboundSpec ob = JObj ms" by (simp add: enc_OutboundSpec_def ms_def)
  then show ?thesis using assms by (simp add: dec_OutboundSpec_def get)
qed

lemma dec_NodeSpec_enc:
  assumes "is_int64 (ob_ServerPort (ns_Outbound n))"
  shows "dec_NodeSpec (enc_NodeSpec n) = Some n"
proof -
  define ms where "ms = [(''node_id'', JStr (ns_NodeID n)), (''node_type'', JStr (ns_NodeType n))] @ str_member ''tag'' (ns_Tag n) @
       [(''outbound'', enc_OutboundSpec (ns_Outbound n))]"
  have "obj_field node_fields name ms = mget0 JNull ms name" for name
    by (rule obj_field_exact) (auto simp: ms_def str_member_def node_fields_def)
  then have get: "obj_field node_fields ''node_id'' ms = JStr (ns_NodeID n)" "obj_field node_fields ''node_type'' ms = JStr (ns_NodeType n)"
    "obj_field node_fields ''tag'' ms = (if ns_Tag n = [] then JNull else JStr (ns_Tag n))"
    "obj_field node_fields ''outbound'' ms = enc_OutboundSpec (ns_Outbound n)"
    by (simp_all add: ms_def str_member_def mget0_def)
  have "enc_NodeSpec n = JObj ms" by (simp add: enc_NodeSpec_def ms_def)
  then show ?thesis using dec_OutboundSpec_enc [OF assms] by (simp add: dec_NodeSpec_def get)
qed

lemma dec_all_map: "(\<And>x. x \<in> set xs \<Longrightarrow> f (g x) = Some x) \<Longrightarrow> dec_all f (map g xs) = Some xs"
  by (induction xs) simp_all

definition ports_ok :: "Topology \<Rightarrow> bool" where
  "ports_ok t \<longleftrightarrow> list_all (\<lambda>n. is_int64 (ob_ServerPort (ns_Outbound n))) (tp_Nodes t)"

lemma dec_Topology_enc: "ports_ok t \<Longrightarrow> dec_Topology (enc_Topology t) = Some t"
  by (simp add: dec_Topology_def enc_Topology_def obj_field_exact mget0_def dec_list_def dec_all_map dec_NodeSpec_enc
      ports_ok_def list_all_iff)

lemma dec_TopologyResponse_enc:
  assumes "is_int64 (ts_SchemaVersion r)" "ports_ok (ts_Topology r)"
  shows "dec_TopologyResponse (enc_TopologyResponse r) = Some r"
  using assms by (simp add: dec_TopologyResponse_def enc_TopologyResponse_def obj_field_exact mget0_def dec_Topology_enc)

definition item_int64 :: "TrafficItem \<Rightarrow> bool" where
  "item_int64 i \<longleftrightarrow> is_int64 (ti_UserID i) \<and> is_int64 (ti_Upload i) \<and> is_int64 (ti_Download i)"

lemma dec_TrafficItem_enc: "item_int64 i \<Longrightarrow> dec_TrafficItem (enc_TrafficItem i) = Some i"
  by (simp add: dec_TrafficItem_def enc_TrafficItem_def obj_field_exact item_fields_def mget0_def item_int64_def)

lemma dec_TrafficPushRequest_enc:
  "list_all item_int64 (tq_Items p) \<Longrightarrow> dec_TrafficPushRequest (enc_TrafficPushRequest p) = Some p"
  by (simp add: dec_TrafficPushRequest_def enc_TrafficPushRequest_def obj_field_exact mget0_def dec_list_def dec_all_map
      dec_TrafficItem_enc list_all_iff)

lemma wf_enc_Topology: "wf_json (enc_Topology t)"
  by (auto simp: enc_Topology_def enc_NodeSpec_def enc_OutboundSpec_def str_member_def int_member_def)

lemma wf_enc_TopologyResponse: "wf_json (enc_TopologyResponse r)"
  using wf_enc_Topology by (auto simp: enc_TopologyResponse_def)

lemma wf_enc_TrafficPushRequest: "wf_json (enc_TrafficPushRequest p)"
  by (auto simp: enc_TrafficPushRequest_def enc_TrafficItem_def)

end
