(* ===== verification/Agent_Main.thy ===== *)
theory Agent_Main
  imports Billing Xboard_Config Control_Plane
begin

text \<open>
  The agent from its flags to its end (\<^verbatim>\<open>cmd/mini-sb-agent/main.go\<close>): the preparation of a topology,
  loading and tuning the options of the embedded proxy, applying a local user file, the
  choice of the panel, and the order of the shutdown. Decoding the options and making and
  starting the proxy from them are arguments. Applying users to the inbounds has no error
  branch: the user methods of the fork always return nil.
\<close>

section \<open>Options\<close>

record LogOptions =
  lg_Disabled :: bool
  lg_Level :: string
  lg_Output :: string
  lg_Timestamp :: bool
  lg_DisableColor :: bool

text \<open>Of the options of a Hysteria2 inbound the fields that are tuned; the type variable is
  the rest. An inbound's options are a Hysteria2 pointer, nil or not, or something else.\<close>

record 'x Hysteria2InboundOptions =
  hy_UpMbps :: int
  hy_DownMbps :: int
  hy_IgnoreClientBandwidth :: bool
  hy_BrutalDebug :: bool
  hy_rest :: 'x

datatype 'x any_options = Hysteria2Options "'x Hysteria2InboundOptions option" | OtherOptions 'x

record 'x Inbound =
  in_Type :: string
  in_Tag :: string
  in_Options :: "'x any_options"

record 'x Options =
  op_Log :: "LogOptions option"
  op_Inbounds :: "'x Inbound list"
  op_rest :: 'x

record hy2Tuning =
  tu_Enabled :: bool
  tu_UpMbps :: int
  tu_DownMbps :: int
  tu_IgnoreClientBandwidth :: bool
  tu_BrutalDebug :: bool

definition default_log :: "'x Options \<Rightarrow> 'x Options" where
  "default_log opts =
     (case op_Log opts of
        None \<Rightarrow> opts\<lparr>op_Log := Some \<lparr>lg_Disabled = False, lg_Level = ''warn'', lg_Output = [], lg_Timestamp = True, lg_DisableColor = False\<rparr>\<rparr>
      | Some lg \<Rightarrow> if lg_Level lg = [] then opts\<lparr>op_Log := Some (lg\<lparr>lg_Level := ''warn''\<rparr>)\<rparr> else opts)"

definition tune :: "hy2Tuning \<Rightarrow> 'x Hysteria2InboundOptions \<Rightarrow> 'x Hysteria2InboundOptions" where
  "tune tuning hy2 =
     (let h1 = (if 0 < tu_UpMbps tuning then hy2\<lparr>hy_UpMbps := tu_UpMbps tuning\<rparr> else hy2);
          h2 = (if 0 < tu_DownMbps tuning then h1\<lparr>hy_DownMbps := tu_DownMbps tuning\<rparr> else h1);
          h3 = (if tu_IgnoreClientBandwidth tuning then h2\<lparr>hy_IgnoreClientBandwidth := True\<rparr> else h2)
      in if tu_BrutalDebug tuning then h3\<lparr>hy_BrutalDebug := True\<rparr> else h3)"

definition tune_inbound :: "hy2Tuning \<Rightarrow> 'x Inbound \<Rightarrow> 'x Inbound" where
  "tune_inbound tuning i =
     (if in_Type i \<noteq> ''hysteria2'' then i
      else case in_Options i of
        Hysteria2Options (Some hy2) \<Rightarrow> i\<lparr>in_Options := Hysteria2Options (Some (tune tuning hy2))\<rparr>
      | _ \<Rightarrow> i)"

definition applyHY2Tuning :: "hy2Tuning \<Rightarrow> 'x Options \<Rightarrow> 'x Options" where
  "applyHY2Tuning tuning opts =
     (if \<not> tu_Enabled tuning then opts else opts\<lparr>op_Inbounds := map (tune_inbound tuning) (op_Inbounds opts)\<rparr>)"

datatype fatal =
    TopologyUnusable load_error
  | MissingCapability capability_error
  | TopologyNeedsPanel
  | ConfigNotGenerated cfg_error
  | ConfigUnreadable
  | ConfigInvalid
  | BoxFailed
  | UsersUnreadable
  | UsersInvalid

definition loadOptionsWithHY2Tuning :: "(string \<Rightarrow> 'x Options option) \<Rightarrow> string option \<Rightarrow> hy2Tuning \<Rightarrow> fatal + 'x Options" where
  "loadOptionsWithHY2Tuning decode file tuning =
     (case file of
        None \<Rightarrow> Inl ConfigUnreadable
      | Some data \<Rightarrow>
          (case decode data of
             None \<Rightarrow> Inl ConfigInvalid
           | Some opts \<Rightarrow> Inr (applyHY2Tuning tuning (default_log opts))))"

definition loadLocalUsers :: "string \<Rightarrow> 'r host \<Rightarrow> fatal + User list" where
  "loadLocalUsers path h =
     (if path = [] then Inr []
      else case mget (fs_files (h_fs h)) path of
        None \<Rightarrow> Inl UsersUnreadable
      | Some data \<Rightarrow> (case ParseUsers data of None \<Rightarrow> Inl UsersInvalid | Some us \<Rightarrow> Inr us))"

definition collectInbounds :: "(string \<times> inbound) list \<Rightarrow> inbounds" where
  "collectInbounds box = fold (\<lambda>(tag, i). mput tag i) box []"

section \<open>Starting\<close>

record agent_flags =
  fl_config :: string
  fl_users :: string
  fl_panelURL :: string
  fl_panelToken :: string
  fl_panelNodeID :: string
  fl_panelNodeType :: string
  fl_panelHY2NodeID :: string
  fl_panelHY2NodeType :: string
  fl_topologyPath :: string
  fl_topologyCert :: string
  fl_topologyKey :: string
  fl_nodeRateMbps :: int
  fl_hy2UpMbps :: int
  fl_hy2DownMbps :: int
  fl_hy2IgnoreClientBandwidth :: bool
  fl_hy2BrutalDebug :: bool

definition tuning_of :: "agent_flags \<Rightarrow> hy2Tuning" where
  "tuning_of fl =
     \<lparr>tu_Enabled = (0 < fl_hy2UpMbps fl \<or> 0 < fl_hy2DownMbps fl \<or> fl_hy2IgnoreClientBandwidth fl \<or> fl_hy2BrutalDebug fl),
      tu_UpMbps = fl_hy2UpMbps fl, tu_DownMbps = fl_hy2DownMbps fl, tu_IgnoreClientBandwidth = fl_hy2IgnoreClientBandwidth fl,
      tu_BrutalDebug = fl_hy2BrutalDebug fl\<rparr>"

definition prepare_topology ::
  "'r transport \<Rightarrow> 'r keymaker \<Rightarrow> tags \<Rightarrow> agent_flags \<Rightarrow> 'r host \<Rightarrow> 'r host \<times> (fatal + NodeSpec list)" where
  "prepare_topology http mk b fl h =
     (if fl_topologyPath fl = [] then (h, Inr [])
      else case LoadTopology (mget (fs_files (h_fs h)) (fl_topologyPath fl)) of
        Inl e \<Rightarrow> (h, Inl (TopologyUnusable e))
      | Inr loaded \<Rightarrow>
          (case validateTopologyCapabilities loaded (currentBuildCapabilities b) of
             Some e \<Rightarrow> (h, Inl (MissingCapability e))
           | None \<Rightarrow>
               if fl_panelURL fl = [] \<or> fl_panelToken fl = [] then (h, Inl TopologyNeedsPanel)
               else (case generateTopologyConfig http mk (fl_panelURL fl) (fl_panelToken fl) loaded (fl_config fl)
                        (fl_topologyCert fl) (fl_topologyKey fl) h of
                       (h1, Some e) \<Rightarrow> (h1, Inl (ConfigNotGenerated e))
                     | (h1, None) \<Rightarrow> (h1, Inr (tp_Nodes loaded)))))"

datatype panel_choice = NoPanel | TopologyPanel "NodeSpec list" | SinglePanel Client | DualPanel Client Client | LocalUsers string

definition choose_panel :: "agent_flags \<Rightarrow> NodeSpec list \<Rightarrow> panel_choice" where
  "choose_panel fl nodes =
     (if fl_topologyPath fl \<noteq> [] then TopologyPanel nodes
      else if fl_panelURL fl \<noteq> [] then
        (let primary = NewClient (fl_panelURL fl) (fl_panelToken fl) (fl_panelNodeID fl) (fl_panelNodeType fl) in
         if fl_panelHY2NodeID fl \<noteq> []
         then DualPanel primary (NewClient (fl_panelURL fl) (fl_panelToken fl) (fl_panelHY2NodeID fl) (fl_panelHY2NodeType fl))
         else SinglePanel primary)
      else if fl_users fl \<noteq> [] then LocalUsers (fl_users fl)
      else NoPanel)"

record 'x running =
  ru_options :: "'x Options"
  ru_inbounds :: inbounds
  ru_users :: UserManager
  ru_panel :: panel_choice

definition start_box ::
  "('x Options \<Rightarrow> (string \<times> inbound) list option) \<Rightarrow> tags \<Rightarrow> int \<Rightarrow> agent_flags \<Rightarrow> NodeSpec list \<Rightarrow> 'x Options \<Rightarrow> 'r host \<Rightarrow> fatal + 'x running" where
  "start_box box b now fl nodes opts h =
     (case box opts of
        None \<Rightarrow> Inl BoxFailed
      | Some ins \<Rightarrow>
          (let um = NewUserManager now (fl_nodeRateMbps fl) in
           if fl_users fl \<noteq> [] then
             (case loadLocalUsers (fl_users fl) h of
                Inl e \<Rightarrow> Inl e
              | Inr us \<Rightarrow>
                  (let (ins1, um1) = ApplyBox b now (collectInbounds ins) us um
                   in Inr \<lparr>ru_options = opts, ru_inbounds = ins1, ru_users = um1, ru_panel = choose_panel fl nodes\<rparr>))
           else Inr \<lparr>ru_options = opts, ru_inbounds = collectInbounds ins, ru_users = um, ru_panel = choose_panel fl nodes\<rparr>))"

definition start_agent ::
  "'r transport \<Rightarrow> 'r keymaker \<Rightarrow> (string \<Rightarrow> 'x Options option) \<Rightarrow> ('x Options \<Rightarrow> (string \<times> inbound) list option) \<Rightarrow> tags \<Rightarrow> int \<Rightarrow>
   agent_flags \<Rightarrow> 'r host \<Rightarrow> 'r host \<times> (fatal + 'x running)" where
  "start_agent http mk decode box b now fl h =
     (case prepare_topology http mk b fl h of
        (h1, Inl e) \<Rightarrow> (h1, Inl e)
      | (h1, Inr nodes) \<Rightarrow>
          (case loadOptionsWithHY2Tuning decode (mget (fs_files (h_fs h1)) (fl_config fl)) (tuning_of fl) of
             Inl e \<Rightarrow> (h1, Inl e)
           | Inr opts \<Rightarrow> (h1, start_box box b now fl nodes opts h1)))"

section \<open>Stopping\<close>

text \<open>On a signal the synchronisation ends, the proxy is closed, which may still count bytes,
  and what is left is pushed. The network may have changed meanwhile: the second syncer is
  the same as the first over the network as it is at the end. Without a panel there is no
  syncer, and only the data path acts.\<close>

definition serve_and_stop ::
  "(('w, 's) Syncer \<times> ('w, 's) Syncer) option \<Rightarrow> ('s \<Rightarrow> 's) \<times> ('s \<Rightarrow> 's) \<Rightarrow> (('s \<Rightarrow> 's) \<times> ('s \<Rightarrow> 's)) list \<Rightarrow> ('s \<Rightarrow> 's) \<Rightarrow> 'w \<Rightarrow> 's \<Rightarrow> 'w \<times> 's" where
  "serve_and_stop syncer first ticks closing w s =
     (case syncer of
        None \<Rightarrow> (w, closing (fold (\<lambda>(before, after) s. after (before s)) (first # ticks) s))
      | Some (sy, sy_end) \<Rightarrow>
          (let (w1, s1) = Run sy first ticks w s in FinalFlush sy_end (\<lambda>s. s) w1 (closing s1)))"

section \<open>Tuning\<close>

lemma tune_idem [simp]: "tune t (tune t h) = tune t h"
  by (simp add: tune_def)

lemma applyHY2Tuning_idem: "applyHY2Tuning t (applyHY2Tuning t opts) = applyHY2Tuning t opts"
  by (auto simp: applyHY2Tuning_def tune_inbound_def split: any_options.split option.split)

text \<open>What is not a Hysteria2 inbound is left alone, and so are order, types and tags.\<close>

lemma applyHY2Tuning_frame:
  "map in_Type (op_Inbounds (applyHY2Tuning t opts)) = map in_Type (op_Inbounds opts)"
  "map in_Tag (op_Inbounds (applyHY2Tuning t opts)) = map in_Tag (op_Inbounds opts)"
  "filter (\<lambda>i. in_Type i \<noteq> ''hysteria2'') (op_Inbounds (applyHY2Tuning t opts)) = filter (\<lambda>i. in_Type i \<noteq> ''hysteria2'') (op_Inbounds opts)"
proof -
  have "in_Type (tune_inbound t i) = in_Type i" "in_Tag (tune_inbound t i) = in_Tag i" for i :: "'a Inbound"
    by (auto simp: tune_inbound_def split: any_options.split option.split)
  moreover have "filter (\<lambda>i. in_Type i \<noteq> ''hysteria2'') (map (tune_inbound t) is) = filter (\<lambda>i. in_Type i \<noteq> ''hysteria2'') is" for "is" :: "'a Inbound list"
    using calculation by (induction "is") (auto simp: tune_inbound_def)
  ultimately show "map in_Type (op_Inbounds (applyHY2Tuning t opts)) = map in_Type (op_Inbounds opts)"
    "map in_Tag (op_Inbounds (applyHY2Tuning t opts)) = map in_Tag (op_Inbounds opts)"
    "filter (\<lambda>i. in_Type i \<noteq> ''hysteria2'') (op_Inbounds (applyHY2Tuning t opts)) = filter (\<lambda>i. in_Type i \<noteq> ''hysteria2'') (op_Inbounds opts)"
    by (simp_all add: applyHY2Tuning_def)
qed

lemma collectInbounds_last: "mget (collectInbounds (box @ [(tag, i)])) t = (if t = tag then Some i else mget (collectInbounds box) t)"
  by (simp add: collectInbounds_def)

section \<open>Properties\<close>

text \<open>
  C6: In the multi-node mode the proxy only ever runs the configuration of a checked topology.
  If the start succeeds, the topology file holds a valid topology that this build supports,
  the panel is given, and the options the proxy was started with were decoded from the
  configuration file as generated, in which every node's inbound is routed to that node's
  outbound and everything else to the block; the panel in use is the one of the topology.
  If the start fails before the generation, the host is as it was.
\<close>

theorem topology_start_checked:
  assumes "start_agent http mk decode box b now fl h = (h', res)" and "fl_topologyPath fl \<noteq> []"
  shows "case res of
      Inr ru \<Rightarrow> \<exists>nodes text doc opts.
        LoadTopology (mget (fs_files (h_fs h)) (fl_topologyPath fl)) = Inr \<lparr>tp_Nodes = nodes\<rparr> \<and> topology_ok \<lparr>tp_Nodes = nodes\<rparr> \<and>
        validateTopologyCapabilities \<lparr>tp_Nodes = nodes\<rparr> (currentBuildCapabilities b) = None \<and>
        fl_panelURL fl \<noteq> [] \<and> fl_panelToken fl \<noteq> [] \<and>
        mget (fs_files (h_fs h')) (fl_config fl) = Some text \<and> json_parse text = Some doc \<and> decode text = Some opts \<and>
        ru_options ru = applyHY2Tuning (tuning_of fl) (default_log opts) \<and> ru_panel ru = TopologyPanel nodes \<and>
        (\<forall>n \<in> set nodes. route_of doc (InboundTag n) = Some (JStr (outbound_tag_for n))) \<and>
        (\<forall>t. t \<notin> InboundTag ` set nodes \<longrightarrow> route_of doc t = Some (JStr ''block''))
    | Inl e \<Rightarrow> (case e of TopologyUnusable _ \<Rightarrow> h' = h | MissingCapability _ \<Rightarrow> h' = h | TopologyNeedsPanel \<Rightarrow> h' = h | _ \<Rightarrow> True)"
proof (cases res)
  case (Inl e)
  then show ?thesis
    using assms
    by (auto simp: start_agent_def prepare_topology_def loadOptionsWithHY2Tuning_def start_box_def loadLocalUsers_def Let_def
      split: sum.splits prod.splits option.splits if_splits)
next
  case (Inr ru)
  obtain loaded where l: "LoadTopology (mget (fs_files (h_fs h)) (fl_topologyPath fl)) = Inr loaded"
    and c: "validateTopologyCapabilities loaded (currentBuildCapabilities b) = None" and p: "fl_panelURL fl \<noteq> []" "fl_panelToken fl \<noteq> []"
    and g: "generateTopologyConfig http mk (fl_panelURL fl) (fl_panelToken fl) loaded (fl_config fl) (fl_topologyCert fl) (fl_topologyKey fl) h = (h', None)"
    and o: "\<exists>opts. loadOptionsWithHY2Tuning decode (mget (fs_files (h_fs h')) (fl_config fl)) (tuning_of fl) = Inr opts \<and>
        start_box box b now fl (tp_Nodes loaded) opts h' = Inr ru"
    using assms Inr by (auto simp: start_agent_def prepare_topology_def split: sum.splits prod.splits option.splits if_splits)
  obtain nodes where n: "loaded = \<lparr>tp_Nodes = nodes\<rparr>" by (cases loaded) auto
  obtain cfg doc where w: "mget (fs_files (h_fs h')) (fl_config fl) = Some cfg" "json_parse cfg = Some doc"
    "\<forall>n \<in> set nodes. route_of doc (InboundTag n) = Some (JStr (outbound_tag_for n))"
    "\<forall>t. t \<notin> InboundTag ` set nodes \<longrightarrow> route_of doc t = Some (JStr ''block'')"
    using written_topology_config [OF g [unfolded n]] by blast
  obtain opts where "decode cfg = Some opts" "ru_options ru = applyHY2Tuning (tuning_of fl) (default_log opts)" "ru_panel ru = TopologyPanel nodes"
    using o w(1) n assms(2)
    by (auto simp: loadOptionsWithHY2Tuning_def start_box_def choose_panel_def Let_def split: option.splits sum.splits if_splits prod.splits)
  then show ?thesis using Inr l c p w n LoadTopology_ok [OF l] by auto
qed

definition topology_host :: "unit host" where
  "topology_host =
     \<lparr>h_remote = (), h_fs = \<lparr>fs_files = [(''/t.json'', print_json (enc_Topology \<lparr>tp_Nodes = [one_node]\<rparr>))], fs_fails = (\<lambda>p. False)\<rparr>\<rparr>"

definition topology_flags :: agent_flags where
  "topology_flags =
     \<lparr>fl_config = ''/etc/c.json'', fl_users = [], fl_panelURL = ''http://p'', fl_panelToken = ''t'', fl_panelNodeID = [], fl_panelNodeType = [],
      fl_panelHY2NodeID = [], fl_panelHY2NodeType = [], fl_topologyPath = ''/t.json'', fl_topologyCert = [], fl_topologyKey = [],
      fl_nodeRateMbps = 0, fl_hy2UpMbps = 0, fl_hy2DownMbps = 0, fl_hy2IgnoreClientBandwidth = False, fl_hy2BrutalDebug = False\<rparr>"

definition no_options :: "unit Options" where
  "no_options = \<lparr>op_Log = None, op_Inbounds = [], op_rest = ()\<rparr>"

lemma sample_load: "LoadTopology (mget (fs_files (h_fs topology_host)) ''/t.json'') = Inr \<lparr>tp_Nodes = [one_node]\<rparr>"
proof -
  have "ports_ok \<lparr>tp_Nodes = [one_node]\<rparr>" by code_simp
  then have "dec_Topology (enc_Topology \<lparr>tp_Nodes = [one_node]\<rparr>) = Some \<lparr>tp_Nodes = [one_node]\<rparr>" by (rule dec_Topology_enc)
  moreover have "Validate \<lparr>tp_Nodes = [one_node]\<rparr> = None" by code_simp
  ultimately show ?thesis by (simp add: topology_host_def LoadTopology_def json_parse_print wf_enc_Topology)
qed

theorem topology_start_checked_witness:
  "\<exists>h' ru. start_agent sample_http (\<lambda>r n. (r, None)) (\<lambda>text. Some no_options) (\<lambda>opts. Some []) [''minimal'', ''with_vless''] 0 topology_flags topology_host =
      (h', Inr ru) \<and> ru_panel ru = TopologyPanel [one_node] \<and> ru_options ru = default_log no_options"
proof -
  have "fs_fails (h_fs topology_host) = (\<lambda>p. False)" by (simp add: topology_host_def)
  from sample_generates [OF this] obtain h' where g: "generateTopologyConfig sample_http (\<lambda>r n. (r, None)) ''http://p'' ''t''
      \<lparr>tp_Nodes = [one_node]\<rparr> ''/etc/c.json'' [] [] topology_host = (h', None)" by (metis surj_pair snd_conv)
  obtain cfg where t: "mget (fs_files (h_fs h')) ''/etc/c.json'' = Some cfg" using written_topology_config [OF g] by blast
  have c: "validateTopologyCapabilities \<lparr>tp_Nodes = [one_node]\<rparr> (currentBuildCapabilities [''minimal'', ''with_vless'']) = None" by code_simp
  have "prepare_topology sample_http (\<lambda>r n. (r, None)) [''minimal'', ''with_vless''] topology_flags topology_host = (h', Inr [one_node])"
    using g c sample_load by (simp add: prepare_topology_def topology_flags_def)
  then obtain ru where ru: "start_agent sample_http (\<lambda>r n. (r, None)) (\<lambda>text. Some no_options) (\<lambda>opts. Some []) [''minimal'', ''with_vless''] 0
      topology_flags topology_host = (h', Inr ru)"
    using t by (simp add: start_agent_def loadOptionsWithHY2Tuning_def start_box_def topology_flags_def Let_def)
  have "fl_topologyPath topology_flags \<noteq> []" by (simp add: topology_flags_def)
  from topology_start_checked [OF ru this] have "ru_panel ru = TopologyPanel [one_node] \<and>
      ru_options ru = applyHY2Tuning (tuning_of topology_flags) (default_log no_options)"
    using sample_load by (auto simp: topology_flags_def)
  moreover have "\<not> tu_Enabled (tuning_of topology_flags)" by (simp add: tuning_of_def topology_flags_def)
  ultimately show ?thesis using ru by (simp add: applyHY2Tuning_def)
qed



end
