(* ===== verification/Conn_Wrap.thy ===== *)
theory Conn_Wrap
  imports Hook_Ledger User_Manager
begin

text \<open>
  The connections a routed session goes through: counting connections
  (\<^verbatim>\<open>counter/counter.go\<close>), rate-limited connections (\<^verbatim>\<open>counter/ratelimit.go\<close>) and the
  hook that stacks them (\<open>RoutedConnection\<close> and \<open>RoutedPacketConnection\<close> in
  \<^verbatim>\<open>cmd/mini-sb-agent/main.go\<close>). A connection is a record of operations on a state that
  has the network, the traffic registry and the user manager; the operations of the
  connection below are the argument of a wrapper, as in the code.

  The contract of a byte stream is a locale: what was delivered, what was received and
  what was billed for each operation. Every wrapper keeps it, and the counting one adds
  the billing, so the stack the hook builds bills exactly what it delivers.
\<close>

section \<open>Connections\<close>

datatype io_error = Limiter rl_error | ErrShortWrite | Conn_error string

record 'n io =
  io_net :: 'n
  io_store :: store
  io_hook :: hook_map
  io_users :: "UserManager option"
  io_calls :: nat

record 's conn =
  conn_Read :: "nat \<Rightarrow> 's \<Rightarrow> 's \<times> string \<times> io_error option"
  conn_Write :: "string \<Rightarrow> 's \<Rightarrow> 's \<times> nat \<times> io_error option"
  conn_ReadBuffer :: "nat \<Rightarrow> 's \<Rightarrow> 's \<times> string \<times> io_error option"
  conn_WriteBuffer :: "string \<Rightarrow> 's \<Rightarrow> 's \<times> io_error option"

record 's packet_conn =
  pc_ReadPacket :: "'s \<Rightarrow> 's \<times> string \<times> string \<times> io_error option"
  pc_WritePacket :: "string \<Rightarrow> string \<Rightarrow> 's \<Rightarrow> 's \<times> io_error option"

section \<open>Counting\<close>

definition count_up :: "addr \<Rightarrow> nat \<Rightarrow> 'n io \<Rightarrow> 'n io" where
  "count_up a n s = (if n > 0 then s\<lparr>io_store := modify a (addUp (int n)) (io_store s)\<rparr> else s)"

definition count_down :: "addr \<Rightarrow> nat \<Rightarrow> 'n io \<Rightarrow> 'n io" where
  "count_down a n s = (if n > 0 then s\<lparr>io_store := modify a (addDown (int n)) (io_store s)\<rparr> else s)"

definition ConnCounter_Read :: "'n io conn \<Rightarrow> addr \<Rightarrow> nat \<Rightarrow> 'n io \<Rightarrow> 'n io \<times> string \<times> io_error option" where
  "ConnCounter_Read c a k s =
     (let (s1, data, err) = conn_Read c k s in (count_up a (length data) s1, data, err))"

definition ConnCounter_Write :: "'n io conn \<Rightarrow> addr \<Rightarrow> string \<Rightarrow> 'n io \<Rightarrow> 'n io \<times> nat \<times> io_error option" where
  "ConnCounter_Write c a b s = (let (s1, n, err) = conn_Write c b s in (count_down a n s1, n, err))"

definition ConnCounter_ReadBuffer :: "'n io conn \<Rightarrow> addr \<Rightarrow> nat \<Rightarrow> 'n io \<Rightarrow> 'n io \<times> string \<times> io_error option" where
  "ConnCounter_ReadBuffer c a k s =
     (let (s1, data, err) = conn_ReadBuffer c k s
      in (if err = None then count_up a (length data) s1 else s1, data, err))"

definition ConnCounter_WriteBuffer :: "'n io conn \<Rightarrow> addr \<Rightarrow> string \<Rightarrow> 'n io \<Rightarrow> 'n io \<times> io_error option" where
  "ConnCounter_WriteBuffer c a b s =
     (let (s1, err) = conn_WriteBuffer c b s in (if err = None then count_down a (length b) s1 else s1, err))"

definition NewConnCounter :: "'n io conn \<Rightarrow> addr \<Rightarrow> 'n io conn" where
  "NewConnCounter c a =
     \<lparr>conn_Read = ConnCounter_Read c a, conn_Write = ConnCounter_Write c a,
      conn_ReadBuffer = ConnCounter_ReadBuffer c a, conn_WriteBuffer = ConnCounter_WriteBuffer c a\<rparr>"

definition PacketConnCounter_ReadPacket ::
  "'n io packet_conn \<Rightarrow> addr \<Rightarrow> 'n io \<Rightarrow> 'n io \<times> string \<times> string \<times> io_error option" where
  "PacketConnCounter_ReadPacket p a s =
     (let (s1, data, dest, err) = pc_ReadPacket p s
      in (if err = None then count_up a (length data) s1 else s1, data, dest, err))"

definition PacketConnCounter_WritePacket ::
  "'n io packet_conn \<Rightarrow> addr \<Rightarrow> string \<Rightarrow> string \<Rightarrow> 'n io \<Rightarrow> 'n io \<times> io_error option" where
  "PacketConnCounter_WritePacket p a b dest s =
     (let (s1, err) = pc_WritePacket p b dest s in (if err = None then count_down a (length b) s1 else s1, err))"

definition NewPacketConnCounter :: "'n io packet_conn \<Rightarrow> addr \<Rightarrow> 'n io packet_conn" where
  "NewPacketConnCounter p a =
     \<lparr>pc_ReadPacket = PacketConnCounter_ReadPacket p a, pc_WritePacket = PacketConnCounter_WritePacket p a\<rparr>"

section \<open>Rate limiting\<close>

text \<open>A limiter is named by the address of its pair in the user manager and its direction.
  The argument \<open>sch\<close> gives for the \<open>k\<close>-th call of a limiter what other goroutines do to
  it meanwhile and what the clock shows.\<close>

datatype lim = Rx nat | Tx nat

type_synonym schedule = "nat \<Rightarrow> (nat \<Rightarrow> RateLimiter \<Rightarrow> RateLimiter) \<times> (nat \<Rightarrow> int)"

fun lim_get :: "lim \<Rightarrow> UserManager \<Rightarrow> RateLimiter" where
  "lim_get (Rx a) m = lp_rx (um_pairs m a)"
| "lim_get (Tx a) m = lp_tx (um_pairs m a)"

fun lim_put :: "lim \<Rightarrow> RateLimiter \<Rightarrow> UserManager \<Rightarrow> UserManager" where
  "lim_put (Rx a) l m = m\<lparr>um_pairs := (um_pairs m)(a := (um_pairs m a)\<lparr>lp_rx := l\<rparr>)\<rparr>"
| "lim_put (Tx a) l m = m\<lparr>um_pairs := (um_pairs m)(a := (um_pairs m a)\<lparr>lp_tx := l\<rparr>)\<rparr>"

definition lim_Wait :: "schedule \<Rightarrow> lim \<Rightarrow> int \<Rightarrow> 'n io \<Rightarrow> 'n io \<times> rl_error option" where
  "lim_Wait sch x n s =
     (case io_users s of
        None \<Rightarrow> (s, None)
      | Some m \<Rightarrow>
          (let (env, clock) = sch (io_calls s); (l, e, _) = Wait env clock n (lim_get x m)
           in (s\<lparr>io_users := Some (lim_put x l m), io_calls := Suc (io_calls s)\<rparr>, e)))"

definition lim_Allow :: "schedule \<Rightarrow> lim \<Rightarrow> int \<Rightarrow> 'n io \<Rightarrow> 'n io \<times> (rl_error + bool)" where
  "lim_Allow sch x n s =
     (case io_users s of
        None \<Rightarrow> (s, Inr True)
      | Some m \<Rightarrow>
          (let (env, clock) = sch (io_calls s); (l, r) = Allow (clock 0) n (env 0 (lim_get x m))
           in (s\<lparr>io_users := Some (lim_put x l m), io_calls := Suc (io_calls s)\<rparr>, r)))"

definition chunk_size :: nat where
  "chunk_size = nat maxWriteChunk"

lemma chunk_size_pos [simp]: "0 < chunk_size"
  by (simp add: chunk_size_def maxWriteChunk_def)

lemma drop_chunk_less [simp]: "chunk_size < k \<Longrightarrow> k - chunk_size < k"
  using chunk_size_pos by linarith

definition RateLimitedConn_Read ::
  "schedule \<Rightarrow> lim option \<Rightarrow> 'n io conn \<Rightarrow> nat \<Rightarrow> 'n io \<Rightarrow> 'n io \<times> string \<times> io_error option" where
  "RateLimitedConn_Read sch readLimiter c k s =
     (case readLimiter of
        None \<Rightarrow> conn_Read c k s
      | Some x \<Rightarrow>
          (let (s1, data, err) = conn_Read c (if k > nat maxReadChunk then nat maxReadChunk else k) s
           in if data \<noteq> [] then
                (let (s2, waitErr) = lim_Wait sch x (int (length data)) s1
                 in (s2, data, if err = None then map_option Limiter waitErr else err))
              else (s1, data, err)))"

function rlc_write ::
  "schedule \<Rightarrow> lim \<Rightarrow> 'n io conn \<Rightarrow> string \<Rightarrow> nat \<Rightarrow> 'n io \<Rightarrow> 'n io \<times> nat \<times> io_error option" where
  "rlc_write sch x c b written s =
     (if b = [] then (s, written, None)
      else let chunk = take chunk_size b in
        case lim_Wait sch x (int (length chunk)) s of
          (s1, Some e) \<Rightarrow> (s1, written, Some (Limiter e))
        | (s1, None) \<Rightarrow>
            (case conn_Write c chunk s1 of
               (s2, n, Some e) \<Rightarrow> (s2, written + n, Some e)
             | (s2, n, None) \<Rightarrow>
                 if n \<noteq> length chunk then (s2, written + n, Some ErrShortWrite)
                 else rlc_write sch x c (drop chunk_size b) (written + n) s2))"
  by pat_completeness auto
termination
  by (relation "measure (\<lambda>(sch, x, c, b, written, s). length b)") auto

declare rlc_write.simps [simp del]

definition RateLimitedConn_Write ::
  "schedule \<Rightarrow> lim option \<Rightarrow> 'n io conn \<Rightarrow> string \<Rightarrow> 'n io \<Rightarrow> 'n io \<times> nat \<times> io_error option" where
  "RateLimitedConn_Write sch writeLimiter c b s =
     (case writeLimiter of
        None \<Rightarrow> conn_Write c b s
      | Some x \<Rightarrow> if b = [] then conn_Write c b s else rlc_write sch x c b 0 s)"

definition RateLimitedConn_ReadBuffer ::
  "schedule \<Rightarrow> lim option \<Rightarrow> 'n io conn \<Rightarrow> nat \<Rightarrow> 'n io \<Rightarrow> 'n io \<times> string \<times> io_error option" where
  "RateLimitedConn_ReadBuffer sch readLimiter c k s =
     (let (s1, data, err) = conn_ReadBuffer c k s in
      case readLimiter of
        None \<Rightarrow> (s1, data, err)
      | Some x \<Rightarrow>
          if err = None \<and> data \<noteq> [] then
            (let (s2, waitErr) = lim_Wait sch x (int (length data)) s1 in (s2, data, map_option Limiter waitErr))
          else (s1, data, err))"

text \<open>The loop of \<open>WriteBuffer\<close>; the number of bytes the chunks' writes report is ignored.\<close>

function rlc_write_buffer ::
  "schedule \<Rightarrow> lim \<Rightarrow> 'n io conn \<Rightarrow> string \<Rightarrow> 'n io \<Rightarrow> 'n io \<times> io_error option" where
  "rlc_write_buffer sch x c b s =
     (if length b > chunk_size then
        (case lim_Wait sch x maxWriteChunk s of
           (s1, Some e) \<Rightarrow> (s1, Some (Limiter e))
         | (s1, None) \<Rightarrow>
             (case conn_Write c (take chunk_size b) s1 of
                (s2, _, Some e) \<Rightarrow> (s2, Some e)
              | (s2, _, None) \<Rightarrow> rlc_write_buffer sch x c (drop chunk_size b) s2))
      else if length b > 0 then
        (case lim_Wait sch x (int (length b)) s of
           (s1, Some e) \<Rightarrow> (s1, Some (Limiter e))
         | (s1, None) \<Rightarrow> conn_WriteBuffer c b s1)
      else (s, None))"
  by pat_completeness auto
termination
  by (relation "measure (\<lambda>(sch, x, c, b, s). length b)") (auto simp: less_imp_diff_less)

declare rlc_write_buffer.simps [simp del]

definition RateLimitedConn_WriteBuffer ::
  "schedule \<Rightarrow> lim option \<Rightarrow> 'n io conn \<Rightarrow> string \<Rightarrow> 'n io \<Rightarrow> 'n io \<times> io_error option" where
  "RateLimitedConn_WriteBuffer sch writeLimiter c b s =
     (case writeLimiter of
        None \<Rightarrow> conn_WriteBuffer c b s
      | Some x \<Rightarrow> if b = [] then conn_WriteBuffer c b s else rlc_write_buffer sch x c b s)"

definition NewRateLimitedConn :: "schedule \<Rightarrow> 'n io conn \<Rightarrow> lim option \<Rightarrow> lim option \<Rightarrow> 'n io conn" where
  "NewRateLimitedConn sch c r w =
     (if r = None \<and> w = None then c
      else \<lparr>conn_Read = RateLimitedConn_Read sch r c, conn_Write = RateLimitedConn_Write sch w c,
            conn_ReadBuffer = RateLimitedConn_ReadBuffer sch r c,
            conn_WriteBuffer = RateLimitedConn_WriteBuffer sch w c\<rparr>)"

definition RateLimitedPacketConn_ReadPacket ::
  "schedule \<Rightarrow> lim option \<Rightarrow> 'n io packet_conn \<Rightarrow> 'n io \<Rightarrow> 'n io \<times> string \<times> string \<times> io_error option" where
  "RateLimitedPacketConn_ReadPacket sch readLimiter p s =
     (let (s1, data, dest, err) = pc_ReadPacket p s in
      case readLimiter of
        None \<Rightarrow> (s1, data, dest, err)
      | Some x \<Rightarrow>
          if err = None \<and> data \<noteq> [] then
            (case lim_Allow sch x (int (length data)) s1 of
               (s2, Inl e) \<Rightarrow> (s2, data, dest, Some (Limiter e))
             | (s2, Inr allowed) \<Rightarrow> (s2, if allowed then data else [], dest, None))
          else (s1, data, dest, err))"

definition RateLimitedPacketConn_WritePacket ::
  "schedule \<Rightarrow> lim option \<Rightarrow> 'n io packet_conn \<Rightarrow> string \<Rightarrow> string \<Rightarrow> 'n io \<Rightarrow> 'n io \<times> io_error option" where
  "RateLimitedPacketConn_WritePacket sch writeLimiter p b dest s =
     (case writeLimiter of
        None \<Rightarrow> pc_WritePacket p b dest s
      | Some x \<Rightarrow>
          if b = [] then pc_WritePacket p b dest s
          else (case lim_Allow sch x (int (length b)) s of
                  (s1, Inl e) \<Rightarrow> (s1, Some (Limiter e))
                | (s1, Inr allowed) \<Rightarrow> if allowed then pc_WritePacket p b dest s1 else (s1, None)))"

definition NewRateLimitedPacketConn :: "schedule \<Rightarrow> 'n io packet_conn \<Rightarrow> lim option \<Rightarrow> lim option \<Rightarrow> 'n io packet_conn" where
  "NewRateLimitedPacketConn sch p r w =
     (if r = None \<and> w = None then p
      else \<lparr>pc_ReadPacket = RateLimitedPacketConn_ReadPacket sch r p,
            pc_WritePacket = RateLimitedPacketConn_WritePacket sch w p\<rparr>)"

section \<open>The hook\<close>

definition ResolveUser :: "string \<Rightarrow> UserManager option \<Rightarrow> string" where
  "ResolveUser user users = (case users of Some m \<Rightarrow> Resolve user m | None \<Rightarrow> user)"

definition directionalLimiters ::
  "tags \<Rightarrow> string \<Rightarrow> UserManager option \<Rightarrow> nat option \<times> nat option \<times> nat option \<times> nat option" where
  "directionalLimiters b user users =
     (case users of None \<Rightarrow> (None, None, None, None) | Some m \<Rightarrow> DirectionalLimiters b user m)"

definition routed_counter :: "string \<Rightarrow> string \<Rightarrow> 'n io \<Rightarrow> 'n io \<times> addr" where
  "routed_counter tag user s =
     (let (m, h, a) = hook_counter tag (ResolveUser user (io_users s)) (io_store s) (io_hook s)
      in (s\<lparr>io_store := m, io_hook := h\<rparr>, a))"

definition RoutedConnection ::
  "schedule \<Rightarrow> tags \<Rightarrow> string \<Rightarrow> string \<Rightarrow> 'n io conn \<Rightarrow> 'n io \<Rightarrow> 'n io \<times> 'n io conn" where
  "RoutedConnection sch b tag user c s =
     (if user = [] then (s, c)
      else let (nodeRead, nodeWrite, userRead, userWrite) = directionalLimiters b user (io_users s);
               (s1, a) = routed_counter tag user s;
               c1 = NewConnCounter c a;
               c2 = NewRateLimitedConn sch c1 (map_option Rx nodeRead) (map_option Tx nodeWrite);
               c3 = NewRateLimitedConn sch c2 (map_option Rx userRead) (map_option Tx userWrite)
           in (s1, c3))"

definition RoutedPacketConnection ::
  "schedule \<Rightarrow> tags \<Rightarrow> string \<Rightarrow> string \<Rightarrow> 'n io packet_conn \<Rightarrow> 'n io \<Rightarrow> 'n io \<times> 'n io packet_conn" where
  "RoutedPacketConnection sch b tag user p s =
     (if user = [] then (s, p)
      else let (nodeRead, nodeWrite, userRead, userWrite) = directionalLimiters b user (io_users s);
               (s1, a) = routed_counter tag user s;
               p1 = NewPacketConnCounter p a;
               p2 = NewRateLimitedPacketConn sch p1 (map_option Rx nodeRead) (map_option Tx nodeWrite);
               p3 = NewRateLimitedPacketConn sch p2 (map_option Rx userRead) (map_option Tx userWrite)
           in (s1, p3))"

section \<open>The contract of a byte stream\<close>

text \<open>What an account is charged.\<close>

definition bill_up :: "addr option \<Rightarrow> nat \<Rightarrow> store \<Rightarrow> store" where
  "bill_up acct n m = (case acct of Some a \<Rightarrow> if n > 0 then modify a (addUp (int n)) m else m | None \<Rightarrow> m)"

definition bill_down :: "addr option \<Rightarrow> nat \<Rightarrow> store \<Rightarrow> store" where
  "bill_down acct n m = (case acct of Some a \<Rightarrow> if n > 0 then modify a (addDown (int n)) m else m | None \<Rightarrow> m)"

lemma bill_none [simp]: "bill_up None n m = m" "bill_down None n m = m" "bill_up acct 0 m = m" "bill_down acct 0 m = m"
  by (simp_all add: bill_up_def bill_down_def split: option.split)

lemma bill_down_add: "bill_down acct k (bill_down acct n m) = bill_down acct (n + k) m"
  by (simp add: bill_down_def modify_def addDown_def add64_def add.assoc split: option.split)

lemma count_fields [simp]:
  "io_net (count_up a n s) = io_net s" "io_store (count_up a n s) = bill_up (Some a) n (io_store s)"
  "io_net (count_down a n s) = io_net s" "io_store (count_down a n s) = bill_down (Some a) n (io_store s)"
  "io_users (count_up a n s) = io_users s" "io_users (count_down a n s) = io_users s"
  by (simp_all add: count_up_def count_down_def bill_up_def bill_down_def)

text \<open>
  \<open>sent\<close> and \<open>got\<close> are what the network has been given and has given. A write reports how
  much of its argument was sent, everything when there is no error, as
  \<^verbatim>\<open>io.Writer\<close> demands; a read gives what the network gave. The account is charged with
  exactly what a read or write moved; \<open>WriteBuffer\<close> does not report a number, and when it
  fails the account may be charged with less than was sent.
\<close>

locale stream =
  fixes c :: "'n io conn" and sent :: "'n \<Rightarrow> string" and got :: "'n \<Rightarrow> string" and acct :: "addr option"
  assumes Write_ok: "conn_Write c b s = (s', n, e) \<Longrightarrow>
      n \<le> length b \<and> sent (io_net s') = sent (io_net s) @ take n b \<and> got (io_net s') = got (io_net s) \<and>
      io_store s' = bill_down acct n (io_store s) \<and> (e = None \<longrightarrow> n = length b)"
    and WriteBuffer_ok: "conn_WriteBuffer c b s = (s', f) \<Longrightarrow>
      \<exists>m n. m \<le> n \<and> n \<le> length b \<and> sent (io_net s') = sent (io_net s) @ take n b \<and> got (io_net s') = got (io_net s) \<and>
        io_store s' = bill_down acct m (io_store s) \<and> (f = None \<longrightarrow> m = length b)"
    and Read_ok: "conn_Read c k s = (s', d, e) \<Longrightarrow>
      length d \<le> k \<and> got (io_net s') = got (io_net s) @ d \<and> sent (io_net s') = sent (io_net s) \<and>
      io_store s' = bill_up acct (length d) (io_store s)"
    and ReadBuffer_ok: "conn_ReadBuffer c k s = (s', d, e) \<Longrightarrow>
      length d \<le> k \<and> got (io_net s') = got (io_net s) @ d \<and> sent (io_net s') = sent (io_net s) \<and>
      (e = None \<longrightarrow> io_store s' = bill_up acct (length d) (io_store s))"

lemma lim_Wait_frame: "lim_Wait sch x n s = (s', e) \<Longrightarrow> io_net s' = io_net s \<and> io_store s' = io_store s"
  by (auto simp: lim_Wait_def split_beta split: option.splits)

context stream
begin

lemma rlc_write_ok:
  "rlc_write sch x c b written s = (s', n, e) \<Longrightarrow>
     \<exists>k. n = written + k \<and> k \<le> length b \<and> sent (io_net s') = sent (io_net s) @ take k b \<and>
       got (io_net s') = got (io_net s) \<and> io_store s' = bill_down acct k (io_store s) \<and> (e = None \<longrightarrow> k = length b)"
proof (induction "length b" arbitrary: b written s rule: less_induct)
  case less
  show ?case
  proof (cases "b = []")
    case True
    then show ?thesis using less.prems by (auto simp: rlc_write.simps [of sch x c "[]"])
  next
    case False
    define chunk where "chunk = take chunk_size b"
    obtain s1 we where w: "lim_Wait sch x (int (length chunk)) s = (s1, we)" by fastforce
    note w1 = lim_Wait_frame [OF w]
    obtain s2 k f where wr: "conn_Write c chunk s1 = (s2, k, f)" by (metis prod_cases3)
    note w2 = Write_ok [OF wr]
    have eq: "rlc_write sch x c b written s =
        (case we of Some e \<Rightarrow> (s1, written, Some (Limiter e))
         | None \<Rightarrow> case f of Some e \<Rightarrow> (s2, written + k, Some e)
           | None \<Rightarrow> rlc_write sch x c (drop chunk_size b) (written + k) s2)"
      using False w wr w2 by (simp add: rlc_write.simps [of sch x c b] Let_def chunk_def [symmetric] split: option.split)
    have part: "take k chunk = take k b" if "k \<le> length chunk" using that by (auto simp: chunk_def min_def split: if_splits)
    consider (wait) e' where "we = Some e'" | (fail) e' where "we = None" "f = Some e'" | (ok) "we = None" "f = None"
      by (cases we; cases f) auto
    then show ?thesis
    proof cases
      case wait
      then show ?thesis using less.prems eq w1 by (intro exI [of _ 0]) auto
    next
      case fail
      then show ?thesis using less.prems eq w1 w2 part by (intro exI [of _ k]) (auto simp: chunk_def)
    next
      case ok
      then have k: "k = length chunk" using w2 by simp
      have dec: "length (drop chunk_size b) < length b" using False by simp
      obtain j where j: "n = written + k + j" "j \<le> length (drop chunk_size b)"
        "sent (io_net s') = sent (io_net s2) @ take j (drop chunk_size b)" "got (io_net s') = got (io_net s2)"
        "io_store s' = bill_down acct j (io_store s2)" "e = None \<longrightarrow> j = length (drop chunk_size b)"
        using less.hyps [OF dec, of "written + k" s2] less.prems eq ok by auto
      have "take k b @ take j (drop chunk_size b) = take (k + j) b"
        using k j(2) by (cases "chunk_size \<le> length b") (auto simp: chunk_def take_add min_def)
      then show ?thesis
        using j w1 w2 k by (intro exI [of _ "k + j"]) (auto simp: chunk_def bill_down_add min_def)
    qed
  qed
qed

lemma rlc_write_buffer_ok:
  "rlc_write_buffer sch x c b s = (s', e) \<Longrightarrow>
     \<exists>m n. m \<le> n \<and> n \<le> length b \<and> sent (io_net s') = sent (io_net s) @ take n b \<and> got (io_net s') = got (io_net s) \<and>
        io_store s' = bill_down acct m (io_store s) \<and> (e = None \<longrightarrow> m = length b)"
proof (induction "length b" arbitrary: b s rule: less_induct)
  case less
  show ?case
  proof (cases "length b > chunk_size")
    case False
    obtain s1 we where w: "lim_Wait sch x (int (length b)) s = (s1, we)" by fastforce
    have eq: "rlc_write_buffer sch x c b s =
        (if b = [] then (s, None) else case we of Some e \<Rightarrow> (s1, Some (Limiter e)) | None \<Rightarrow> conn_WriteBuffer c b s1)"
      using False w by (simp add: rlc_write_buffer.simps [of sch x c b] split: option.split)
    show ?thesis
    proof (cases "b = [] \<or> we \<noteq> None")
      case True
      then show ?thesis
        using less.prems eq lim_Wait_frame [OF w] by (intro exI [of _ 0]) (auto split: if_splits)
    next
      case False
      then show ?thesis using less.prems eq lim_Wait_frame [OF w] WriteBuffer_ok [of b s1 s' e] by auto
    qed
  next
    case True
    define chunk where "chunk = take chunk_size b"
    obtain s1 we where w: "lim_Wait sch x maxWriteChunk s = (s1, we)" by fastforce
    note w1 = lim_Wait_frame [OF w]
    obtain s2 k f where wr: "conn_Write c chunk s1 = (s2, k, f)" by (metis prod_cases3)
    note w2 = Write_ok [OF wr]
    have eq: "rlc_write_buffer sch x c b s =
        (case we of Some e \<Rightarrow> (s1, Some (Limiter e))
         | None \<Rightarrow> case f of Some e \<Rightarrow> (s2, Some e) | None \<Rightarrow> rlc_write_buffer sch x c (drop chunk_size b) s2)"
      using True w wr by (simp add: rlc_write_buffer.simps [of sch x c b] chunk_def [symmetric] split: option.split)
    consider (wait) e' where "we = Some e'" | (fail) e' where "we = None" "f = Some e'" | (ok) "we = None" "f = None"
      by (cases we; cases f) auto
    then show ?thesis
    proof cases
      case wait
      then show ?thesis using less.prems eq w1 by (intro exI [of _ 0]) auto
    next
      case fail
      then show ?thesis using less.prems eq w1 w2 by (intro exI [of _ k]) (auto simp: chunk_def min_def)
    next
      case ok
      then have k: "k = chunk_size" using w2 True by (simp add: chunk_def)
      have dec: "length (drop chunk_size b) < length b" using True by simp
      obtain i j where j: "i \<le> j" "j \<le> length (drop chunk_size b)"
        "sent (io_net s') = sent (io_net s2) @ take j (drop chunk_size b)" "got (io_net s') = got (io_net s2)"
        "io_store s' = bill_down acct i (io_store s2)" "e = None \<longrightarrow> i = length (drop chunk_size b)"
        using less.hyps [OF dec, of s2] less.prems eq ok by auto
      show ?thesis
        using j w1 w2 k True
        by (intro exI [of _ "k + i"] exI [of _ "k + j"]) (auto simp: chunk_def bill_down_add take_add)
    qed
  qed
qed

lemma limited: "stream (NewRateLimitedConn sch c r w) sent got acct"
proof (cases "r = None \<and> w = None")
  case True
  then show ?thesis using stream_axioms by (simp add: NewRateLimitedConn_def)
next
  case False
  show ?thesis
  proof
    fix b and s s' :: "'n io" and n e
    assume "conn_Write (NewRateLimitedConn sch c r w) b s = (s', n, e)"
    then show "n \<le> length b \<and> sent (io_net s') = sent (io_net s) @ take n b \<and> got (io_net s') = got (io_net s) \<and>
      io_store s' = bill_down acct n (io_store s) \<and> (e = None \<longrightarrow> n = length b)"
      using Write_ok [of b s s' n e] rlc_write_ok [of sch _ b 0 s s' n e] False
      by (auto simp: NewRateLimitedConn_def RateLimitedConn_Write_def split: option.splits if_splits)
  next
    fix b and s s' :: "'n io" and f
    assume "conn_WriteBuffer (NewRateLimitedConn sch c r w) b s = (s', f)"
    then show "\<exists>m n. m \<le> n \<and> n \<le> length b \<and> sent (io_net s') = sent (io_net s) @ take n b \<and> got (io_net s') = got (io_net s) \<and>
        io_store s' = bill_down acct m (io_store s) \<and> (f = None \<longrightarrow> m = length b)"
      using WriteBuffer_ok [of b s s' f] rlc_write_buffer_ok [of sch _ b s s' f] False
      by (auto simp: NewRateLimitedConn_def RateLimitedConn_WriteBuffer_def split: option.splits if_splits)
  next
    fix k and s s' :: "'n io" and d e
    assume r: "conn_Read (NewRateLimitedConn sch c r w) k s = (s', d, e)"
    obtain s1 e1 where "conn_Read c k s = (s1, d, e1) \<or> conn_Read c (min k (nat maxReadChunk)) s = (s1, d, e1)"
      "io_net s' = io_net s1" "io_store s' = io_store s1"
      using r False lim_Wait_frame
      by (fastforce simp: NewRateLimitedConn_def RateLimitedConn_Read_def Let_def min_def split: option.splits if_splits prod.splits)
    then show "length d \<le> k \<and> got (io_net s') = got (io_net s) @ d \<and> sent (io_net s') = sent (io_net s) \<and>
      io_store s' = bill_up acct (length d) (io_store s)"
      using Read_ok [of k s s1 d e1] Read_ok [of "min k (nat maxReadChunk)" s s1 d e1] by auto
  next
    fix k and s s' :: "'n io" and d e
    assume r: "conn_ReadBuffer (NewRateLimitedConn sch c r w) k s = (s', d, e)"
    obtain s1 e1 where "conn_ReadBuffer c k s = (s1, d, e1)" "e = None \<longrightarrow> e1 = None"
      "io_net s' = io_net s1" "io_store s' = io_store s1"
      using r False lim_Wait_frame
      by (fastforce simp: NewRateLimitedConn_def RateLimitedConn_ReadBuffer_def Let_def split: option.splits if_splits prod.splits)
    then show "length d \<le> k \<and> got (io_net s') = got (io_net s) @ d \<and> sent (io_net s') = sent (io_net s) \<and>
      (e = None \<longrightarrow> io_store s' = bill_up acct (length d) (io_store s))"
      using ReadBuffer_ok [of k s s1 d e1] by auto
  qed
qed

end

locale raw_stream = stream c sent got None for c :: "'n io conn" and sent and got
begin

lemma counted: "stream (NewConnCounter c a) sent got (Some a)"
proof
  fix b and s s' :: "'n io" and n e
  assume "conn_Write (NewConnCounter c a) b s = (s', n, e)"
  then show "n \<le> length b \<and> sent (io_net s') = sent (io_net s) @ take n b \<and> got (io_net s') = got (io_net s) \<and>
      io_store s' = bill_down (Some a) n (io_store s) \<and> (e = None \<longrightarrow> n = length b)"
    using Write_ok [of b s] by (auto simp: NewConnCounter_def ConnCounter_Write_def split: prod.splits)
next
  fix b and s s' :: "'n io" and f
  assume "conn_WriteBuffer (NewConnCounter c a) b s = (s', f)"
  then show "\<exists>m n. m \<le> n \<and> n \<le> length b \<and> sent (io_net s') = sent (io_net s) @ take n b \<and> got (io_net s') = got (io_net s) \<and>
        io_store s' = bill_down (Some a) m (io_store s) \<and> (f = None \<longrightarrow> m = length b)"
    using WriteBuffer_ok [of b s]
    by (fastforce simp: NewConnCounter_def ConnCounter_WriteBuffer_def split: prod.splits if_splits)
next
  fix k and s s' :: "'n io" and d e
  assume "conn_Read (NewConnCounter c a) k s = (s', d, e)"
  then show "length d \<le> k \<and> got (io_net s') = got (io_net s) @ d \<and> sent (io_net s') = sent (io_net s) \<and>
      io_store s' = bill_up (Some a) (length d) (io_store s)"
    using Read_ok [of k s] by (auto simp: NewConnCounter_def ConnCounter_Read_def split: prod.splits)
next
  fix k and s s' :: "'n io" and d e
  assume "conn_ReadBuffer (NewConnCounter c a) k s = (s', d, e)"
  then show "length d \<le> k \<and> got (io_net s') = got (io_net s) @ d \<and> sent (io_net s') = sent (io_net s) \<and>
      (e = None \<longrightarrow> io_store s' = bill_up (Some a) (length d) (io_store s))"
    using ReadBuffer_ok [of k s]
    by (fastforce simp: NewConnCounter_def ConnCounter_ReadBuffer_def split: prod.splits if_splits)
qed

lemma routed:
  assumes "RoutedConnection sch b tag user c s = (s1, c')" "user \<noteq> []"
  shows "\<exists>a. hook_addr (io_hook s1) (tag_or_default tag) (ResolveUser user (io_users s)) = Some a \<and> stream c' sent got (Some a)"
proof -
  obtain s2 a where rc: "routed_counter tag user s = (s2, a)" by fastforce
  have "hook_addr (io_hook s2) (tag_or_default tag) (ResolveUser user (io_users s)) = Some a"
    using rc by (auto simp: routed_counter_def hook_counter_def GetCounter_def hook_addr_def mget0_def Let_def split: prod.splits option.splits)
  then show ?thesis
    using assms rc stream.limited [OF stream.limited [OF counted]]
    by (auto simp: RoutedConnection_def Let_def split: prod.splits)
qed

end

section \<open>Progress\<close>

text \<open>All limiters are well formed and open, and other goroutines keep them so.\<close>

definition limiters_open :: "'n io \<Rightarrow> bool" where
  "limiters_open s \<longleftrightarrow> (\<forall>m x. io_users s = Some m \<longrightarrow> rl_ok (lim_get x m) \<and> \<not> rl_closed (lim_get x m))"

definition fair :: "schedule \<Rightarrow> bool" where
  "fair sch \<longleftrightarrow> (\<forall>i k l. rl_ok l \<and> \<not> rl_closed l \<longrightarrow> rl_ok (fst (sch i) k l) \<and> \<not> rl_closed (fst (sch i) k l))"

lemma lim_get_put: "lim_get y (lim_put x l m) = (if y = x then l else lim_get y m)"
  by (cases x; cases y) auto

lemma Wait_open:
  assumes "rl_ok l" "\<not> rl_closed l" "\<And>k l. rl_ok l \<and> \<not> rl_closed l \<Longrightarrow> rl_ok (env k l) \<and> \<not> rl_closed (env k l)"
    "Wait env clock n l = (l', e, ss)"
  shows "e = None \<and> rl_ok l' \<and> \<not> rl_closed l'"
  using assms(1,2,4) wait_loop_ok [where env = env and clock = clock and i = 0 and remaining = n and sleeps = "[]" and l' = l' and e = e and ss = ss, OF assms(3,1,2)] by (auto simp: Wait_def split: if_splits)

lemma lim_Wait_open:
  assumes "fair sch" "limiters_open s"
  shows "\<exists>s'. lim_Wait sch x n s = (s', None) \<and> limiters_open s'"
proof (cases "io_users s")
  case None
  then show ?thesis using assms by (simp add: lim_Wait_def)
next
  case (Some m)
  obtain env clock where sc: "sch (io_calls s) = (env, clock)" by fastforce
  obtain l e ss where w: "Wait env clock n (lim_get x m) = (l, e, ss)" by (metis prod_cases3)
  have env: "rl_ok l \<and> \<not> rl_closed l \<Longrightarrow> rl_ok (env k l) \<and> \<not> rl_closed (env k l)" for k l
    using assms(1) [unfolded fair_def, rule_format, of l "io_calls s" k] sc by simp
  have "e = None \<and> rl_ok l \<and> \<not> rl_closed l"
    using Wait_open [OF _ _ env w] assms(2) Some by (auto simp: limiters_open_def)
  then show ?thesis
    using assms(2) Some sc w by (auto simp: lim_Wait_def limiters_open_def lim_get_put)
qed

locale open_stream = stream +
  assumes Write_all: "limiters_open s \<Longrightarrow> \<exists>s'. conn_Write c b s = (s', length b, None) \<and> limiters_open s'"
begin

lemma rlc_write_all:
  assumes "fair sch"
  shows "limiters_open s \<Longrightarrow> \<exists>s'. rlc_write sch x c b written s = (s', written + length b, None) \<and> limiters_open s'"
proof (induction "length b" arbitrary: b written s rule: less_induct)
  case less
  show ?case
  proof (cases "b = []")
    case True
    then show ?thesis using less.prems by (auto simp: rlc_write.simps [of sch x c "[]"])
  next
    case False
    define chunk where "chunk = take chunk_size b"
    obtain s1 where s1: "lim_Wait sch x (int (length chunk)) s = (s1, None)" "limiters_open s1"
      using lim_Wait_open [OF assms less.prems] by blast
    obtain s2 where s2: "conn_Write c chunk s1 = (s2, length chunk, None)" "limiters_open s2"
      using Write_all [OF s1(2)] by blast
    have "rlc_write sch x c b written s = rlc_write sch x c (drop chunk_size b) (written + length chunk) s2"
      using False s1 s2 by (simp add: rlc_write.simps [of sch x c b] Let_def chunk_def)
    moreover have "length (drop chunk_size b) < length b" "length chunk + length (drop chunk_size b) = length b"
      using False by (simp_all add: chunk_def min_def)
    ultimately show ?thesis using less.hyps [of "drop chunk_size b" s2 "written + length chunk"] s2(2) by (simp add: add.assoc)
  qed
qed

lemma limited_open:
  assumes "fair sch"
  shows "open_stream (NewRateLimitedConn sch c r w) sent got acct"
proof (intro open_stream.intro open_stream_axioms.intro limited)
  fix s :: "'a io" and b
  assume "limiters_open s"
  then show "\<exists>s'. conn_Write (NewRateLimitedConn sch c r w) b s = (s', length b, None) \<and> limiters_open s'"
    using rlc_write_all [OF assms, of s _ b 0] Write_all [of s b]
    by (auto simp: NewRateLimitedConn_def RateLimitedConn_Write_def split: option.splits)
qed

end

locale raw_open_stream = raw_stream + open_stream c sent got None
begin

lemma counted_open: "open_stream (NewConnCounter c a) sent got (Some a)"
proof (intro open_stream.intro open_stream_axioms.intro counted)
  fix s :: "'a io" and b
  assume "limiters_open s"
  then obtain s' where "conn_Write c b s = (s', length b, None)" "limiters_open s'" using Write_all by blast
  then show "\<exists>s'. conn_Write (NewConnCounter c a) b s = (s', length b, None) \<and> limiters_open s'"
    by (simp add: NewConnCounter_def ConnCounter_Write_def limiters_open_def)
qed

lemma routed_open:
  assumes "RoutedConnection sch b tag user c s = (s1, c')" "user \<noteq> []" "fair sch"
  shows "\<exists>a. open_stream c' sent got (Some a)"
proof -
  obtain nr nw ur uw where d: "directionalLimiters b user (io_users s) = (nr, nw, ur, uw)" by (metis prod_cases4)
  obtain s2 a where rc: "routed_counter tag user s = (s2, a)" by fastforce
  show ?thesis
    using assms(1,2) open_stream.limited_open [OF open_stream.limited_open [OF counted_open assms(3)] assms(3), of a]
    by (simp add: RoutedConnection_def d rc) blast
qed

end

section \<open>A connection in memory\<close>

text \<open>The network end of a connection as a pair of byte lists: what was written, and what
  is still to be read. It accepts everything.\<close>

record pipe =
  pipe_sent :: string
  pipe_got :: string
  pipe_next :: string

definition pipe_conn :: "pipe io conn" where
  "pipe_conn =
     \<lparr>conn_Read = (\<lambda>k s. let d = take k (pipe_next (io_net s)) in
        (s\<lparr>io_net := (io_net s)\<lparr>pipe_got := pipe_got (io_net s) @ d, pipe_next := drop k (pipe_next (io_net s))\<rparr>\<rparr>, d, None)),
      conn_Write = (\<lambda>b s. (s\<lparr>io_net := (io_net s)\<lparr>pipe_sent := pipe_sent (io_net s) @ b\<rparr>\<rparr>, length b, None)),
      conn_ReadBuffer = (\<lambda>k s. let d = take k (pipe_next (io_net s)) in
        (s\<lparr>io_net := (io_net s)\<lparr>pipe_got := pipe_got (io_net s) @ d, pipe_next := drop k (pipe_next (io_net s))\<rparr>\<rparr>, d, None)),
      conn_WriteBuffer = (\<lambda>b s. (s\<lparr>io_net := (io_net s)\<lparr>pipe_sent := pipe_sent (io_net s) @ b\<rparr>\<rparr>, None))\<rparr>"

interpretation pipe: raw_open_stream pipe_conn pipe_sent pipe_got
  by unfold_locales (auto simp: pipe_conn_def Let_def limiters_open_def)

section \<open>Properties\<close>

text \<open>
  C33: What a routed connection moves is what its user is billed for. Through the stack of
  limiters and counter that the hook puts on a connection, a write sends a prefix of its
  argument, reports the length of it, which is all of it when there is no error, and adds
  exactly that number to the download counter of the user's storage on the inbound; a
  read returns what the network gave, no more than asked for, and adds its length to the
  upload counter. No other storage changes, whatever the limiters do.
\<close>

theorem routed_connection_billed:
  assumes "raw_stream raw sent got" and "RoutedConnection sch b tag user raw s0 = (s1, c)" and "user \<noteq> []"
  shows "\<exists>a. hook_addr (io_hook s1) (tag_or_default tag) (ResolveUser user (io_users s0)) = Some a \<and>
    (case conn_Write c data s of (s', n, e) \<Rightarrow>
       n \<le> length data \<and> sent (io_net s') = sent (io_net s) @ take n data \<and> (e = None \<longrightarrow> n = length data) \<and>
       io_store s' = bill_down (Some a) n (io_store s)) \<and>
    (case conn_Read c k s of (s', d, e) \<Rightarrow>
       length d \<le> k \<and> got (io_net s') = got (io_net s) @ d \<and> io_store s' = bill_up (Some a) (length d) (io_store s))"
proof -
  obtain a where a: "hook_addr (io_hook s1) (tag_or_default tag) (ResolveUser user (io_users s0)) = Some a"
    and st: "stream c sent got (Some a)"
    using raw_stream.routed [OF assms] by blast
  obtain sw n ew where w: "conn_Write c data s = (sw, n, ew)" by (metis prod_cases3)
  obtain sr d er where r: "conn_Read c k s = (sr, d, er)" by (metis prod_cases3)
  show ?thesis using a stream.Write_ok [OF st w] stream.Read_ok [OF st r] by (auto simp: w r)
qed

definition sample_io :: "pipe io" where
  "sample_io =
     \<lparr>io_net = \<lparr>pipe_sent = [], pipe_got = [], pipe_next = ''abc''\<rparr>, io_store = empty_store, io_hook = [],
      io_users = Some (NewUserManager 0 8), io_calls = 0\<rparr>"

definition steady :: schedule where
  "steady i = (\<lambda>k l. l, \<lambda>k. int k)"

theorem routed_connection_billed_witness:
  "\<exists>s1 c a. RoutedConnection steady [] ''vless-in'' ''7'' pipe_conn sample_io = (s1, c) \<and>
     (case conn_Read c 2 s1 of (s', d, e) \<Rightarrow> length d \<le> 2 \<and> pipe_got (io_net s') = pipe_got (io_net s1) @ d \<and>
        io_store s' = bill_up (Some a) (length d) (io_store s1))"
proof -
  obtain s1 c where r: "RoutedConnection steady [] ''vless-in'' ''7'' pipe_conn sample_io = (s1, c)" by fastforce
  from routed_connection_billed [OF pipe.raw_stream_axioms r, of "[]" s1 2] show ?thesis using r by auto
qed

text \<open>
  C34: A routed write completes. When the connection below accepts what it is given and the
  limiters are open and stay so, a write through the whole stack returns, without an
  error, with all of its bytes sent, for any number of bytes and whatever else happens to
  the limiters meanwhile.
\<close>

theorem routed_write_completes:
  assumes "raw_open_stream raw sent got" and "RoutedConnection sch b tag user raw s0 = (s1, c)" and "user \<noteq> []"
    and "fair sch" and "limiters_open s"
  shows "\<exists>s'. conn_Write c data s = (s', length data, None) \<and> sent (io_net s') = sent (io_net s) @ data \<and> limiters_open s'"
proof -
  obtain a where st: "open_stream c sent got (Some a)"
    using raw_open_stream.routed_open [OF assms(1-4)] by blast
  then obtain s' where w: "conn_Write c data s = (s', length data, None)" "limiters_open s'"
    using open_stream.Write_all [OF st assms(5)] by blast
  then show ?thesis using stream.Write_ok [OF open_stream.axioms(1) [OF st] w(1)] by auto
qed

lemma sample_open: "limiters_open sample_io"
proof -
  have ok: "rl_ok (NewRateLimiter 0 (mbpsToBytes 8))" by (rule NewRateLimiter_ok)
  moreover have "\<not> rl_closed (NewRateLimiter 0 (mbpsToBytes 8))" by (simp add: NewRateLimiter_def SetRate_def Let_def)
  ultimately have "rl_ok (lim_get x (NewUserManager 0 8)) \<and> \<not> rl_closed (lim_get x (NewUserManager 0 8))" for x
    by (cases x) (simp_all add: NewUserManager_def newLimiterPair_def)
  then show ?thesis by (simp add: limiters_open_def sample_io_def)
qed

theorem routed_write_completes_witness:
  "\<exists>s1 c s'. RoutedConnection steady [] ''vless-in'' ''7'' pipe_conn sample_io = (s1, c) \<and>
     conn_Write c ''hello'' sample_io = (s', 5, None) \<and> pipe_sent (io_net s') = ''hello''"
proof -
  obtain s1 c where r: "RoutedConnection steady [] ''vless-in'' ''7'' pipe_conn sample_io = (s1, c)" by fastforce
  have "fair steady" by (simp add: fair_def steady_def)
  from routed_write_completes [OF pipe.raw_open_stream_axioms r _ this sample_open, of "''hello''"]
  show ?thesis using r by (auto simp: sample_io_def)
qed


lemma fresh_refuses:
  assumes "0 < bps" "0 < n"
  shows "Allow t n (NewRateLimiter t bps) = (NewRateLimiter t bps, Inr False)"
proof -
  define l where "l = NewRateLimiter t bps"
  have l: "live l" "rl_last l = Some t" "rl_tokens l = 0"
    using new_limiter_live [OF assms(1), of t] by (auto simp: l_def NewRateLimiter_def SetRate_def Let_def)
  have "Seconds (time_Sub t t) \<le> 0"
    using Seconds_bounds(2) [of 0] by (simp add: time_Sub_def)
  then have "refill t l = l" using l(2) by (simp add: refill_def Let_def)
  moreover have "0 < needed n l" using needed_bounds(1) [of l n] l(1) assms(2) by (simp add: live_def)
  moreover have "0 < rl_rate l" using live_rate [OF l(1)] .
  ultimately show ?thesis using l assms(2) by (simp add: Allow_def allow_def l_def [symmetric] live_def)
qed

definition one_packet :: "pipe io packet_conn" where
  "one_packet = \<lparr>pc_ReadPacket = (\<lambda>s. (s, ''abc'', ''peer'', None)), pc_WritePacket = (\<lambda>b d s. (s, None))\<rparr>"


end
