(* ===== verification/Rule_Item.thy ===== *)
theory Rule_Item
  imports Go_Path Go_Strconv
begin

text \<open>
  The conditions of routing rules (\<^verbatim>\<open>route/rule/rule_item_*.go\<close> of the fork) and the connection
  they look at (\<^verbatim>\<open>adapter/inbound.go\<close>). Each item has its constructor and its \<open>Match\<close>; none of
  them changes the connection.

  The record \<open>lib\<close> holds what the items call outside the repository: methods of socket
  addresses, the domain matchers and address sets of two packages, and the parsers of the
  standard library for regular expressions and addresses. Network state that changes while
  the program runs is the record \<open>net_state\<close>. Addresses have no zones.
\<close>

section \<open>The connection\<close>

datatype Addr = Addr4 "32 word" | Addr6 "128 word"

record Prefix =
  pf_Addr :: "Addr option"
  pf_Bits :: nat

definition Prefix_IsValid :: "Prefix \<Rightarrow> bool" where
  "Prefix_IsValid p \<longleftrightarrow>
     (case pf_Addr p of None \<Rightarrow> False | Some (Addr4 a) \<Rightarrow> pf_Bits p \<le> 32 | Some (Addr6 a) \<Rightarrow> pf_Bits p \<le> 128)"

definition Overlaps :: "Prefix \<Rightarrow> Prefix \<Rightarrow> bool" where
  "Overlaps p q \<longleftrightarrow>
     Prefix_IsValid p \<and> Prefix_IsValid q \<and>
     (let n = min (pf_Bits p) (pf_Bits q) in
      case (pf_Addr p, pf_Addr q) of
        (Some (Addr4 a), Some (Addr4 b)) \<Rightarrow> drop_bit (32 - n) a = drop_bit (32 - n) b
      | (Some (Addr6 a), Some (Addr6 b)) \<Rightarrow> drop_bit (128 - n) a = drop_bit (128 - n) b
      | _ \<Rightarrow> False)"

record Socksaddr =
  sa_Addr :: "Addr option"
  sa_Port :: "16 word"
  sa_Fqdn :: string

record ProcessInfo =
  pi_ProcessPath :: string
  pi_PackageName :: string
  pi_User :: string
  pi_UserId :: int

type_synonym InterfaceType = nat

record InboundOptions =
  io_SniffEnabled :: bool
  io_SniffOverrideDestination :: bool
  io_SniffTimeout :: int
  io_DomainStrategy :: nat
  io_UDPDisableDomainUnmapping :: bool
  io_Detour :: string

definition no_inbound_options :: InboundOptions where
  "no_inbound_options =
     \<lparr>io_SniffEnabled = False, io_SniffOverrideDestination = False, io_SniffTimeout = 0, io_DomainStrategy = 0,
      io_UDPDisableDomainUnmapping = False, io_Detour = []\<rparr>"

text \<open>Left out of the connection: the sniffer's own state and the two codes of the removed
  location database, which nothing reads.\<close>

record InboundContext =
  ic_Inbound :: string
  ic_InboundType :: string
  ic_IPVersion :: nat
  ic_Network :: string
  ic_Source :: Socksaddr
  ic_Destination :: Socksaddr
  ic_User :: string
  ic_Outbound :: string
  ic_Protocol :: string
  ic_Domain :: string
  ic_Client :: string
  ic_InboundDetour :: string
  ic_LastInbound :: string
  ic_OriginDestination :: Socksaddr
  ic_RouteOriginalDestination :: Socksaddr
  ic_InboundOptions :: InboundOptions
  ic_UDPDisableDomainUnmapping :: bool
  ic_UDPConnect :: bool
  ic_UDPTimeout :: int
  ic_TLSFragment :: bool
  ic_TLSFragmentFallbackDelay :: int
  ic_TLSRecordFragment :: bool
  ic_NetworkStrategy :: "nat option"
  ic_NetworkType :: "InterfaceType list"
  ic_FallbackNetworkType :: "InterfaceType list"
  ic_FallbackDelay :: int
  ic_DestinationAddresses :: "Addr list"
  ic_ProcessInfo :: "ProcessInfo option"
  ic_QueryType :: "16 word"
  ic_FakeIP :: bool
  ic_IPCIDRMatchSource :: bool
  ic_IPCIDRAcceptEmpty :: bool
  ic_SourceAddressMatch :: bool
  ic_SourcePortMatch :: bool
  ic_DestinationAddressMatch :: bool
  ic_DestinationPortMatch :: bool
  ic_DidMatch :: bool
  ic_IgnoreDestinationIPCIDRMatch :: bool

definition ResetRuleCache :: "InboundContext \<Rightarrow> InboundContext" where
  "ResetRuleCache c =
     c\<lparr>ic_IPCIDRMatchSource := False, ic_IPCIDRAcceptEmpty := False, ic_SourceAddressMatch := False, ic_SourcePortMatch := False,
       ic_DestinationAddressMatch := False, ic_DestinationPortMatch := False, ic_DidMatch := False\<rparr>"

section \<open>What the items call\<close>

record lib =
  lib_IsIP :: "Socksaddr \<Rightarrow> bool"
  lib_IsIPv4 :: "Socksaddr \<Rightarrow> bool"
  lib_IsIPv6 :: "Socksaddr \<Rightarrow> bool"
  lib_IsValid :: "Socksaddr \<Rightarrow> bool"
  lib_IsPublicAddr :: "Addr \<Rightarrow> bool"
  lib_NewMatcher :: "string list \<Rightarrow> string list \<Rightarrow> string \<Rightarrow> bool"
  lib_NewAdGuardMatcher :: "string list \<Rightarrow> string \<Rightarrow> bool"
  lib_Compile :: "string \<Rightarrow> (string \<Rightarrow> bool) option"
  lib_ParsePrefix :: "string \<Rightarrow> Prefix option"
  lib_ParseAddr :: "string \<Rightarrow> Addr option"
  lib_IPSet :: "(Prefix + Addr) list \<Rightarrow> (Addr option \<Rightarrow> bool) option"
  lib_ParseSocksaddrHostPort :: "string \<Rightarrow> 16 word \<Rightarrow> Socksaddr"

record NetworkInterface =
  ni_Addresses :: "Prefix list"
  ni_Type :: InterfaceType
  ni_Expensive :: bool
  ni_Constrained :: bool

record net_state =
  nm_DefaultNetworkInterface :: "NetworkInterface option"
  nm_SSID :: string
  nm_BSSID :: string
  nm_Interfaces :: "(string \<times> Prefix list) list"
  nm_NetworkInterfaces :: "NetworkInterface list"
  nm_DefaultInterface :: "Prefix list option"
  nm_clashMode :: "string option"

datatype rule_error =
    MissingConditions
  | MissingOutbound
  | UnknownRuleType string
  | UnknownMode string
  | InvalidIPVersion int
  | EmptyDomain
  | EmptyDomainSuffix
  | BadExpression string
  | GeositeRemoved
  | GeoIPRemoved
  | BadPrefix string
  | BadIPSet
  | BadPortRange string
  | UnknownSniffer string
  | DialerFailed
  | UnknownAction string

datatype rule_item =
    InboundItem "(string, bool) gomap"
  | IPVersionItem bool
  | NetworkItem "(string, bool) gomap"
  | AuthUserItem "(string, bool) gomap"
  | ProtocolItem "(string, bool) gomap"
  | ClientItem "(string, bool) gomap"
  | DomainItem "string \<Rightarrow> bool"
  | AdGuardDomainItem "string \<Rightarrow> bool"
  | DomainKeywordItem "string list"
  | DomainRegexItem "(string \<Rightarrow> bool) list"
  | IPCIDRItem "Addr option \<Rightarrow> bool" bool
  | IPIsPrivateItem bool
  | PortItem "(16 word, bool) gomap" bool
  | PortRangeItem bool "(16 word \<times> 16 word) list"
  | ProcessItem "(string, bool) gomap"
  | ProcessPathItem "(string, bool) gomap"
  | ProcessPathRegexItem "(string \<Rightarrow> bool) list"
  | PackageNameItem "(string, bool) gomap"
  | UserItem "(string, bool) gomap"
  | UserIdItem "(int, bool) gomap"
  | ClashModeItem string
  | NetworkTypeItem "InterfaceType list"
  | NetworkIsExpensiveItem
  | NetworkIsConstrainedItem
  | WIFISSIDItem "(string, bool) gomap"
  | WIFIBSSIDItem "(string, bool) gomap"
  | InterfaceAddressItem "(string, Prefix list) gomap"
  | NetworkInterfaceAddressItem "(InterfaceType, Prefix list) gomap"
  | DefaultInterfaceAddressItem "Prefix list"
  | PreferredByItem "string list" "((string \<Rightarrow> bool) \<times> (Addr \<Rightarrow> bool)) list"

text \<open>The loop by which the constructors fill a map of the listed values.\<close>

definition true_map :: "'k list \<Rightarrow> ('k, bool) gomap" where
  "true_map xs = fold (\<lambda>x. mput x True) xs []"

section \<open>Constructors\<close>

definition NewInboundRule :: "string list \<Rightarrow> rule_item" where
  "NewInboundRule inbounds = InboundItem (true_map inbounds)"

definition NewIPVersionItem :: "bool \<Rightarrow> rule_item" where
  "NewIPVersionItem isIPv6 = IPVersionItem isIPv6"

definition NewNetworkItem :: "string list \<Rightarrow> rule_item" where
  "NewNetworkItem networks = NetworkItem (true_map networks)"

definition NewAuthUserItem :: "string list \<Rightarrow> rule_item" where
  "NewAuthUserItem users = AuthUserItem (true_map users)"

definition NewProtocolItem :: "string list \<Rightarrow> rule_item" where
  "NewProtocolItem protocols = ProtocolItem (true_map protocols)"

definition NewClientItem :: "string list \<Rightarrow> rule_item" where
  "NewClientItem clients = ClientItem (true_map clients)"

definition NewDomainItem :: "lib \<Rightarrow> string list \<Rightarrow> string list \<Rightarrow> rule_error + rule_item" where
  "NewDomainItem l domains domainSuffixes =
     (if [] \<in> set domains then Inl EmptyDomain
      else if [] \<in> set domainSuffixes then Inl EmptyDomainSuffix
      else Inr (DomainItem (lib_NewMatcher l domains domainSuffixes)))"

definition NewAdGuardDomainItem :: "lib \<Rightarrow> string list \<Rightarrow> rule_item" where
  "NewAdGuardDomainItem l ruleLines = AdGuardDomainItem (lib_NewAdGuardMatcher l ruleLines)"

definition NewDomainKeywordItem :: "string list \<Rightarrow> rule_item" where
  "NewDomainKeywordItem keywords = DomainKeywordItem keywords"

fun compile_all :: "lib \<Rightarrow> string list \<Rightarrow> rule_error + (string \<Rightarrow> bool) list" where
  "compile_all l [] = Inr []"
| "compile_all l (e # es) =
     (case lib_Compile l e of
        None \<Rightarrow> Inl (BadExpression e)
      | Some m \<Rightarrow> (case compile_all l es of Inl err \<Rightarrow> Inl err | Inr ms \<Rightarrow> Inr (m # ms)))"

definition NewDomainRegexItem :: "lib \<Rightarrow> string list \<Rightarrow> rule_error + rule_item" where
  "NewDomainRegexItem l expressions = map_sum id DomainRegexItem (compile_all l expressions)"

definition NewProcessPathRegexItem :: "lib \<Rightarrow> string list \<Rightarrow> rule_error + rule_item" where
  "NewProcessPathRegexItem l expressions = map_sum id ProcessPathRegexItem (compile_all l expressions)"

fun parse_prefixes :: "lib \<Rightarrow> string list \<Rightarrow> rule_error + (Prefix + Addr) list" where
  "parse_prefixes l [] = Inr []"
| "parse_prefixes l (s # ss) =
     (case (case lib_ParsePrefix l s of Some p \<Rightarrow> Some (Inl p) | None \<Rightarrow> map_option Inr (lib_ParseAddr l s)) of
        None \<Rightarrow> Inl (BadPrefix s)
      | Some x \<Rightarrow> (case parse_prefixes l ss of Inl e \<Rightarrow> Inl e | Inr xs \<Rightarrow> Inr (x # xs)))"

definition NewIPCIDRItem :: "lib \<Rightarrow> bool \<Rightarrow> string list \<Rightarrow> rule_error + rule_item" where
  "NewIPCIDRItem l isSource prefixStrings =
     (case parse_prefixes l prefixStrings of
        Inl e \<Rightarrow> Inl e
      | Inr xs \<Rightarrow> (case lib_IPSet l xs of None \<Rightarrow> Inl BadIPSet | Some ipSet \<Rightarrow> Inr (IPCIDRItem ipSet isSource)))"

definition NewRawIPCIDRItem :: "bool \<Rightarrow> (Addr option \<Rightarrow> bool) \<Rightarrow> rule_item" where
  "NewRawIPCIDRItem isSource ipSet = IPCIDRItem ipSet isSource"

definition NewIPIsPrivateItem :: "bool \<Rightarrow> rule_item" where
  "NewIPIsPrivateItem isSource = IPIsPrivateItem isSource"

definition NewPortItem :: "bool \<Rightarrow> 16 word list \<Rightarrow> rule_item" where
  "NewPortItem isSource ports = PortItem (true_map ports) isSource"

definition parse_port :: "string \<Rightarrow> 16 word option" where
  "parse_port s = (case ParseUint s 10 16 of POk n \<Rightarrow> Some (of_nat n) | _ \<Rightarrow> None)"

definition port_range :: "string \<Rightarrow> (16 word \<times> 16 word) option" where
  "port_range portRange =
     (case IndexByte portRange CHR '':'' of
        None \<Rightarrow> None
      | Some subIndex \<Rightarrow>
          (case if 0 < subIndex then parse_port (take subIndex portRange) else Some 0 of
             None \<Rightarrow> None
           | Some lo \<Rightarrow>
               (case if subIndex = length portRange - 1 then Some 0xFFFF else parse_port (drop (subIndex + 1) portRange) of
                  None \<Rightarrow> None
                | Some hi \<Rightarrow> Some (lo, hi))))"

fun port_ranges :: "string list \<Rightarrow> rule_error + (16 word \<times> 16 word) list" where
  "port_ranges [] = Inr []"
| "port_ranges (s # ss) =
     (case port_range s of
        None \<Rightarrow> Inl (BadPortRange s)
      | Some r \<Rightarrow> (case port_ranges ss of Inl e \<Rightarrow> Inl e | Inr rs \<Rightarrow> Inr (r # rs)))"

definition NewPortRangeItem :: "bool \<Rightarrow> string list \<Rightarrow> rule_error + rule_item" where
  "NewPortRangeItem isSource rangeList = map_sum id (PortRangeItem isSource) (port_ranges rangeList)"

definition NewProcessItem :: "string list \<Rightarrow> rule_item" where
  "NewProcessItem processNameList = ProcessItem (true_map processNameList)"

definition NewProcessPathItem :: "string list \<Rightarrow> rule_item" where
  "NewProcessPathItem processNameList = ProcessPathItem (true_map processNameList)"

definition NewPackageNameItem :: "string list \<Rightarrow> rule_item" where
  "NewPackageNameItem packageNameList = PackageNameItem (true_map packageNameList)"

definition NewUserItem :: "string list \<Rightarrow> rule_item" where
  "NewUserItem users = UserItem (true_map users)"

definition NewUserIDItem :: "int list \<Rightarrow> rule_item" where
  "NewUserIDItem userIdList = UserIdItem (true_map userIdList)"

definition NewClashModeItem :: "string \<Rightarrow> rule_item" where
  "NewClashModeItem mode = ClashModeItem mode"

definition NewNetworkTypeItem :: "InterfaceType list \<Rightarrow> rule_item" where
  "NewNetworkTypeItem networkType = NetworkTypeItem networkType"

definition NewWIFISSIDItem :: "string list \<Rightarrow> rule_item" where
  "NewWIFISSIDItem ssidList = WIFISSIDItem (true_map ssidList)"

definition NewWIFIBSSIDItem :: "string list \<Rightarrow> rule_item" where
  "NewWIFIBSSIDItem bssidList = WIFIBSSIDItem (true_map bssidList)"

definition NewInterfaceAddressItem :: "(string \<times> Prefix list) list \<Rightarrow> rule_item" where
  "NewInterfaceAddressItem entries = InterfaceAddressItem (fold (\<lambda>(k, prefixes). mput k prefixes) entries [])"

definition NewNetworkInterfaceAddressItem :: "(InterfaceType \<times> Prefix list) list \<Rightarrow> rule_item" where
  "NewNetworkInterfaceAddressItem entries = NetworkInterfaceAddressItem (fold (\<lambda>(k, prefixes). mput k prefixes) entries [])"

definition NewDefaultInterfaceAddressItem :: "Prefix list \<Rightarrow> rule_item" where
  "NewDefaultInterfaceAddressItem interfaceAddresses = DefaultInterfaceAddressItem interfaceAddresses"

definition NewPreferredByItem :: "string list \<Rightarrow> rule_item" where
  "NewPreferredByItem outboundTags = PreferredByItem outboundTags []"

section \<open>Matching\<close>

definition InboundItem_Match :: "(string, bool) gomap \<Rightarrow> InboundContext \<Rightarrow> bool" where
  "InboundItem_Match m md = mget0 False m (ic_Inbound md)"

definition IPVersionItem_Match :: "lib \<Rightarrow> bool \<Rightarrow> InboundContext \<Rightarrow> bool" where
  "IPVersionItem_Match l isIPv6 md \<longleftrightarrow>
     ic_IPVersion md \<noteq> 0 \<and> (ic_IPVersion md = 6) = isIPv6 \<or>
     lib_IsIP l (ic_Destination md) \<and> lib_IsIPv6 l (ic_Destination md) = isIPv6"

definition NetworkItem_Match :: "(string, bool) gomap \<Rightarrow> InboundContext \<Rightarrow> bool" where
  "NetworkItem_Match m md = mget0 False m (ic_Network md)"

definition AuthUserItem_Match :: "(string, bool) gomap \<Rightarrow> InboundContext \<Rightarrow> bool" where
  "AuthUserItem_Match m md = mget0 False m (ic_User md)"

definition ProtocolItem_Match :: "(string, bool) gomap \<Rightarrow> InboundContext \<Rightarrow> bool" where
  "ProtocolItem_Match m md = mget0 False m (ic_Protocol md)"

definition ClientItem_Match :: "(string, bool) gomap \<Rightarrow> InboundContext \<Rightarrow> bool" where
  "ClientItem_Match m md = mget0 False m (ic_Client md)"

text \<open>The name a domain condition looks at.\<close>

definition domainHost :: "InboundContext \<Rightarrow> string" where
  "domainHost md = (if ic_Domain md \<noteq> [] then ic_Domain md else sa_Fqdn (ic_Destination md))"

definition DomainItem_Match :: "(string \<Rightarrow> bool) \<Rightarrow> InboundContext \<Rightarrow> bool" where
  "DomainItem_Match matcher md = (if domainHost md = [] then False else matcher (ToLower (domainHost md)))"

definition AdGuardDomainItem_Match :: "(string \<Rightarrow> bool) \<Rightarrow> InboundContext \<Rightarrow> bool" where
  "AdGuardDomainItem_Match matcher md = (if domainHost md = [] then False else matcher (ToLower (domainHost md)))"

definition DomainKeywordItem_Match :: "string list \<Rightarrow> InboundContext \<Rightarrow> bool" where
  "DomainKeywordItem_Match keywords md =
     (if domainHost md = [] then False else \<exists>keyword \<in> set keywords. Contains (ToLower (domainHost md)) keyword)"

definition DomainRegexItem_Match :: "(string \<Rightarrow> bool) list \<Rightarrow> InboundContext \<Rightarrow> bool" where
  "DomainRegexItem_Match matchers md =
     (if domainHost md = [] then False else \<exists>matcher \<in> set matchers. matcher (ToLower (domainHost md)))"

definition IPCIDRItem_Match :: "lib \<Rightarrow> (Addr option \<Rightarrow> bool) \<Rightarrow> bool \<Rightarrow> InboundContext \<Rightarrow> bool" where
  "IPCIDRItem_Match l ipSet isSource md =
     (if isSource \<or> ic_IPCIDRMatchSource md then ipSet (sa_Addr (ic_Source md))
      else if lib_IsIP l (ic_Destination md) then ipSet (sa_Addr (ic_Destination md))
      else if ic_DestinationAddresses md \<noteq> [] then \<exists>a \<in> set (ic_DestinationAddresses md). ipSet (Some a)
      else ic_IPCIDRAcceptEmpty md)"

definition IPIsPrivateItem_Match :: "lib \<Rightarrow> bool \<Rightarrow> InboundContext \<Rightarrow> bool" where
  "IPIsPrivateItem_Match l isSource md =
     (case (if isSource then sa_Addr (ic_Source md) else sa_Addr (ic_Destination md)) of
        Some a \<Rightarrow> \<not> lib_IsPublicAddr l a
      | None \<Rightarrow> \<not> isSource \<and> (\<exists>a \<in> set (ic_DestinationAddresses md). \<not> lib_IsPublicAddr l a))"

definition looked_port :: "bool \<Rightarrow> InboundContext \<Rightarrow> 16 word" where
  "looked_port isSource md = (if isSource then sa_Port (ic_Source md) else sa_Port (ic_Destination md))"

definition PortItem_Match :: "(16 word, bool) gomap \<Rightarrow> bool \<Rightarrow> InboundContext \<Rightarrow> bool" where
  "PortItem_Match m isSource md = mget0 False m (looked_port isSource md)"

definition PortRangeItem_Match :: "bool \<Rightarrow> (16 word \<times> 16 word) list \<Rightarrow> InboundContext \<Rightarrow> bool" where
  "PortRangeItem_Match isSource ranges md =
     (\<exists>r \<in> set ranges. fst r \<le> looked_port isSource md \<and> looked_port isSource md \<le> snd r)"

text \<open>\<open>filepath.Base\<close> on a path that is not empty.\<close>

definition Base :: "string \<Rightarrow> string" where
  "Base path =
     (let p = rev (dropWhile (\<lambda>c. c = slash) (rev path)) in
      if p = [] then [slash] else rev (takeWhile (\<lambda>c. c \<noteq> slash) (rev p)))"

definition ProcessItem_Match :: "(string, bool) gomap \<Rightarrow> InboundContext \<Rightarrow> bool" where
  "ProcessItem_Match m md =
     (case ic_ProcessInfo md of
        None \<Rightarrow> False
      | Some p \<Rightarrow> if pi_ProcessPath p = [] then False else mget0 False m (Base (pi_ProcessPath p)))"

definition ProcessPathItem_Match :: "(string, bool) gomap \<Rightarrow> InboundContext \<Rightarrow> bool" where
  "ProcessPathItem_Match m md =
     (case ic_ProcessInfo md of
        None \<Rightarrow> False
      | Some p \<Rightarrow> if pi_ProcessPath p = [] then False else mget0 False m (pi_ProcessPath p))"

definition ProcessPathRegexItem_Match :: "(string \<Rightarrow> bool) list \<Rightarrow> InboundContext \<Rightarrow> bool" where
  "ProcessPathRegexItem_Match matchers md =
     (case ic_ProcessInfo md of
        None \<Rightarrow> False
      | Some p \<Rightarrow> if pi_ProcessPath p = [] then False else \<exists>matcher \<in> set matchers. matcher (pi_ProcessPath p))"

definition PackageNameItem_Match :: "(string, bool) gomap \<Rightarrow> InboundContext \<Rightarrow> bool" where
  "PackageNameItem_Match m md =
     (case ic_ProcessInfo md of
        None \<Rightarrow> False
      | Some p \<Rightarrow> if pi_PackageName p = [] then False else mget0 False m (pi_PackageName p))"

definition UserItem_Match :: "(string, bool) gomap \<Rightarrow> InboundContext \<Rightarrow> bool" where
  "UserItem_Match m md =
     (case ic_ProcessInfo md of
        None \<Rightarrow> False
      | Some p \<Rightarrow> if pi_User p = [] then False else mget0 False m (pi_User p))"

definition UserIdItem_Match :: "(int, bool) gomap \<Rightarrow> InboundContext \<Rightarrow> bool" where
  "UserIdItem_Match m md =
     (case ic_ProcessInfo md of
        None \<Rightarrow> False
      | Some p \<Rightarrow> if pi_UserId p = -1 then False else mget0 False m (pi_UserId p))"

definition ClashModeItem_Match :: "net_state \<Rightarrow> string \<Rightarrow> bool" where
  "ClashModeItem_Match nm mode = (case nm_clashMode nm of None \<Rightarrow> False | Some current \<Rightarrow> EqualFold current mode)"

definition NetworkTypeItem_Match :: "net_state \<Rightarrow> InterfaceType list \<Rightarrow> bool" where
  "NetworkTypeItem_Match nm networkType =
     (case nm_DefaultNetworkInterface nm of None \<Rightarrow> False | Some i \<Rightarrow> ni_Type i \<in> set networkType)"

definition NetworkIsExpensiveItem_Match :: "net_state \<Rightarrow> bool" where
  "NetworkIsExpensiveItem_Match nm = (case nm_DefaultNetworkInterface nm of None \<Rightarrow> False | Some i \<Rightarrow> ni_Expensive i)"

definition NetworkIsConstrainedItem_Match :: "net_state \<Rightarrow> bool" where
  "NetworkIsConstrainedItem_Match nm = (case nm_DefaultNetworkInterface nm of None \<Rightarrow> False | Some i \<Rightarrow> ni_Constrained i)"

definition WIFISSIDItem_Match :: "net_state \<Rightarrow> (string, bool) gomap \<Rightarrow> bool" where
  "WIFISSIDItem_Match nm m = mget0 False m (nm_SSID nm)"

definition WIFIBSSIDItem_Match :: "net_state \<Rightarrow> (string, bool) gomap \<Rightarrow> bool" where
  "WIFIBSSIDItem_Match nm m = mget0 False m (nm_BSSID nm)"

definition InterfaceAddressItem_Match :: "net_state \<Rightarrow> (string, Prefix list) gomap \<Rightarrow> bool" where
  "InterfaceAddressItem_Match nm m =
     list_all (\<lambda>(ifName, addresses).
       case find (\<lambda>i. fst i = ifName) (nm_Interfaces nm) of
         None \<Rightarrow> False
       | Some i \<Rightarrow> fst i \<noteq> [] \<and> \<not> (\<forall>a \<in> set addresses. \<forall>p \<in> set (snd i). \<not> Overlaps a p)) m"

definition NetworkInterfaceAddressItem_Match :: "net_state \<Rightarrow> (InterfaceType, Prefix list) gomap \<Rightarrow> bool" where
  "NetworkInterfaceAddressItem_Match nm m =
     list_all (\<lambda>(ifType, addresses).
       \<exists>i \<in> set (nm_NetworkInterfaces nm). ni_Type i = ifType \<and> (\<exists>p \<in> set (ni_Addresses i). \<exists>a \<in> set addresses. Overlaps a p)) m"

definition DefaultInterfaceAddressItem_Match :: "net_state \<Rightarrow> Prefix list \<Rightarrow> bool" where
  "DefaultInterfaceAddressItem_Match nm interfaceAddresses =
     (case nm_DefaultInterface nm of
        None \<Rightarrow> False
      | Some addresses \<Rightarrow> \<forall>a \<in> set interfaceAddresses. \<not> (\<forall>p \<in> set addresses. \<not> Overlaps a p))"

definition PreferredByItem_Match :: "lib \<Rightarrow> ((string \<Rightarrow> bool) \<times> (Addr \<Rightarrow> bool)) list \<Rightarrow> InboundContext \<Rightarrow> bool" where
  "PreferredByItem_Match l outbounds md \<longleftrightarrow>
     domainHost md \<noteq> [] \<and> (\<exists>ob \<in> set outbounds. fst ob (domainHost md)) \<or>
     lib_IsIP l (ic_Destination md) \<and> (\<exists>ob \<in> set outbounds. case sa_Addr (ic_Destination md) of None \<Rightarrow> False | Some a \<Rightarrow> snd ob a) \<or>
     (\<exists>a \<in> set (ic_DestinationAddresses md). \<exists>ob \<in> set outbounds. snd ob a)"

fun rule_item_Match :: "lib \<Rightarrow> net_state \<Rightarrow> rule_item \<Rightarrow> InboundContext \<Rightarrow> bool" where
  "rule_item_Match l nm (InboundItem m) md = InboundItem_Match m md"
| "rule_item_Match l nm (IPVersionItem v6) md = IPVersionItem_Match l v6 md"
| "rule_item_Match l nm (NetworkItem m) md = NetworkItem_Match m md"
| "rule_item_Match l nm (AuthUserItem m) md = AuthUserItem_Match m md"
| "rule_item_Match l nm (ProtocolItem m) md = ProtocolItem_Match m md"
| "rule_item_Match l nm (ClientItem m) md = ClientItem_Match m md"
| "rule_item_Match l nm (DomainItem f) md = DomainItem_Match f md"
| "rule_item_Match l nm (AdGuardDomainItem f) md = AdGuardDomainItem_Match f md"
| "rule_item_Match l nm (DomainKeywordItem ks) md = DomainKeywordItem_Match ks md"
| "rule_item_Match l nm (DomainRegexItem fs) md = DomainRegexItem_Match fs md"
| "rule_item_Match l nm (IPCIDRItem s src) md = IPCIDRItem_Match l s src md"
| "rule_item_Match l nm (IPIsPrivateItem src) md = IPIsPrivateItem_Match l src md"
| "rule_item_Match l nm (PortItem m src) md = PortItem_Match m src md"
| "rule_item_Match l nm (PortRangeItem src rs) md = PortRangeItem_Match src rs md"
| "rule_item_Match l nm (ProcessItem m) md = ProcessItem_Match m md"
| "rule_item_Match l nm (ProcessPathItem m) md = ProcessPathItem_Match m md"
| "rule_item_Match l nm (ProcessPathRegexItem fs) md = ProcessPathRegexItem_Match fs md"
| "rule_item_Match l nm (PackageNameItem m) md = PackageNameItem_Match m md"
| "rule_item_Match l nm (UserItem m) md = UserItem_Match m md"
| "rule_item_Match l nm (UserIdItem m) md = UserIdItem_Match m md"
| "rule_item_Match l nm (ClashModeItem mode) md = ClashModeItem_Match nm mode"
| "rule_item_Match l nm (NetworkTypeItem ts) md = NetworkTypeItem_Match nm ts"
| "rule_item_Match l nm NetworkIsExpensiveItem md = NetworkIsExpensiveItem_Match nm"
| "rule_item_Match l nm NetworkIsConstrainedItem md = NetworkIsConstrainedItem_Match nm"
| "rule_item_Match l nm (WIFISSIDItem m) md = WIFISSIDItem_Match nm m"
| "rule_item_Match l nm (WIFIBSSIDItem m) md = WIFIBSSIDItem_Match nm m"
| "rule_item_Match l nm (InterfaceAddressItem m) md = InterfaceAddressItem_Match nm m"
| "rule_item_Match l nm (NetworkInterfaceAddressItem m) md = NetworkInterfaceAddressItem_Match nm m"
| "rule_item_Match l nm (DefaultInterfaceAddressItem ps) md = DefaultInterfaceAddressItem_Match nm ps"
| "rule_item_Match l nm (PreferredByItem tags obs) md = PreferredByItem_Match l obs md"

section \<open>Facts\<close>

lemma true_map_fold: "mget0 False (fold (\<lambda>x. mput x True) xs m) k \<longleftrightarrow> k \<in> set xs \<or> mget0 False m k"
  by (induction xs arbitrary: m) (auto simp: mget0_def)

lemma true_map_iff [simp]: "mget0 False (true_map xs) k \<longleftrightarrow> k \<in> set xs"
  using true_map_fold [of xs "[]" k] by (simp add: true_map_def mget0_def)

text \<open>The five flags of a match that is under way do not influence any item.\<close>

lemmas item_match_defs =
  InboundItem_Match_def IPVersionItem_Match_def NetworkItem_Match_def AuthUserItem_Match_def ProtocolItem_Match_def
  ClientItem_Match_def domainHost_def DomainItem_Match_def AdGuardDomainItem_Match_def DomainKeywordItem_Match_def
  DomainRegexItem_Match_def IPCIDRItem_Match_def IPIsPrivateItem_Match_def looked_port_def PortItem_Match_def
  PortRangeItem_Match_def ProcessItem_Match_def ProcessPathItem_Match_def ProcessPathRegexItem_Match_def
  PackageNameItem_Match_def UserItem_Match_def UserIdItem_Match_def PreferredByItem_Match_def

lemma rule_item_Match_flags [simp]:
  "rule_item_Match l nm i (md\<lparr>ic_SourceAddressMatch := b\<rparr>) = rule_item_Match l nm i md"
  "rule_item_Match l nm i (md\<lparr>ic_SourcePortMatch := b\<rparr>) = rule_item_Match l nm i md"
  "rule_item_Match l nm i (md\<lparr>ic_DestinationAddressMatch := b\<rparr>) = rule_item_Match l nm i md"
  "rule_item_Match l nm i (md\<lparr>ic_DestinationPortMatch := b\<rparr>) = rule_item_Match l nm i md"
  "rule_item_Match l nm i (md\<lparr>ic_DidMatch := b\<rparr>) = rule_item_Match l nm i md"
  by (cases i; simp add: item_match_defs cong: option.case_cong)+

text \<open>A port range means what it says, with either bound left out or not.\<close>

lemma no_colon: "CHR '':'' \<notin> set (nat_str n)"
  using nat_str_digits [of n] by (auto simp: list_all_iff is_digit_def code_def)

lemma parse_port_nat_str: "n < 2 ^ 16 \<Longrightarrow> parse_port (nat_str n) = Some (of_nat n)"
  by (simp add: parse_port_def ParseUint_def parse_digits_nat_str)

lemma port_range_print:
  assumes "a < 2 ^ 16" and "b < 2 ^ 16"
  shows "port_range (nat_str a @ '':'' @ nat_str b) = Some (of_nat a, of_nat b)"
    and "port_range ('':'' @ nat_str b) = Some (0, of_nat b)"
    and "port_range (nat_str a @ '':'') = Some (of_nat a, 0xFFFF)"
  using assms no_colon [of a] by (simp_all add: port_range_def IndexByte_append parse_port_nat_str)

lemma port_range_Match:
  assumes "a < 2 ^ 16" and "b < 2 ^ 16" and "NewPortRangeItem isSource [nat_str a @ '':'' @ nat_str b] = Inr i"
  shows "rule_item_Match l nm i md \<longleftrightarrow> a \<le> unat (looked_port isSource md) \<and> unat (looked_port isSource md) \<le> b"
  using assms
  by (auto simp: NewPortRangeItem_def port_range_print PortRangeItem_Match_def word_le_nat_alt unat_of_nat take_bit_nat_eq_self
    simp del: append.simps)

end
