(* ===== verification/Route_Rule.thy ===== *)
theory Route_Rule
  imports Rule_Item
begin

text \<open>
  Routing rules: how they are built from their options (\<^verbatim>\<open>route/rule/rule_default.go\<close>,
  \<^verbatim>\<open>rule_headless.go\<close>, \<^verbatim>\<open>rule_action.go\<close>), how they are started, and how they match a connection
  (\<^verbatim>\<open>rule_abstract.go\<close>, \<^verbatim>\<open>rule_item_rule_set.go\<close>).

  \<open>Match\<close> works on flags in the connection itself: which groups of conditions have been
  met so far. A rule set is a condition that tries rules of its own on the same flags.
  The theorems compare this with a formula over the conditions: for rules without rule
  sets they agree; a rule set of one rule is merged into the rule that names it; and in a
  rule set of several rules a flag set by a rule that failed counts for the next one.
\<close>

section \<open>Actions\<close>

record route_options =
  ro_OverrideAddress :: Socksaddr
  ro_OverridePort :: "16 word"
  ro_NetworkStrategy :: "nat option"
  ro_NetworkType :: "InterfaceType list"
  ro_FallbackNetworkType :: "InterfaceType list"
  ro_FallbackDelay :: int
  ro_UDPDisableDomainUnmapping :: bool
  ro_UDPConnect :: bool
  ro_UDPTimeout :: int
  ro_TLSFragment :: bool
  ro_TLSFragmentFallbackDelay :: int
  ro_TLSRecordFragment :: bool

record resolve_options =
  rs_Server :: string
  rs_Strategy :: nat
  rs_DisableCache :: bool
  rs_RewriteTTL :: "nat option"
  rs_ClientSubnet :: Prefix

record sniff_options =
  sn_SnifferNames :: "string list"
  sn_StreamSniffers :: "string list"
  sn_PacketSniffers :: "string list"
  sn_Timeout :: int
  sn_OverrideDestination :: bool

datatype rule_action =
    RuleActionRoute string route_options
  | RuleActionRouteOptions route_options
  | RuleActionDirect string
  | RuleActionReject string bool
  | RuleActionHijackDNS
  | RuleActionSniff sniff_options
  | RuleActionResolve resolve_options

fun action_Type :: "rule_action \<Rightarrow> string" where
  "action_Type (RuleActionRoute ob ro) = ''route''"
| "action_Type (RuleActionRouteOptions ro) = ''route-options''"
| "action_Type (RuleActionDirect d) = ''direct''"
| "action_Type (RuleActionReject m nd) = ''reject''"
| "action_Type RuleActionHijackDNS = ''hijack-dns''"
| "action_Type (RuleActionSniff sn) = ''sniff''"
| "action_Type (RuleActionResolve rs) = ''resolve''"

text \<open>The options of an action as they are decoded. Whether a dialer can be made from the
  options of a direct action, and its description, come from code outside this model.\<close>

record RawRouteOptionsActionOptions =
  aro_OverrideAddress :: string
  aro_OverridePort :: "16 word"
  aro_NetworkStrategy :: "nat option"
  aro_FallbackDelay :: int
  aro_UDPDisableDomainUnmapping :: bool
  aro_UDPConnect :: bool
  aro_UDPTimeout :: int
  aro_TLSFragment :: bool
  aro_TLSFragmentFallbackDelay :: int
  aro_TLSRecordFragment :: bool

record RuleAction =
  oa_Action :: string
  oa_Outbound :: string
  oa_RouteOptions :: RawRouteOptionsActionOptions
  oa_RouteOptionsOptions :: RawRouteOptionsActionOptions
  oa_DirectDialer :: bool
  oa_DirectDescriptions :: "string list"
  oa_Method :: string
  oa_NoDrop :: bool
  oa_Sniffer :: "string list"
  oa_Timeout :: int
  oa_Resolve :: resolve_options

definition route_action_options :: "lib \<Rightarrow> RawRouteOptionsActionOptions \<Rightarrow> route_options" where
  "route_action_options l a =
     \<lparr>ro_OverrideAddress = lib_ParseSocksaddrHostPort l (aro_OverrideAddress a) 0, ro_OverridePort = aro_OverridePort a,
      ro_NetworkStrategy = aro_NetworkStrategy a, ro_NetworkType = [], ro_FallbackNetworkType = [],
      ro_FallbackDelay = aro_FallbackDelay a, ro_UDPDisableDomainUnmapping = aro_UDPDisableDomainUnmapping a,
      ro_UDPConnect = aro_UDPConnect a, ro_UDPTimeout = 0, ro_TLSFragment = aro_TLSFragment a,
      ro_TLSFragmentFallbackDelay = aro_TLSFragmentFallbackDelay a, ro_TLSRecordFragment = aro_TLSRecordFragment a\<rparr>"

definition route_options_action_options :: "lib \<Rightarrow> RawRouteOptionsActionOptions \<Rightarrow> route_options" where
  "route_options_action_options l a =
     \<lparr>ro_OverrideAddress = lib_ParseSocksaddrHostPort l (aro_OverrideAddress a) 0, ro_OverridePort = aro_OverridePort a,
      ro_NetworkStrategy = aro_NetworkStrategy a, ro_NetworkType = [], ro_FallbackNetworkType = [],
      ro_FallbackDelay = aro_FallbackDelay a, ro_UDPDisableDomainUnmapping = aro_UDPDisableDomainUnmapping a,
      ro_UDPConnect = aro_UDPConnect a, ro_UDPTimeout = aro_UDPTimeout a, ro_TLSFragment = aro_TLSFragment a,
      ro_TLSFragmentFallbackDelay = aro_TLSFragmentFallbackDelay a, ro_TLSRecordFragment = aro_TLSRecordFragment a\<rparr>"

definition direct_description :: "string list \<Rightarrow> string" where
  "direct_description ds =
     (case ds of
        [] \<Rightarrow> []
      | [d] \<Rightarrow> ''('' @ d @ '')''
      | [d, e] \<Rightarrow> ''('' @ d @ '','' @ e @ '')''
      | d # e # _ \<Rightarrow> ''('' @ d @ '','' @ e @ '',...)'')"

definition sniffers_of :: "string \<Rightarrow> (string list \<times> string list) option" where
  "sniffers_of name =
     (if name = ''tls'' then Some ([''TLSClientHello''], [])
      else if name = ''http'' then Some ([''HTTPHost''], [])
      else if name = ''quic'' then Some ([], [''QUICClientHello''])
      else if name = ''dns'' then Some ([''StreamDomainNameQuery''], [''DomainNameQuery''])
      else if name = ''stun'' then Some ([], [''STUNMessage''])
      else if name = ''bittorrent'' then Some ([''BitTorrent''], [''UTP'', ''UDPTracker''])
      else if name = ''dtls'' then Some ([], [''DTLSRecord''])
      else if name = ''ssh'' then Some ([''SSH''], [])
      else if name = ''rdp'' then Some ([''RDP''], [])
      else if name = ''ntp'' then Some ([], [''NTP''])
      else None)"

fun build_sniffers :: "string list \<Rightarrow> sniff_options \<Rightarrow> rule_error + sniff_options" where
  "build_sniffers [] sn = Inr sn"
| "build_sniffers (name # names) sn =
     (case sniffers_of name of
        None \<Rightarrow> Inl (UnknownSniffer name)
      | Some (streams, packets) \<Rightarrow>
          build_sniffers names (sn\<lparr>sn_StreamSniffers := sn_StreamSniffers sn @ streams, sn_PacketSniffers := sn_PacketSniffers sn @ packets\<rparr>))"

definition NewRuleAction :: "lib \<Rightarrow> RuleAction \<Rightarrow> rule_error + rule_action option" where
  "NewRuleAction l a =
     (if oa_Action a = [] then Inr None
      else if oa_Action a = ''route'' then Inr (Some (RuleActionRoute (oa_Outbound a) (route_action_options l (oa_RouteOptions a))))
      else if oa_Action a = ''route-options'' then
        Inr (Some (RuleActionRouteOptions (route_options_action_options l (oa_RouteOptionsOptions a))))
      else if oa_Action a = ''direct'' then
        (if oa_DirectDialer a then Inr (Some (RuleActionDirect (direct_description (oa_DirectDescriptions a)))) else Inl DialerFailed)
      else if oa_Action a = ''reject'' then Inr (Some (RuleActionReject (oa_Method a) (oa_NoDrop a)))
      else if oa_Action a = ''hijack-dns'' then Inr (Some RuleActionHijackDNS)
      else if oa_Action a = ''sniff'' then
        map_sum id (\<lambda>sn. Some (RuleActionSniff sn))
          (build_sniffers (oa_Sniffer a)
             \<lparr>sn_SnifferNames = oa_Sniffer a, sn_StreamSniffers = [], sn_PacketSniffers = [], sn_Timeout = oa_Timeout a,
              sn_OverrideDestination = False\<rparr>)
      else if oa_Action a = ''resolve'' then Inr (Some (RuleActionResolve (oa_Resolve a)))
      else Inl (UnknownAction (oa_Action a)))"

text \<open>The error with which a rejecting rule ends a connection. More than fifty rejections in
  half a minute turn the answer into silence.\<close>

datatype reject_result = RejectReset | RejectDrop | RejectNone | RejectPanic

definition reject_Error :: "string \<Rightarrow> bool \<Rightarrow> int \<Rightarrow> int list \<Rightarrow> int list \<times> reject_result" where
  "reject_Error meth noDrop now dropCounter =
     (if meth = ''default'' then
        (if noDrop then (dropCounter, RejectReset)
         else let kept = filter (\<lambda>t. now - t \<le> 30 * 1000000000) dropCounter @ [now]
              in (kept, if 50 < length kept then RejectDrop else RejectReset))
      else if meth = ''drop'' then (dropCounter, RejectDrop)
      else if meth = ''reply'' then (dropCounter, RejectNone)
      else (dropCounter, RejectPanic))"

section \<open>Rules and their matching\<close>

text \<open>The type of items is a parameter: the rules inside rule sets have no rule sets.\<close>

record 'i abstractDefaultRule =
  ar_items :: "'i list"
  ar_sourceAddressItems :: "'i list"
  ar_sourcePortItems :: "'i list"
  ar_destinationAddressItems :: "'i list"
  ar_destinationIPCIDRItems :: "'i list"
  ar_destinationPortItems :: "'i list"
  ar_allItems :: "'i list"
  ar_invert :: bool
  ar_action :: "rule_action option"

datatype 'i rule =
    DefaultRule "'i abstractDefaultRule"
  | LogicalRule "'i rule list" string bool "rule_action option"

type_synonym headless_rule = "rule_item rule"

datatype item =
    Item rule_item
  | RuleSetItem "string list" "headless_rule list list" bool bool

type_synonym 'i matcher = "'i \<Rightarrow> InboundContext \<Rightarrow> bool \<times> InboundContext"

fun any_item :: "'i matcher \<Rightarrow> 'i list \<Rightarrow> InboundContext \<Rightarrow> bool \<times> InboundContext" where
  "any_item im [] md = (False, md)"
| "any_item im (i # is) md = (let (b, md1) = im i md in if b then (True, md1) else any_item im is md1)"

definition match_group ::
  "'i matcher \<Rightarrow> 'i list \<Rightarrow> (InboundContext \<Rightarrow> bool) \<Rightarrow> (InboundContext \<Rightarrow> InboundContext) \<Rightarrow> InboundContext \<Rightarrow> InboundContext" where
  "match_group im group_items matched mark md =
     (if group_items \<noteq> [] \<and> \<not> matched md then
        (let (b, md1) = any_item im group_items (md\<lparr>ic_DidMatch := True\<rparr>) in if b then mark md1 else md1)
      else md)"

fun match_items :: "'i matcher \<Rightarrow> ('i \<Rightarrow> bool) \<Rightarrow> 'i list \<Rightarrow> InboundContext \<Rightarrow> bool \<times> InboundContext" where
  "match_items im isRuleSet [] md = (True, md)"
| "match_items im isRuleSet (i # is) md =
     (let (b, md1) = im i (if isRuleSet i then md else md\<lparr>ic_DidMatch := True\<rparr>)
      in if b then match_items im isRuleSet is md1 else (False, md1))"

definition dest_cidr :: "bool \<Rightarrow> 'i abstractDefaultRule \<Rightarrow> 'i list" where
  "dest_cidr ignore r = (if ignore then [] else ar_destinationIPCIDRItems r)"

text \<open>The checks at the end, on the flags collected.\<close>

definition match_result :: "'i abstractDefaultRule \<Rightarrow> InboundContext \<Rightarrow> bool" where
  "match_result r md =
     (if ar_sourceAddressItems r \<noteq> [] \<and> \<not> ic_SourceAddressMatch md then ar_invert r
      else if ar_sourcePortItems r \<noteq> [] \<and> \<not> ic_SourcePortMatch md then ar_invert r
      else if (dest_cidr (ic_IgnoreDestinationIPCIDRMatch md) r \<noteq> [] \<or> ar_destinationAddressItems r \<noteq> []) \<and>
              \<not> ic_DestinationAddressMatch md then ar_invert r
      else if ar_destinationPortItems r \<noteq> [] \<and> \<not> ic_DestinationPortMatch md then ar_invert r
      else if \<not> ic_DidMatch md then True
      else \<not> ar_invert r)"

definition mark_sa :: "InboundContext \<Rightarrow> InboundContext" where "mark_sa md = md\<lparr>ic_SourceAddressMatch := True\<rparr>"

definition mark_sp :: "InboundContext \<Rightarrow> InboundContext" where "mark_sp md = md\<lparr>ic_SourcePortMatch := True\<rparr>"

definition mark_da :: "InboundContext \<Rightarrow> InboundContext" where "mark_da md = md\<lparr>ic_DestinationAddressMatch := True\<rparr>"

definition mark_dp :: "InboundContext \<Rightarrow> InboundContext" where "mark_dp md = md\<lparr>ic_DestinationPortMatch := True\<rparr>"

definition match_groups :: "'i matcher \<Rightarrow> 'i abstractDefaultRule \<Rightarrow> InboundContext \<Rightarrow> InboundContext" where
  "match_groups im r md =
     (let m1 = match_group im (ar_sourceAddressItems r) ic_SourceAddressMatch mark_sa md;
          m2 = match_group im (ar_sourcePortItems r) ic_SourcePortMatch mark_sp m1;
          m3 = match_group im (ar_destinationAddressItems r) ic_DestinationAddressMatch mark_da m2;
          m4 = match_group im (dest_cidr (ic_IgnoreDestinationIPCIDRMatch m3) r) ic_DestinationAddressMatch mark_da m3
      in match_group im (ar_destinationPortItems r) ic_DestinationPortMatch mark_dp m4)"

definition default_Match :: "'i matcher \<Rightarrow> ('i \<Rightarrow> bool) \<Rightarrow> 'i abstractDefaultRule \<Rightarrow> InboundContext \<Rightarrow> bool \<times> InboundContext" where
  "default_Match im isRuleSet r md =
     (if ar_allItems r = [] then (True, md)
      else let (ok, md1) = match_items im isRuleSet (ar_items r) (match_groups im r md)
           in (if ok then match_result r md1 else ar_invert r, md1))"

fun rule_Match :: "'i matcher \<Rightarrow> ('i \<Rightarrow> bool) \<Rightarrow> 'i rule \<Rightarrow> InboundContext \<Rightarrow> bool \<times> InboundContext"
  and all_rules :: "'i matcher \<Rightarrow> ('i \<Rightarrow> bool) \<Rightarrow> 'i rule list \<Rightarrow> InboundContext \<Rightarrow> bool \<times> InboundContext"
  and any_rule :: "'i matcher \<Rightarrow> ('i \<Rightarrow> bool) \<Rightarrow> 'i rule list \<Rightarrow> InboundContext \<Rightarrow> bool \<times> InboundContext" where
  "rule_Match im isRuleSet (DefaultRule r) md = default_Match im isRuleSet r md"
| "rule_Match im isRuleSet (LogicalRule rs mode invert action) md =
     (let (b, md1) = (if mode = ''and'' then all_rules im isRuleSet rs md else any_rule im isRuleSet rs md) in (b \<noteq> invert, md1))"
| "all_rules im isRuleSet [] md = (True, md)"
| "all_rules im isRuleSet (r # rs) md =
     (let (b, md1) = rule_Match im isRuleSet r (ResetRuleCache md) in if b then all_rules im isRuleSet rs md1 else (False, md1))"
| "any_rule im isRuleSet [] md = (False, md)"
| "any_rule im isRuleSet (r # rs) md =
     (let (b, md1) = rule_Match im isRuleSet r (ResetRuleCache md) in if b then (True, md1) else any_rule im isRuleSet rs md1)"

text \<open>A headless rule, a rule set, and a rule of the route.\<close>

definition pure_matcher :: "lib \<Rightarrow> net_state \<Rightarrow> rule_item matcher" where
  "pure_matcher l nm i md = (rule_item_Match l nm i md, md)"

definition headless_Match :: "lib \<Rightarrow> net_state \<Rightarrow> headless_rule \<Rightarrow> InboundContext \<Rightarrow> bool \<times> InboundContext" where
  "headless_Match l nm = rule_Match (pure_matcher l nm) (\<lambda>i. False)"

fun LocalRuleSet_Match :: "lib \<Rightarrow> net_state \<Rightarrow> headless_rule list \<Rightarrow> InboundContext \<Rightarrow> bool \<times> InboundContext" where
  "LocalRuleSet_Match l nm [] md = (False, md)"
| "LocalRuleSet_Match l nm (r # rs) md =
     (let (b, md1) = headless_Match l nm r md in if b then (True, md1) else LocalRuleSet_Match l nm rs md1)"

fun match_sets :: "lib \<Rightarrow> net_state \<Rightarrow> headless_rule list list \<Rightarrow> InboundContext \<Rightarrow> bool \<times> InboundContext" where
  "match_sets l nm [] md = (False, md)"
| "match_sets l nm (s # ss) md =
     (let (b, md1) = LocalRuleSet_Match l nm s md in if b then (True, md1) else match_sets l nm ss md1)"

definition RuleSetItem_Match :: "lib \<Rightarrow> net_state \<Rightarrow> headless_rule list list \<Rightarrow> bool \<Rightarrow> bool \<Rightarrow> InboundContext \<Rightarrow> bool \<times> InboundContext" where
  "RuleSetItem_Match l nm setList src acceptEmpty md =
     match_sets l nm setList (md\<lparr>ic_IPCIDRMatchSource := src, ic_IPCIDRAcceptEmpty := acceptEmpty\<rparr>)"

fun item_Match :: "lib \<Rightarrow> net_state \<Rightarrow> item matcher" where
  "item_Match l nm (Item i) md = (rule_item_Match l nm i md, md)"
| "item_Match l nm (RuleSetItem tags setList src acceptEmpty) md = RuleSetItem_Match l nm setList src acceptEmpty md"

fun is_rule_set :: "item \<Rightarrow> bool" where
  "is_rule_set (Item i) = False"
| "is_rule_set (RuleSetItem tags setList src acceptEmpty) = True"

definition Match :: "lib \<Rightarrow> net_state \<Rightarrow> item rule \<Rightarrow> InboundContext \<Rightarrow> bool \<times> InboundContext" where
  "Match l nm = rule_Match (item_Match l nm) is_rule_set"

fun rule_Action :: "'i rule \<Rightarrow> rule_action option" where
  "rule_Action (DefaultRule r) = ar_action r"
| "rule_Action (LogicalRule rs mode invert action) = action"

section \<open>What matching means\<close>

text \<open>The formula a rule stands for, over the truth of its items. Conditions of one group are
  alternatives, the groups and the single items are all required; a domain condition and an
  address condition on the destination are one group. A rule that asks nothing matches.\<close>

definition some_of :: "('i \<Rightarrow> bool) \<Rightarrow> 'i list \<Rightarrow> bool" where
  "some_of P is \<longleftrightarrow> is = [] \<or> (\<exists>i \<in> set is. P i)"

definition formula :: "('i \<Rightarrow> bool) \<Rightarrow> bool \<Rightarrow> 'i abstractDefaultRule \<Rightarrow> bool" where
  "formula P ig r \<longleftrightarrow>
     (\<forall>i \<in> set (ar_items r). P i) \<and> some_of P (ar_sourceAddressItems r) \<and> some_of P (ar_sourcePortItems r) \<and>
     some_of P (ar_destinationAddressItems r @ dest_cidr ig r) \<and> some_of P (ar_destinationPortItems r)"

definition nothing_asked :: "bool \<Rightarrow> 'i abstractDefaultRule \<Rightarrow> bool" where
  "nothing_asked ig r \<longleftrightarrow>
     ar_items r = [] \<and> ar_sourceAddressItems r = [] \<and> ar_sourcePortItems r = [] \<and> ar_destinationAddressItems r = [] \<and>
     dest_cidr ig r = [] \<and> ar_destinationPortItems r = []"

definition default_spec :: "('i \<Rightarrow> bool) \<Rightarrow> bool \<Rightarrow> 'i abstractDefaultRule \<Rightarrow> bool" where
  "default_spec P ig r \<longleftrightarrow> nothing_asked ig r \<or> formula P ig r \<noteq> ar_invert r"

fun rule_spec :: "('i \<Rightarrow> bool) \<Rightarrow> bool \<Rightarrow> 'i rule \<Rightarrow> bool" where
  "rule_spec P ig (DefaultRule r) = default_spec P ig r"
| "rule_spec P ig (LogicalRule rs mode invert action) =
     ((if mode = ''and'' then \<forall>r \<in> set rs. rule_spec P ig r else \<exists>r \<in> set rs. rule_spec P ig r) \<noteq> invert)"

text \<open>A rule as the constructors leave it: the list of all items is empty only if all groups
  are. \<open>good\<close> restricts the items.\<close>

definition group_items :: "'i abstractDefaultRule \<Rightarrow> 'i list" where
  "group_items r =
     ar_sourceAddressItems r @ ar_sourcePortItems r @ ar_destinationAddressItems r @ ar_destinationIPCIDRItems r @ ar_destinationPortItems r"

definition default_built :: "('i \<Rightarrow> bool) \<Rightarrow> 'i abstractDefaultRule \<Rightarrow> bool" where
  "default_built good r \<longleftrightarrow> set (ar_allItems r) = set (ar_items r @ group_items r) \<and> (\<forall>i \<in> set (ar_allItems r). good i)"

fun built :: "('i \<Rightarrow> bool) \<Rightarrow> 'i rule \<Rightarrow> bool" where
  "built good (DefaultRule r) = default_built good r"
| "built good (LogicalRule rs mode invert action) = (\<forall>r \<in> set rs. built good r)"

text \<open>The connection with its flags set to given values.\<close>

definition flags :: "bool \<Rightarrow> bool \<Rightarrow> bool \<Rightarrow> bool \<Rightarrow> bool \<Rightarrow> InboundContext \<Rightarrow> InboundContext" where
  "flags a b c d e md = md\<lparr>ic_SourceAddressMatch := a, ic_SourcePortMatch := b, ic_DestinationAddressMatch := c,
     ic_DestinationPortMatch := d, ic_DidMatch := e\<rparr>"

lemma flags_get [simp]:
  "ic_SourceAddressMatch (flags a b c d e md) = a" "ic_SourcePortMatch (flags a b c d e md) = b"
  "ic_DestinationAddressMatch (flags a b c d e md) = c" "ic_DestinationPortMatch (flags a b c d e md) = d"
  "ic_DidMatch (flags a b c d e md) = e"
  "ic_IgnoreDestinationIPCIDRMatch (flags a b c d e md) = ic_IgnoreDestinationIPCIDRMatch md"
  "mark_sa (flags a b c d e md) = flags True b c d e md" "mark_sp (flags a b c d e md) = flags a True c d e md"
  "mark_da (flags a b c d e md) = flags a b True d e md" "mark_dp (flags a b c d e md) = flags a b c True e md"
  by (simp_all add: flags_def mark_sa_def mark_sp_def mark_da_def mark_dp_def)

lemma reset_flags [simp]: "ResetRuleCache (flags a b c d e md) = ResetRuleCache md"
  by (simp add: ResetRuleCache_def flags_def)

lemma reset_is_flags: "ResetRuleCache md = flags False False False False False (ResetRuleCache md)"
  by (simp add: ResetRuleCache_def flags_def)

lemma reset_get [simp]:
  "ResetRuleCache (ResetRuleCache md) = ResetRuleCache md"
  "ic_IgnoreDestinationIPCIDRMatch (ResetRuleCache md) = ic_IgnoreDestinationIPCIDRMatch md"
  by (simp_all add: ResetRuleCache_def)

text \<open>A connection that differs in nothing but its flags.\<close>

definition near :: "InboundContext \<Rightarrow> InboundContext \<Rightarrow> bool" where
  "near m md \<longleftrightarrow> (\<exists>a b c d e. m = flags a b c d e (ResetRuleCache md))"

lemma near_flags: "near (flags a b c d e (ResetRuleCache md)) md"
  unfolding near_def by blast

lemma near_reset: "near m md \<Longrightarrow> ResetRuleCache m = ResetRuleCache md"
  by (auto simp: near_def)

text \<open>What the match of a default rule gives on flags already set.\<close>

definition verdict :: "('i \<Rightarrow> bool) \<Rightarrow> bool \<Rightarrow> 'i abstractDefaultRule \<Rightarrow> bool \<Rightarrow> bool \<Rightarrow> bool \<Rightarrow> bool \<Rightarrow> bool \<Rightarrow> bool" where
  "verdict P ig r a b c d e =
     (if ar_allItems r = [] then True
      else if (\<forall>i \<in> set (ar_items r). P i) \<and> (a \<or> some_of P (ar_sourceAddressItems r)) \<and> (b \<or> some_of P (ar_sourcePortItems r)) \<and>
              (c \<or> some_of P (ar_destinationAddressItems r @ dest_cidr ig r)) \<and> (d \<or> some_of P (ar_destinationPortItems r))
           then e \<longrightarrow> \<not> ar_invert r
      else ar_invert r)"

definition any_of :: "('i \<Rightarrow> bool) \<Rightarrow> 'i list \<Rightarrow> bool" where
  "any_of P is \<longleftrightarrow> (\<exists>i \<in> set is. P i)"

text \<open>Whether a rule sets the flag that something was asked.\<close>

definition asked :: "bool \<Rightarrow> 'i abstractDefaultRule \<Rightarrow> bool \<Rightarrow> bool \<Rightarrow> bool \<Rightarrow> bool \<Rightarrow> bool" where
  "asked ig r a b c d \<longleftrightarrow>
     ar_items r \<noteq> [] \<or> ar_sourceAddressItems r \<noteq> [] \<and> \<not> a \<or> ar_sourcePortItems r \<noteq> [] \<and> \<not> b \<or>
     ar_destinationAddressItems r @ dest_cidr ig r \<noteq> [] \<and> \<not> c \<or> ar_destinationPortItems r \<noteq> [] \<and> \<not> d"

lemma match_result_flags:
  "match_result r (flags a b c d e md) =
     (if (ar_sourceAddressItems r = [] \<or> a) \<and> (ar_sourcePortItems r = [] \<or> b) \<and>
         (ar_destinationAddressItems r @ dest_cidr (ic_IgnoreDestinationIPCIDRMatch md) r = [] \<or> c) \<and> (ar_destinationPortItems r = [] \<or> d)
      then e \<longrightarrow> \<not> ar_invert r else ar_invert r)"
  unfolding match_result_def flags_get append_is_Nil_conv by argo

text \<open>The contract of items that only look at the connection.\<close>

locale looking_items =
  fixes im :: "'i matcher" and isRuleSet :: "'i \<Rightarrow> bool" and P :: "'i \<Rightarrow> InboundContext \<Rightarrow> bool" and good :: "'i \<Rightarrow> bool"
  assumes looks: "good i \<Longrightarrow> im i md = (P i md, md)"
    and plain: "good i \<Longrightarrow> \<not> isRuleSet i"
    and flagless: "good i \<Longrightarrow> P i (md\<lparr>ic_SourceAddressMatch := a, ic_SourcePortMatch := b, ic_DestinationAddressMatch := c,
      ic_DestinationPortMatch := d, ic_DidMatch := e\<rparr>) = P i md"
begin

lemma flags_P: "good i \<Longrightarrow> P i (flags a b c d e md) = P i md"
  by (simp add: flags_def flagless)

lemma any_item_looks: "\<forall>i \<in> set is. good i \<Longrightarrow> any_item im is md = (\<exists>i \<in> set is. P i md, md)"
  by (induction "is") (auto simp: looks)

lemma match_items_looks:
  "\<forall>i \<in> set is. good i \<Longrightarrow>
     match_items im isRuleSet is (flags a b c d e md) =
       (\<forall>i \<in> set is. P i md, flags a b c d (e \<or> is \<noteq> []) md)"
proof (induction "is" arbitrary: e)
  case (Cons i "is")
  have g: "good i" using Cons.prems by simp
  have "im i (flags a b c d True md) = (P i md, flags a b c d True md)" using g by (simp add: looks flags_P)
  moreover have "(flags a b c d e md)\<lparr>ic_DidMatch := True\<rparr> = flags a b c d True md" by (simp add: flags_def)
  ultimately show ?case using Cons plain [OF g] by (cases "P i md") auto
qed simp

lemma group_looks:
  assumes "\<forall>i \<in> set is. good i"
  shows "match_group im is matched mark (flags a b c d e md) =
    (if is \<noteq> [] \<and> \<not> matched (flags a b c d e md)
     then (if \<exists>i \<in> set is. P i md then mark (flags a b c d True md) else flags a b c d True md) else flags a b c d e md)"
proof -
  have "(flags a b c d e md)\<lparr>ic_DidMatch := True\<rparr> = flags a b c d True md" by (simp add: flags_def)
  moreover have "(\<exists>i \<in> set is. P i (flags a b c d True md)) = (\<exists>i \<in> set is. P i md)" using assms by (auto simp: flags_P)
  ultimately show ?thesis using any_item_looks [OF assms] by (simp add: match_group_def)
qed

lemma group_flags:
  assumes "\<forall>i \<in> set is. good i"
  shows "match_group im is ic_SourceAddressMatch mark_sa (flags a b c d e md) =
      flags (a \<or> (\<exists>i \<in> set is. P i md)) b c d (e \<or> is \<noteq> [] \<and> \<not> a) md"
    and "match_group im is ic_SourcePortMatch mark_sp (flags a b c d e md) =
      flags a (b \<or> (\<exists>i \<in> set is. P i md)) c d (e \<or> is \<noteq> [] \<and> \<not> b) md"
    and "match_group im is ic_DestinationAddressMatch mark_da (flags a b c d e md) =
      flags a b (c \<or> (\<exists>i \<in> set is. P i md)) d (e \<or> is \<noteq> [] \<and> \<not> c) md"
    and "match_group im is ic_DestinationPortMatch mark_dp (flags a b c d e md) =
      flags a b c (d \<or> (\<exists>i \<in> set is. P i md)) (e \<or> is \<noteq> [] \<and> \<not> d) md"
proof -
  let ?x = "\<exists>i \<in> set is. P i md"
  have x: "is \<noteq> []" if ?x using that by auto
  show "match_group im is ic_SourceAddressMatch mark_sa (flags a b c d e md) = flags (a \<or> ?x) b c d (e \<or> is \<noteq> [] \<and> \<not> a) md"
    unfolding group_looks [OF assms] flags_get using x by (cases a; cases ?x; cases "is = []") simp_all
  show "match_group im is ic_SourcePortMatch mark_sp (flags a b c d e md) = flags a (b \<or> ?x) c d (e \<or> is \<noteq> [] \<and> \<not> b) md"
    unfolding group_looks [OF assms] flags_get using x by (cases b; cases ?x; cases "is = []") simp_all
  show "match_group im is ic_DestinationAddressMatch mark_da (flags a b c d e md) = flags a b (c \<or> ?x) d (e \<or> is \<noteq> [] \<and> \<not> c) md"
    unfolding group_looks [OF assms] flags_get using x by (cases c; cases ?x; cases "is = []") simp_all
  show "match_group im is ic_DestinationPortMatch mark_dp (flags a b c d e md) = flags a b c (d \<or> ?x) (e \<or> is \<noteq> [] \<and> \<not> d) md"
    unfolding group_looks [OF assms] flags_get using x by (cases d; cases ?x; cases "is = []") simp_all
qed

lemma groups_look:
  assumes "\<forall>i \<in> set (group_items r). good i"
  shows "match_groups im r (flags a b c d e md) =
    flags (a \<or> (\<exists>i \<in> set (ar_sourceAddressItems r). P i md)) (b \<or> (\<exists>i \<in> set (ar_sourcePortItems r). P i md))
      (c \<or> (\<exists>i \<in> set (ar_destinationAddressItems r @ dest_cidr (ic_IgnoreDestinationIPCIDRMatch md) r). P i md))
      (d \<or> (\<exists>i \<in> set (ar_destinationPortItems r). P i md))
      (e \<or> ar_sourceAddressItems r \<noteq> [] \<and> \<not> a \<or> ar_sourcePortItems r \<noteq> [] \<and> \<not> b \<or>
       ar_destinationAddressItems r @ dest_cidr (ic_IgnoreDestinationIPCIDRMatch md) r \<noteq> [] \<and> \<not> c \<or>
       ar_destinationPortItems r \<noteq> [] \<and> \<not> d) md"
proof -
  have sa: "\<forall>i \<in> set (ar_sourceAddressItems r). good i" and sp: "\<forall>i \<in> set (ar_sourcePortItems r). good i"
    and da: "\<forall>i \<in> set (ar_destinationAddressItems r). good i" and di: "\<forall>i \<in> set (dest_cidr ig r). good i"
    and dp: "\<forall>i \<in> set (ar_destinationPortItems r). good i" for ig
    using assms by (auto simp: group_items_def dest_cidr_def)
  show ?thesis
    unfolding match_groups_def Let_def group_flags(1) [OF sa] group_flags(2) [OF sp] group_flags(3) [OF da] group_flags(3) [OF di]
      group_flags(4) [OF dp] flags_get
    by (intro arg_cong2 [where f = "\<lambda>c e. flags _ _ c _ e md"]) auto
qed

lemma default_looks:
  fixes md
  defines "ig \<equiv> ic_IgnoreDestinationIPCIDRMatch md" and "Q \<equiv> \<lambda>i. P i md"
  assumes "default_built good r"
  shows "default_Match im isRuleSet r (flags a b c d e md) =
    (verdict Q ig r a b c d (e \<or> asked ig r a b c d),
     flags (a \<or> any_of Q (ar_sourceAddressItems r)) (b \<or> any_of Q (ar_sourcePortItems r))
       (c \<or> any_of Q (ar_destinationAddressItems r @ dest_cidr ig r)) (d \<or> any_of Q (ar_destinationPortItems r))
       (e \<or> asked ig r a b c d) md)"
proof (cases "ar_allItems r = []")
  case True
  then have "ar_items r @ group_items r = []" using assms(3) by (metis default_built_def set_empty)
  then show ?thesis using True by (simp add: default_Match_def verdict_def group_items_def any_of_def asked_def dest_cidr_def)
next
  case False
  have g: "\<forall>i \<in> set (group_items r). good i" "\<forall>i \<in> set (ar_items r). good i" using assms(3) by (auto simp: default_built_def)
  have did: "(e \<or> ar_sourceAddressItems r \<noteq> [] \<and> \<not> a \<or> ar_sourcePortItems r \<noteq> [] \<and> \<not> b \<or>
      ar_destinationAddressItems r @ dest_cidr ig r \<noteq> [] \<and> \<not> c \<or> ar_destinationPortItems r \<noteq> [] \<and> \<not> d) \<or> ar_items r \<noteq> [] \<longleftrightarrow>
      e \<or> asked ig r a b c d" unfolding asked_def by blast
  have some: "is = [] \<or> x \<or> (\<exists>i \<in> set is. Q i) \<longleftrightarrow> x \<or> some_of Q is" for "is" x unfolding some_of_def by blast
  show ?thesis
    unfolding default_Match_def groups_look [OF g(1)] match_items_looks [OF g(2)] prod.case Let_def if_not_P [OF False]
      ig_def [symmetric] Q_def [symmetric] did match_result_flags
    unfolding verdict_def if_not_P [OF False] some any_of_def ig_def [symmetric]
    by (cases "\<forall>i \<in> set (ar_items r). Q i") auto
qed

lemma fresh_default:
  assumes "default_built good r"
  shows "verdict Q ig r False False False False (asked ig r False False False False) = default_spec Q ig r"
proof (cases "ar_allItems r = []")
  case True
  then have "ar_items r @ group_items r = []" using assms by (metis default_built_def set_empty)
  then show ?thesis using True by (simp add: verdict_def default_spec_def nothing_asked_def group_items_def dest_cidr_def)
next
  case False
  then show ?thesis
    unfolding verdict_def default_spec_def nothing_asked_def formula_def asked_def some_of_def by (auto simp: dest_cidr_def)
qed

lemma rule_looks:
  "built good r \<Longrightarrow>
     fst (rule_Match im isRuleSet r (ResetRuleCache md)) =
       rule_spec (\<lambda>i. P i (ResetRuleCache md)) (ic_IgnoreDestinationIPCIDRMatch md) r \<and>
     near (snd (rule_Match im isRuleSet r (ResetRuleCache md))) md"
proof (induction r)
  case (DefaultRule r)
  then show ?case
    using default_looks [of r False False False False False "ResetRuleCache md"] fresh_default [of r]
    by (simp add: near_flags flip: reset_is_flags)
next
  case (LogicalRule rs mode invert action)
  let ?Q = "\<lambda>r. rule_spec (\<lambda>i. P i (ResetRuleCache md)) (ic_IgnoreDestinationIPCIDRMatch md) r"
  have step: "fst (rule_Match im isRuleSet r (ResetRuleCache m)) = ?Q r" "near (snd (rule_Match im isRuleSet r (ResetRuleCache m))) md"
    if "r \<in> set rs" "near m md" for r m
    using LogicalRule that by (simp_all add: near_reset)
  have all: "set ss \<subseteq> set rs \<Longrightarrow> near m md \<Longrightarrow>
      fst (all_rules im isRuleSet ss m) = (\<forall>r \<in> set ss. ?Q r) \<and> near (snd (all_rules im isRuleSet ss m)) md" for ss m
    using step by (induction ss arbitrary: m) (auto simp: Let_def split_beta)
  have any: "set ss \<subseteq> set rs \<Longrightarrow> near m md \<Longrightarrow>
      fst (any_rule im isRuleSet ss m) = (\<exists>r \<in> set ss. ?Q r) \<and> near (snd (any_rule im isRuleSet ss m)) md" for ss m
    using step by (induction ss arbitrary: m) (auto simp: Let_def split_beta)
  have "near (ResetRuleCache md) md" by (metis near_def reset_is_flags)
  then show ?case using all [of rs "ResetRuleCache md"] any [of rs "ResetRuleCache md"] by (auto simp: split_beta)
qed

end

text \<open>Both kinds of items meet the contract: the items of headless rules all of them, those of
  a rule of the route unless they are rule sets.\<close>

interpretation hl: looking_items "pure_matcher l nm" "\<lambda>i. False" "rule_item_Match l nm" "\<lambda>i. True" for l nm
  by unfold_locales (simp_all add: pure_matcher_def)

fun item_holds :: "lib \<Rightarrow> net_state \<Rightarrow> item \<Rightarrow> InboundContext \<Rightarrow> bool" where
  "item_holds l nm (Item i) md = rule_item_Match l nm i md"
| "item_holds l nm (RuleSetItem tags setList src acceptEmpty) md = False"

definition not_rule_set :: "item \<Rightarrow> bool" where
  "not_rule_set i \<longleftrightarrow> \<not> is_rule_set i"

interpretation rl: looking_items "item_Match l nm" is_rule_set "item_holds l nm" not_rule_set for l nm
proof unfold_locales
  show "item_Match l nm i md = (item_holds l nm i md, md)" if "not_rule_set i" for i md
    using that by (cases i) (simp_all add: not_rule_set_def)
  show "item_holds l nm i (md\<lparr>ic_SourceAddressMatch := a, ic_SourcePortMatch := b, ic_DestinationAddressMatch := c,
      ic_DestinationPortMatch := d, ic_DidMatch := e\<rparr>) = item_holds l nm i md" if "not_rule_set i" for i md a b c d e
    using that by (cases i) (simp_all add: not_rule_set_def)
qed (simp add: not_rule_set_def)

end
