(* ===== verification/Rule_Builder.thy ===== *)
theory Rule_Builder
  imports Route_Rule
begin

text \<open>
  Building rules from their decoded options (\<^verbatim>\<open>route/rule/rule_default.go\<close> and \<^verbatim>\<open>rule_headless.go\<close>)
  and starting them, and what the built rules match. A constructor runs through the options
  in order; each option that is present adds an item to its group and to the list of all
  items, or ends the construction with an error.
\<close>

section \<open>Options\<close>

record RawDefaultRule =
  dr_Inbound :: "string list"
  dr_IPVersion :: int
  dr_Network :: "string list"
  dr_AuthUser :: "string list"
  dr_Protocol :: "string list"
  dr_Client :: "string list"
  dr_Domain :: "string list"
  dr_DomainSuffix :: "string list"
  dr_DomainKeyword :: "string list"
  dr_DomainRegex :: "string list"
  dr_Geosite :: "string list"
  dr_SourceGeoIP :: "string list"
  dr_GeoIP :: "string list"
  dr_SourceIPCIDR :: "string list"
  dr_SourceIPIsPrivate :: bool
  dr_IPCIDR :: "string list"
  dr_IPIsPrivate :: bool
  dr_SourcePort :: "16 word list"
  dr_SourcePortRange :: "string list"
  dr_Port :: "16 word list"
  dr_PortRange :: "string list"
  dr_ProcessName :: "string list"
  dr_ProcessPath :: "string list"
  dr_ProcessPathRegex :: "string list"
  dr_PackageName :: "string list"
  dr_User :: "string list"
  dr_UserID :: "int list"
  dr_ClashMode :: string
  dr_NetworkType :: "InterfaceType list"
  dr_NetworkIsExpensive :: bool
  dr_NetworkIsConstrained :: bool
  dr_WIFISSID :: "string list"
  dr_WIFIBSSID :: "string list"
  dr_InterfaceAddress :: "(string \<times> Prefix list) list"
  dr_NetworkInterfaceAddress :: "(InterfaceType \<times> Prefix list) list"
  dr_DefaultInterfaceAddress :: "Prefix list"
  dr_PreferredBy :: "string list"
  dr_RuleSet :: "string list"
  dr_RuleSetIPCIDRMatchSource :: bool
  dr_Invert :: bool
  dr_Deprecated_RulesetIPCIDRMatchSource :: bool

text \<open>The zero values of the options.\<close>

definition no_route_options :: RawRouteOptionsActionOptions where
  "no_route_options =
     \<lparr>aro_OverrideAddress = [], aro_OverridePort = 0, aro_NetworkStrategy = None, aro_FallbackDelay = 0,
      aro_UDPDisableDomainUnmapping = False, aro_UDPConnect = False, aro_UDPTimeout = 0, aro_TLSFragment = False,
      aro_TLSFragmentFallbackDelay = 0, aro_TLSRecordFragment = False\<rparr>"

definition no_action :: RuleAction where
  "no_action =
     \<lparr>oa_Action = [], oa_Outbound = [], oa_RouteOptions = no_route_options, oa_RouteOptionsOptions = no_route_options,
      oa_DirectDialer = True, oa_DirectDescriptions = [], oa_Method = [], oa_NoDrop = False, oa_Sniffer = [], oa_Timeout = 0,
      oa_Resolve = \<lparr>rs_Server = [], rs_Strategy = 0, rs_DisableCache = False, rs_RewriteTTL = None,
        rs_ClientSubnet = \<lparr>pf_Addr = None, pf_Bits = 0\<rparr>\<rparr>\<rparr>"

definition no_conditions :: RawDefaultRule where
  "no_conditions =
     \<lparr>dr_Inbound = [], dr_IPVersion = 0, dr_Network = [], dr_AuthUser = [], dr_Protocol = [], dr_Client = [], dr_Domain = [],
      dr_DomainSuffix = [], dr_DomainKeyword = [], dr_DomainRegex = [], dr_Geosite = [], dr_SourceGeoIP = [], dr_GeoIP = [],
      dr_SourceIPCIDR = [], dr_SourceIPIsPrivate = False, dr_IPCIDR = [], dr_IPIsPrivate = False, dr_SourcePort = [],
      dr_SourcePortRange = [], dr_Port = [], dr_PortRange = [], dr_ProcessName = [], dr_ProcessPath = [], dr_ProcessPathRegex = [],
      dr_PackageName = [], dr_User = [], dr_UserID = [], dr_ClashMode = [], dr_NetworkType = [], dr_NetworkIsExpensive = False,
      dr_NetworkIsConstrained = False, dr_WIFISSID = [], dr_WIFIBSSID = [], dr_InterfaceAddress = [],
      dr_NetworkInterfaceAddress = [], dr_DefaultInterfaceAddress = [], dr_PreferredBy = [], dr_RuleSet = [],
      dr_RuleSetIPCIDRMatchSource = False, dr_Invert = False, dr_Deprecated_RulesetIPCIDRMatchSource = False\<rparr>"

record DefaultHeadlessRule =
  hr_QueryType :: "16 word list"
  hr_Network :: "string list"
  hr_Domain :: "string list"
  hr_DomainSuffix :: "string list"
  hr_DomainKeyword :: "string list"
  hr_DomainRegex :: "string list"
  hr_SourceIPCIDR :: "string list"
  hr_IPCIDR :: "string list"
  hr_SourcePort :: "16 word list"
  hr_SourcePortRange :: "string list"
  hr_Port :: "16 word list"
  hr_PortRange :: "string list"
  hr_ProcessName :: "string list"
  hr_ProcessPath :: "string list"
  hr_ProcessPathRegex :: "string list"
  hr_PackageName :: "string list"
  hr_NetworkType :: "InterfaceType list"
  hr_NetworkIsExpensive :: bool
  hr_NetworkIsConstrained :: bool
  hr_WIFISSID :: "string list"
  hr_WIFIBSSID :: "string list"
  hr_NetworkInterfaceAddress :: "(InterfaceType \<times> Prefix list) list"
  hr_DefaultInterfaceAddress :: "Prefix list"
  hr_Invert :: bool
  hr_DomainMatcher :: "(string \<Rightarrow> bool) option"
  hr_SourceIPSet :: "(Addr option \<Rightarrow> bool) option"
  hr_IPSet :: "(Addr option \<Rightarrow> bool) option"
  hr_AdGuardDomain :: "string list"
  hr_AdGuardDomainMatcher :: "(string \<Rightarrow> bool) option"

definition no_headless :: DefaultHeadlessRule where
  "no_headless =
     \<lparr>hr_QueryType = [], hr_Network = [], hr_Domain = [], hr_DomainSuffix = [], hr_DomainKeyword = [], hr_DomainRegex = [],
      hr_SourceIPCIDR = [], hr_IPCIDR = [], hr_SourcePort = [], hr_SourcePortRange = [], hr_Port = [], hr_PortRange = [],
      hr_ProcessName = [], hr_ProcessPath = [], hr_ProcessPathRegex = [], hr_PackageName = [], hr_NetworkType = [],
      hr_NetworkIsExpensive = False, hr_NetworkIsConstrained = False, hr_WIFISSID = [], hr_WIFIBSSID = [],
      hr_NetworkInterfaceAddress = [], hr_DefaultInterfaceAddress = [], hr_Invert = False, hr_DomainMatcher = None,
      hr_SourceIPSet = None, hr_IPSet = None, hr_AdGuardDomain = [], hr_AdGuardDomainMatcher = None\<rparr>"

datatype option_rule =
    DefaultOptions RawDefaultRule RuleAction
  | LogicalOptions "option_rule list" string bool RuleAction
  | UnknownOptions string

datatype option_headless =
    HeadlessDefault DefaultHeadlessRule
  | HeadlessLogical "option_headless list" string bool
  | HeadlessUnknown string

section \<open>Construction in steps\<close>

type_synonym 'i build = "'i abstractDefaultRule \<Rightarrow> rule_error + 'i abstractDefaultRule"

definition add_item :: "'i \<Rightarrow> 'i abstractDefaultRule \<Rightarrow> 'i abstractDefaultRule" where
  "add_item i r = r\<lparr>ar_items := ar_items r @ [i], ar_allItems := ar_allItems r @ [i]\<rparr>"

definition add_sa :: "'i \<Rightarrow> 'i abstractDefaultRule \<Rightarrow> 'i abstractDefaultRule" where
  "add_sa i r = r\<lparr>ar_sourceAddressItems := ar_sourceAddressItems r @ [i], ar_allItems := ar_allItems r @ [i]\<rparr>"

definition add_sp :: "'i \<Rightarrow> 'i abstractDefaultRule \<Rightarrow> 'i abstractDefaultRule" where
  "add_sp i r = r\<lparr>ar_sourcePortItems := ar_sourcePortItems r @ [i], ar_allItems := ar_allItems r @ [i]\<rparr>"

definition add_da :: "'i \<Rightarrow> 'i abstractDefaultRule \<Rightarrow> 'i abstractDefaultRule" where
  "add_da i r = r\<lparr>ar_destinationAddressItems := ar_destinationAddressItems r @ [i], ar_allItems := ar_allItems r @ [i]\<rparr>"

definition add_di :: "'i \<Rightarrow> 'i abstractDefaultRule \<Rightarrow> 'i abstractDefaultRule" where
  "add_di i r = r\<lparr>ar_destinationIPCIDRItems := ar_destinationIPCIDRItems r @ [i], ar_allItems := ar_allItems r @ [i]\<rparr>"

definition add_dp :: "'i \<Rightarrow> 'i abstractDefaultRule \<Rightarrow> 'i abstractDefaultRule" where
  "add_dp i r = r\<lparr>ar_destinationPortItems := ar_destinationPortItems r @ [i], ar_allItems := ar_allItems r @ [i]\<rparr>"

text \<open>A step that runs if its option is present, and one that adds an item once it is made.\<close>

definition opt :: "bool \<Rightarrow> 'i build \<Rightarrow> 'i build" where
  "opt present step r = (if present then step r else Inr r)"

definition place :: "('j \<Rightarrow> 'i abstractDefaultRule \<Rightarrow> 'i abstractDefaultRule) \<Rightarrow> rule_error + 'j \<Rightarrow> 'i build" where
  "place add made r = (case made of Inl e \<Rightarrow> Inl e | Inr i \<Rightarrow> Inr (add i r))"

definition refuse :: "rule_error \<Rightarrow> 'i build" where
  "refuse e r = Inl e"

fun run_steps :: "'i build list \<Rightarrow> 'i build" where
  "run_steps [] r = Inr r"
| "run_steps (s # ss) r = (case s r of Inl e \<Rightarrow> Inl e | Inr r1 \<Rightarrow> run_steps ss r1)"

definition empty_rule :: "bool \<Rightarrow> rule_action option \<Rightarrow> 'i abstractDefaultRule" where
  "empty_rule invert action =
     \<lparr>ar_items = [], ar_sourceAddressItems = [], ar_sourcePortItems = [], ar_destinationAddressItems = [],
      ar_destinationIPCIDRItems = [], ar_destinationPortItems = [], ar_allItems = [], ar_invert = invert, ar_action = action\<rparr>"

abbreviation put_item :: "rule_item \<Rightarrow> item build" where "put_item i \<equiv> place (\<lambda>i. add_item (Item i)) (Inr i)"

definition identity_steps :: "RawDefaultRule \<Rightarrow> item build list" where
  "identity_steps opts =
     [opt (dr_Inbound opts \<noteq> []) (put_item (NewInboundRule (dr_Inbound opts))),
      opt (0 < dr_IPVersion opts)
        (if dr_IPVersion opts = 4 \<or> dr_IPVersion opts = 6 then put_item (NewIPVersionItem (dr_IPVersion opts = 6))
         else refuse (InvalidIPVersion (dr_IPVersion opts))),
      opt (dr_Network opts \<noteq> []) (put_item (NewNetworkItem (dr_Network opts))),
      opt (dr_AuthUser opts \<noteq> []) (put_item (NewAuthUserItem (dr_AuthUser opts))),
      opt (dr_Protocol opts \<noteq> []) (put_item (NewProtocolItem (dr_Protocol opts))),
      opt (dr_Client opts \<noteq> []) (put_item (NewClientItem (dr_Client opts)))]"

definition domain_steps :: "lib \<Rightarrow> RawDefaultRule \<Rightarrow> item build list" where
  "domain_steps l opts =
     [opt (dr_Domain opts \<noteq> [] \<or> dr_DomainSuffix opts \<noteq> []) (place (\<lambda>i. add_da (Item i)) (NewDomainItem l (dr_Domain opts) (dr_DomainSuffix opts))),
      opt (dr_DomainKeyword opts \<noteq> []) (place (\<lambda>i. add_da (Item i)) (Inr (NewDomainKeywordItem (dr_DomainKeyword opts)))),
      opt (dr_DomainRegex opts \<noteq> []) (place (\<lambda>i. add_da (Item i)) (NewDomainRegexItem l (dr_DomainRegex opts))),
      opt (dr_Geosite opts \<noteq> []) (refuse GeositeRemoved),
      opt (dr_SourceGeoIP opts \<noteq> []) (refuse GeoIPRemoved),
      opt (dr_GeoIP opts \<noteq> []) (refuse GeoIPRemoved)]"

definition address_steps :: "lib \<Rightarrow> RawDefaultRule \<Rightarrow> item build list" where
  "address_steps l opts =
     [opt (dr_SourceIPCIDR opts \<noteq> []) (place (\<lambda>i. add_sa (Item i)) (NewIPCIDRItem l True (dr_SourceIPCIDR opts))),
      opt (dr_SourceIPIsPrivate opts) (place (\<lambda>i. add_sa (Item i)) (Inr (NewIPIsPrivateItem True))),
      opt (dr_IPCIDR opts \<noteq> []) (place (\<lambda>i. add_di (Item i)) (NewIPCIDRItem l False (dr_IPCIDR opts))),
      opt (dr_IPIsPrivate opts) (place (\<lambda>i. add_di (Item i)) (Inr (NewIPIsPrivateItem False)))]"

definition port_steps :: "RawDefaultRule \<Rightarrow> item build list" where
  "port_steps opts =
     [opt (dr_SourcePort opts \<noteq> []) (place (\<lambda>i. add_sp (Item i)) (Inr (NewPortItem True (dr_SourcePort opts)))),
      opt (dr_SourcePortRange opts \<noteq> []) (place (\<lambda>i. add_sp (Item i)) (NewPortRangeItem True (dr_SourcePortRange opts))),
      opt (dr_Port opts \<noteq> []) (place (\<lambda>i. add_dp (Item i)) (Inr (NewPortItem False (dr_Port opts)))),
      opt (dr_PortRange opts \<noteq> []) (place (\<lambda>i. add_dp (Item i)) (NewPortRangeItem False (dr_PortRange opts)))]"

definition process_steps :: "lib \<Rightarrow> RawDefaultRule \<Rightarrow> item build list" where
  "process_steps l opts =
     [opt (dr_ProcessName opts \<noteq> []) (put_item (NewProcessItem (dr_ProcessName opts))),
      opt (dr_ProcessPath opts \<noteq> []) (put_item (NewProcessPathItem (dr_ProcessPath opts))),
      opt (dr_ProcessPathRegex opts \<noteq> []) (place (\<lambda>i. add_item (Item i)) (NewProcessPathRegexItem l (dr_ProcessPathRegex opts))),
      opt (dr_PackageName opts \<noteq> []) (put_item (NewPackageNameItem (dr_PackageName opts))),
      opt (dr_User opts \<noteq> []) (put_item (NewUserItem (dr_User opts))),
      opt (dr_UserID opts \<noteq> []) (put_item (NewUserIDItem (dr_UserID opts)))]"

definition network_steps :: "RawDefaultRule \<Rightarrow> item build list" where
  "network_steps opts =
     [opt (dr_ClashMode opts \<noteq> []) (put_item (NewClashModeItem (dr_ClashMode opts))),
      opt (dr_NetworkType opts \<noteq> []) (put_item (NewNetworkTypeItem (dr_NetworkType opts))),
      opt (dr_NetworkIsExpensive opts) (put_item NetworkIsExpensiveItem),
      opt (dr_NetworkIsConstrained opts) (put_item NetworkIsConstrainedItem),
      opt (dr_WIFISSID opts \<noteq> []) (put_item (NewWIFISSIDItem (dr_WIFISSID opts))),
      opt (dr_WIFIBSSID opts \<noteq> []) (put_item (NewWIFIBSSIDItem (dr_WIFIBSSID opts))),
      opt (dr_InterfaceAddress opts \<noteq> []) (put_item (NewInterfaceAddressItem (dr_InterfaceAddress opts))),
      opt (dr_NetworkInterfaceAddress opts \<noteq> []) (put_item (NewNetworkInterfaceAddressItem (dr_NetworkInterfaceAddress opts))),
      opt (dr_DefaultInterfaceAddress opts \<noteq> []) (put_item (NewDefaultInterfaceAddressItem (dr_DefaultInterfaceAddress opts))),
      opt (dr_PreferredBy opts \<noteq> []) (put_item (NewPreferredByItem (dr_PreferredBy opts)))]"

definition NewRuleSetItem :: "string list \<Rightarrow> bool \<Rightarrow> bool \<Rightarrow> item" where
  "NewRuleSetItem tagList ipCIDRMatchSource ipCidrAcceptEmpty = RuleSetItem tagList [] ipCIDRMatchSource ipCidrAcceptEmpty"

definition rule_set_step :: "RawDefaultRule \<Rightarrow> item build" where
  "rule_set_step opts =
     opt (dr_RuleSet opts \<noteq> [])
       (place add_item (Inr (NewRuleSetItem (dr_RuleSet opts)
          (dr_RuleSetIPCIDRMatchSource opts \<or> dr_Deprecated_RulesetIPCIDRMatchSource opts) False)))"

definition NewDefaultRule :: "lib \<Rightarrow> RawDefaultRule \<Rightarrow> RuleAction \<Rightarrow> rule_error + item abstractDefaultRule" where
  "NewDefaultRule l opts a =
     (case NewRuleAction l a of
        Inl e \<Rightarrow> Inl e
      | Inr action \<Rightarrow>
          run_steps (identity_steps opts @ domain_steps l opts @ address_steps l opts @ port_steps opts @ process_steps l opts @ network_steps opts @
            [rule_set_step opts]) (empty_rule (dr_Invert opts) action))"

section \<open>Rules of the route\<close>

definition default_IsValid :: "RawDefaultRule \<Rightarrow> RuleAction \<Rightarrow> bool" where
  "default_IsValid opts a \<longleftrightarrow> (opts, a) \<noteq> (no_conditions\<lparr>dr_Invert := dr_Invert opts\<rparr>, no_action)"

text \<open>Validity; \<open>None\<close> is the panic of an unknown type inside a logical rule.\<close>

fun rule_IsValid :: "option_rule \<Rightarrow> bool option" and all_valid :: "option_rule list \<Rightarrow> bool option" where
  "rule_IsValid (DefaultOptions opts a) = Some (default_IsValid opts a)"
| "rule_IsValid (LogicalOptions rs mode invert a) = (if rs = [] then Some False else all_valid rs)"
| "rule_IsValid (UnknownOptions t) = None"
| "all_valid [] = Some True"
| "all_valid (r # rs) = (case rule_IsValid r of None \<Rightarrow> None | Some b \<Rightarrow> if b then all_valid rs else Some False)"

definition missing_outbound :: "bool \<Rightarrow> RuleAction \<Rightarrow> bool" where
  "missing_outbound checkOutbound a \<longleftrightarrow>
     (oa_Action a = [] \<or> oa_Action a = ''route'') \<and> oa_Outbound a = [] \<and> checkOutbound"

text \<open>The last argument is what building the rules inside gives.\<close>

definition NewLogicalRule :: "lib \<Rightarrow> string \<Rightarrow> bool \<Rightarrow> RuleAction \<Rightarrow> rule_error + item rule list \<Rightarrow> rule_error + item rule" where
  "NewLogicalRule l mode invert a made =
     (case NewRuleAction l a of
        Inl e \<Rightarrow> Inl e
      | Inr action \<Rightarrow>
          if mode = ''and'' \<or> mode = ''or'' then map_sum id (\<lambda>subs. LogicalRule subs mode invert action) made
          else Inl (UnknownMode mode))"

fun NewRule :: "lib \<Rightarrow> option_rule \<Rightarrow> bool \<Rightarrow> rule_error + item rule"
  and NewSubRules :: "lib \<Rightarrow> option_rule list \<Rightarrow> rule_error + item rule list" where
  "NewRule l (DefaultOptions opts a) checkOutbound =
     (if \<not> default_IsValid opts a then Inl MissingConditions
      else if missing_outbound checkOutbound a then Inl MissingOutbound
      else map_sum id DefaultRule (NewDefaultRule l opts a))"
| "NewRule l (LogicalOptions rs mode invert a) checkOutbound =
     (case rule_IsValid (LogicalOptions rs mode invert a) of
        None \<Rightarrow> Inl (UnknownRuleType [])
      | Some valid \<Rightarrow>
          if \<not> valid then Inl MissingConditions
          else if missing_outbound checkOutbound a then Inl MissingOutbound
          else NewLogicalRule l mode invert a (NewSubRules l rs))"
| "NewRule l (UnknownOptions t) checkOutbound = Inl (UnknownRuleType t)"
| "NewSubRules l [] = Inr []"
| "NewSubRules l (opts # others) =
     (case NewRule l opts False of Inl e \<Rightarrow> Inl e | Inr r \<Rightarrow> map_sum id (Cons r) (NewSubRules l others))"

section \<open>Headless rules\<close>

definition headless_steps :: "lib \<Rightarrow> bool \<Rightarrow> DefaultHeadlessRule \<Rightarrow> rule_item build list" where
  "headless_steps l hasNetworkManager opts =
     [opt (hr_Network opts \<noteq> []) (place add_item (Inr (NewNetworkItem (hr_Network opts)))),
      (if hr_Domain opts \<noteq> [] \<or> hr_DomainSuffix opts \<noteq> [] then place add_da (NewDomainItem l (hr_Domain opts) (hr_DomainSuffix opts))
       else case hr_DomainMatcher opts of None \<Rightarrow> Inr | Some m \<Rightarrow> place add_da (Inr (DomainItem m))),
      opt (hr_DomainKeyword opts \<noteq> []) (place add_da (Inr (NewDomainKeywordItem (hr_DomainKeyword opts)))),
      opt (hr_DomainRegex opts \<noteq> []) (place add_da (NewDomainRegexItem l (hr_DomainRegex opts))),
      (if hr_SourceIPCIDR opts \<noteq> [] then place add_sa (NewIPCIDRItem l True (hr_SourceIPCIDR opts))
       else case hr_SourceIPSet opts of None \<Rightarrow> Inr | Some s \<Rightarrow> place add_sa (Inr (NewRawIPCIDRItem True s))),
      (if hr_IPCIDR opts \<noteq> [] then place add_di (NewIPCIDRItem l False (hr_IPCIDR opts))
       else case hr_IPSet opts of None \<Rightarrow> Inr | Some s \<Rightarrow> place add_di (Inr (NewRawIPCIDRItem False s))),
      opt (hr_SourcePort opts \<noteq> []) (place add_sp (Inr (NewPortItem True (hr_SourcePort opts)))),
      opt (hr_SourcePortRange opts \<noteq> []) (place add_sp (NewPortRangeItem True (hr_SourcePortRange opts))),
      opt (hr_Port opts \<noteq> []) (place add_dp (Inr (NewPortItem False (hr_Port opts)))),
      opt (hr_PortRange opts \<noteq> []) (place add_dp (NewPortRangeItem False (hr_PortRange opts))),
      opt (hr_ProcessName opts \<noteq> []) (place add_item (Inr (NewProcessItem (hr_ProcessName opts)))),
      opt (hr_ProcessPath opts \<noteq> []) (place add_item (Inr (NewProcessPathItem (hr_ProcessPath opts)))),
      opt (hr_ProcessPathRegex opts \<noteq> []) (place add_item (NewProcessPathRegexItem l (hr_ProcessPathRegex opts))),
      opt (hr_PackageName opts \<noteq> []) (place add_item (Inr (NewPackageNameItem (hr_PackageName opts)))),
      opt (hasNetworkManager \<and> hr_NetworkType opts \<noteq> []) (place add_item (Inr (NewNetworkTypeItem (hr_NetworkType opts)))),
      opt (hasNetworkManager \<and> hr_NetworkIsExpensive opts) (place add_item (Inr NetworkIsExpensiveItem)),
      opt (hasNetworkManager \<and> hr_NetworkIsConstrained opts) (place add_item (Inr NetworkIsConstrainedItem)),
      opt (hasNetworkManager \<and> hr_WIFISSID opts \<noteq> []) (place add_item (Inr (NewWIFISSIDItem (hr_WIFISSID opts)))),
      opt (hasNetworkManager \<and> hr_WIFIBSSID opts \<noteq> []) (place add_item (Inr (NewWIFIBSSIDItem (hr_WIFIBSSID opts)))),
      opt (hasNetworkManager \<and> hr_NetworkInterfaceAddress opts \<noteq> [])
        (place add_item (Inr (NewNetworkInterfaceAddressItem (hr_NetworkInterfaceAddress opts)))),
      opt (hasNetworkManager \<and> hr_DefaultInterfaceAddress opts \<noteq> [])
        (place add_item (Inr (NewDefaultInterfaceAddressItem (hr_DefaultInterfaceAddress opts)))),
      (if hr_AdGuardDomain opts \<noteq> [] then place add_da (Inr (NewAdGuardDomainItem l (hr_AdGuardDomain opts)))
       else case hr_AdGuardDomainMatcher opts of None \<Rightarrow> Inr | Some m \<Rightarrow> place add_da (Inr (AdGuardDomainItem m)))]"

definition NewDefaultHeadlessRule :: "lib \<Rightarrow> bool \<Rightarrow> DefaultHeadlessRule \<Rightarrow> rule_error + rule_item abstractDefaultRule" where
  "NewDefaultHeadlessRule l hasNetworkManager opts =
     run_steps (headless_steps l hasNetworkManager opts) (empty_rule (hr_Invert opts) None)"

definition headless_IsValid :: "DefaultHeadlessRule \<Rightarrow> bool" where
  "headless_IsValid opts \<longleftrightarrow> opts \<noteq> no_headless\<lparr>hr_Invert := hr_Invert opts\<rparr>"

fun option_headless_IsValid :: "option_headless \<Rightarrow> bool option" and all_headless_valid :: "option_headless list \<Rightarrow> bool option" where
  "option_headless_IsValid (HeadlessDefault opts) = Some (headless_IsValid opts)"
| "option_headless_IsValid (HeadlessLogical rs mode invert) = (if rs = [] then Some False else all_headless_valid rs)"
| "option_headless_IsValid (HeadlessUnknown t) = None"
| "all_headless_valid [] = Some True"
| "all_headless_valid (r # rs) =
     (case option_headless_IsValid r of None \<Rightarrow> None | Some b \<Rightarrow> if b then all_headless_valid rs else Some False)"

definition NewLogicalHeadlessRule :: "string \<Rightarrow> bool \<Rightarrow> rule_error + headless_rule list \<Rightarrow> rule_error + headless_rule" where
  "NewLogicalHeadlessRule mode invert made =
     (if mode = ''and'' \<or> mode = ''or'' then map_sum id (\<lambda>subs. LogicalRule subs mode invert None) made
      else Inl (UnknownMode mode))"

fun NewHeadlessRule :: "lib \<Rightarrow> bool \<Rightarrow> option_headless \<Rightarrow> rule_error + headless_rule"
  and NewHeadlessRules :: "lib \<Rightarrow> bool \<Rightarrow> option_headless list \<Rightarrow> rule_error + headless_rule list" where
  "NewHeadlessRule l nw (HeadlessDefault opts) =
     (if \<not> headless_IsValid opts then Inl MissingConditions else map_sum id DefaultRule (NewDefaultHeadlessRule l nw opts))"
| "NewHeadlessRule l nw (HeadlessLogical rs mode invert) =
     (case option_headless_IsValid (HeadlessLogical rs mode invert) of
        None \<Rightarrow> Inl (UnknownRuleType [])
      | Some valid \<Rightarrow>
          if \<not> valid then Inl MissingConditions
          else NewLogicalHeadlessRule mode invert (NewHeadlessRules l nw rs))"
| "NewHeadlessRule l nw (HeadlessUnknown t) = Inl (UnknownRuleType t)"
| "NewHeadlessRules l nw [] = Inr []"
| "NewHeadlessRules l nw (opts # others) =
     (case NewHeadlessRule l nw opts of Inl e \<Rightarrow> Inl e | Inr r \<Rightarrow> map_sum id (Cons r) (NewHeadlessRules l nw others))"

section \<open>Starting\<close>

text \<open>Starting resolves the tags of rule sets and of preferring outbounds. The lists of a rule
  share their items, so an item that is started is started in all of them.\<close>

datatype start_error = RuleSetNotFound string | OutboundNotFound string | NoPreferredRoutes string

fun find_sets :: "(string, headless_rule list) gomap \<Rightarrow> string list \<Rightarrow> headless_rule list list \<Rightarrow> start_error + headless_rule list list" where
  "find_sets ruleSets [] acc = Inr acc"
| "find_sets ruleSets (t # ts) acc =
     (case mget ruleSets t of None \<Rightarrow> Inl (RuleSetNotFound t) | Some s \<Rightarrow> find_sets ruleSets ts (acc @ [s]))"

fun find_preferring ::
  "(string \<Rightarrow> ((string \<Rightarrow> bool) \<times> (Addr \<Rightarrow> bool)) option option) \<Rightarrow> string list \<Rightarrow> ((string \<Rightarrow> bool) \<times> (Addr \<Rightarrow> bool)) list \<Rightarrow>
   start_error + ((string \<Rightarrow> bool) \<times> (Addr \<Rightarrow> bool)) list" where
  "find_preferring outbound [] acc = Inr acc"
| "find_preferring outbound (t # ts) acc =
     (case outbound t of
        None \<Rightarrow> Inl (OutboundNotFound t)
      | Some None \<Rightarrow> Inl (NoPreferredRoutes t)
      | Some (Some p) \<Rightarrow> find_preferring outbound ts (acc @ [p]))"

definition item_Start ::
  "(string, headless_rule list) gomap \<Rightarrow> (string \<Rightarrow> ((string \<Rightarrow> bool) \<times> (Addr \<Rightarrow> bool)) option option) \<Rightarrow> item \<Rightarrow> start_error + item" where
  "item_Start ruleSets outbound i =
     (case i of
        RuleSetItem tags sets src acceptEmpty \<Rightarrow>
          map_sum id (\<lambda>found. RuleSetItem tags found src acceptEmpty) (find_sets ruleSets tags sets)
      | Item (PreferredByItem tags obs) \<Rightarrow>
          map_sum id (\<lambda>found. Item (PreferredByItem tags found)) (find_preferring outbound tags obs)
      | Item j \<Rightarrow> Inr (Item j))"

fun start_items :: "(item \<Rightarrow> start_error + item) \<Rightarrow> item list \<Rightarrow> start_error + item list" where
  "start_items st [] = Inr []"
| "start_items st (i # is) = (case st i of Inl e \<Rightarrow> Inl e | Inr j \<Rightarrow> map_sum id (Cons j) (start_items st is))"

definition started :: "(item \<Rightarrow> start_error + item) \<Rightarrow> item \<Rightarrow> item" where
  "started st i = (case st i of Inl e \<Rightarrow> i | Inr j \<Rightarrow> j)"

definition default_Start :: "(item \<Rightarrow> start_error + item) \<Rightarrow> item abstractDefaultRule \<Rightarrow> start_error + item abstractDefaultRule" where
  "default_Start st r =
     map_sum id (\<lambda>all. r\<lparr>ar_items := map (started st) (ar_items r), ar_sourceAddressItems := map (started st) (ar_sourceAddressItems r),
         ar_sourcePortItems := map (started st) (ar_sourcePortItems r),
         ar_destinationAddressItems := map (started st) (ar_destinationAddressItems r),
         ar_destinationIPCIDRItems := map (started st) (ar_destinationIPCIDRItems r),
         ar_destinationPortItems := map (started st) (ar_destinationPortItems r), ar_allItems := all\<rparr>)
       (start_items st (ar_allItems r))"

fun rule_Start :: "(item \<Rightarrow> start_error + item) \<Rightarrow> item rule \<Rightarrow> start_error + item rule"
  and rules_Start :: "(item \<Rightarrow> start_error + item) \<Rightarrow> item rule list \<Rightarrow> start_error + item rule list" where
  "rule_Start st (DefaultRule r) = map_sum id DefaultRule (default_Start st r)"
| "rule_Start st (LogicalRule rs mode invert action) =
     map_sum id (\<lambda>rs'. LogicalRule rs' mode invert action) (rules_Start st rs)"
| "rules_Start st [] = Inr []"
| "rules_Start st (r # rs) = (case rule_Start st r of Inl e \<Rightarrow> Inl e | Inr r' \<Rightarrow> map_sum id (Cons r') (rules_Start st rs))"

section \<open>Built rules are well formed\<close>

definition keeps :: "('i \<Rightarrow> bool) \<Rightarrow> 'i build \<Rightarrow> bool" where
  "keeps good s \<longleftrightarrow> (\<forall>r r'. default_built good r \<longrightarrow> s r = Inr r' \<longrightarrow> default_built good r')"

lemma keeps_basic:
  "keeps good (refuse e)" "keeps good Inr" "(b \<Longrightarrow> keeps good s) \<Longrightarrow> keeps good (opt b s)"
  by (auto simp: keeps_def refuse_def opt_def split: if_splits)

lemma add_built:
  assumes "default_built good r" and "good i"
  shows "default_built good (add_item i r)" "default_built good (add_sa i r)" "default_built good (add_sp i r)"
    "default_built good (add_da i r)" "default_built good (add_di i r)" "default_built good (add_dp i r)"
  using assms
  by (auto simp: default_built_def group_items_def add_item_def add_sa_def add_sp_def add_da_def add_di_def add_dp_def)

lemma keeps_place:
  assumes "\<And>i r. default_built good r \<Longrightarrow> default_built good (add i r)"
  shows "keeps good (place add made)"
  using assms by (auto simp: keeps_def place_def split: sum.splits)

lemma run_steps_keep:
  "\<forall>s \<in> set ss. keeps good s \<Longrightarrow> default_built good r \<Longrightarrow> run_steps ss r = Inr r' \<Longrightarrow> default_built good r'"
proof (induction ss arbitrary: r)
  case (Cons s ss)
  then obtain r1 where r1: "s r = Inr r1" "run_steps ss r1 = Inr r'" by (cases "s r") auto
  have "keeps good s" using Cons.prems(1) by simp
  then have "default_built good r1" using Cons.prems(2) r1(1) unfolding keeps_def by blast
  then show ?case using Cons.IH [of r1] Cons.prems(1) r1(2) by simp
qed simp

lemma empty_built: "default_built good (empty_rule invert action)"
  by (simp add: default_built_def group_items_def empty_rule_def)

lemma item_not_rule_set [simp]: "not_rule_set (Item i)"
  by (simp add: not_rule_set_def)

lemmas plain_steps = identity_steps_def domain_steps_def address_steps_def port_steps_def process_steps_def network_steps_def

lemma plain_steps_keep:
  assumes "s \<in> set (identity_steps opts @ domain_steps l opts @ address_steps l opts @ port_steps opts @ process_steps l opts @ network_steps opts)"
  shows "keeps not_rule_set s"
  using assms by (auto simp: plain_steps intro!: keeps_basic keeps_place add_built)

lemma NewDefaultRule_built:
  assumes "NewDefaultRule l opts a = Inr r" and "dr_RuleSet opts = []"
  shows "default_built not_rule_set r"
proof -
  let ?ss = "identity_steps opts @ domain_steps l opts @ address_steps l opts @ port_steps opts @ process_steps l opts @ network_steps opts"
  obtain action where run: "run_steps (?ss @ [rule_set_step opts]) (empty_rule (dr_Invert opts) action) = Inr r"
    using assms(1) by (auto simp: NewDefaultRule_def split: sum.splits)
  have "keeps not_rule_set (rule_set_step opts)" using assms(2) by (simp add: rule_set_step_def keeps_def opt_def)
  then have "\<forall>s \<in> set (?ss @ [rule_set_step opts]). keeps not_rule_set s" using plain_steps_keep [of _ opts l] by auto
  then show ?thesis using run_steps_keep [OF _ empty_built run] by blast
qed

text \<open>Options that name no rule set.\<close>

fun without_sets :: "option_rule \<Rightarrow> bool" where
  "without_sets (DefaultOptions opts a) = (dr_RuleSet opts = [])"
| "without_sets (LogicalOptions rs mode invert a) = (\<forall>r \<in> set rs. without_sets r)"
| "without_sets (UnknownOptions t) = True"

lemma NewRule_built:
  "NewRule l p checkOutbound = Inr r \<Longrightarrow> without_sets p \<Longrightarrow> built not_rule_set r"
  "NewSubRules l opts = Inr rs \<Longrightarrow> \<forall>p \<in> set opts. without_sets p \<Longrightarrow> \<forall>r \<in> set rs. built not_rule_set r"
proof (induction l p checkOutbound and l opts arbitrary: r and rs rule: NewRule_NewSubRules.induct)
  case (1 l opts a checkOutbound)
  then show ?case using NewDefaultRule_built [of l opts a] by (cases "NewDefaultRule l opts a") (auto split: if_splits)
next
  case (2 l rs mode invert a checkOutbound)
  then obtain valid where v: "rule_IsValid (LogicalOptions rs mode invert a) = Some valid" "\<not> \<not> valid" "\<not> missing_outbound checkOutbound a"
    and n: "NewLogicalRule l mode invert a (NewSubRules l rs) = Inr r"
    by (auto split: option.splits if_splits)
  obtain subs action where s: "NewSubRules l rs = Inr subs" "r = LogicalRule subs mode invert action"
    using n by (cases "NewSubRules l rs") (auto simp: NewLogicalRule_def split: sum.splits if_splits)
  have "\<forall>p \<in> set rs. without_sets p" using "2.prems"(2) by simp
  from "2.IH" [OF v s(1) this] s(2) show ?case by simp
next
  case (5 l p opts)
  then obtain r1 rs1 where "NewRule l p False = Inr r1" "NewSubRules l opts = Inr rs1" "rs = r1 # rs1"
    by (cases "NewSubRules l opts") (auto split: sum.splits)
  then show ?case using 5 by auto
qed auto

section \<open>A rule set of one rule\<close>

definition lift_rule :: "rule_item abstractDefaultRule \<Rightarrow> item abstractDefaultRule" where
  "lift_rule r =
     \<lparr>ar_items = map Item (ar_items r), ar_sourceAddressItems = map Item (ar_sourceAddressItems r),
      ar_sourcePortItems = map Item (ar_sourcePortItems r), ar_destinationAddressItems = map Item (ar_destinationAddressItems r),
      ar_destinationIPCIDRItems = map Item (ar_destinationIPCIDRItems r), ar_destinationPortItems = map Item (ar_destinationPortItems r),
      ar_allItems = map Item (ar_allItems r), ar_invert = ar_invert r, ar_action = ar_action r\<rparr>"

definition merge :: "'i abstractDefaultRule \<Rightarrow> 'i abstractDefaultRule \<Rightarrow> 'i abstractDefaultRule" where
  "merge r h =
     r\<lparr>ar_items := ar_items r @ ar_items h, ar_sourceAddressItems := ar_sourceAddressItems r @ ar_sourceAddressItems h,
       ar_sourcePortItems := ar_sourcePortItems r @ ar_sourcePortItems h,
       ar_destinationAddressItems := ar_destinationAddressItems r @ ar_destinationAddressItems h,
       ar_destinationIPCIDRItems := ar_destinationIPCIDRItems r @ ar_destinationIPCIDRItems h,
       ar_destinationPortItems := ar_destinationPortItems r @ ar_destinationPortItems h, ar_allItems := ar_allItems r @ ar_allItems h\<rparr>"

lemma merge_built: "default_built good r \<Longrightarrow> default_built good h \<Longrightarrow> default_built good (merge r h)"
  by (auto simp: default_built_def merge_def group_items_def)

lemma group_merge:
  "(any_of Q xs \<or> some_of Q ys) \<and> (xs = [] \<or> any_of Q xs \<or> any_of Q ys) \<longleftrightarrow> some_of Q (xs @ ys)"
  by (auto simp: any_of_def some_of_def)

lemma nothing_formula: "nothing_asked ig r \<Longrightarrow> formula Q ig r"
  by (simp add: nothing_asked_def formula_def some_of_def)

lemma verdict_positive:
  assumes "default_built good h" and "\<not> ar_invert h"
  shows "verdict Q ig h a b c d e \<longleftrightarrow>
    (\<forall>i \<in> set (ar_items h). Q i) \<and> (a \<or> some_of Q (ar_sourceAddressItems h)) \<and> (b \<or> some_of Q (ar_sourcePortItems h)) \<and>
    (c \<or> some_of Q (ar_destinationAddressItems h @ dest_cidr ig h)) \<and> (d \<or> some_of Q (ar_destinationPortItems h))"
proof (cases "ar_allItems h = []")
  case True
  then have "ar_items h @ group_items h = []" using assms(1) by (metis default_built_def set_empty)
  then show ?thesis using True by (simp add: verdict_def group_items_def some_of_def dest_cidr_def)
qed (use assms(2) in \<open>auto simp: verdict_def\<close>)

lemma match_items_append:
  "match_items im isRuleSet (xs @ ys) md =
     (let (b, md1) = match_items im isRuleSet xs md in if b then match_items im isRuleSet ys md1 else (False, md1))"
  by (induction xs arbitrary: md) (auto simp: Let_def split_beta)

lemma single_set:
  "item_Match l nm (RuleSetItem tags [[DefaultRule h]] False False) (flags a b c d e (ResetRuleCache md)) =
     default_Match (pure_matcher l nm) (\<lambda>i. False) h (flags a b c d e (ResetRuleCache md))"
proof -
  have "(flags a b c d e (ResetRuleCache md))\<lparr>ic_IPCIDRMatchSource := False, ic_IPCIDRAcceptEmpty := False\<rparr> =
      flags a b c d e (ResetRuleCache md)" by (simp add: flags_def ResetRuleCache_def)
  then show ?thesis by (simp add: RuleSetItem_Match_def headless_Match_def split_beta prod_eq_iff)
qed

lemma lift_get [simp]:
  "ar_items (lift_rule r) = map Item (ar_items r)" "ar_sourceAddressItems (lift_rule r) = map Item (ar_sourceAddressItems r)"
  "ar_sourcePortItems (lift_rule r) = map Item (ar_sourcePortItems r)"
  "ar_destinationAddressItems (lift_rule r) = map Item (ar_destinationAddressItems r)"
  "dest_cidr ig (lift_rule r) = map Item (dest_cidr ig r)"
  "ar_destinationPortItems (lift_rule r) = map Item (ar_destinationPortItems r)" "ar_invert (lift_rule r) = ar_invert r"
  by (simp_all add: lift_rule_def dest_cidr_def)

lemma add_item_get [simp]:
  "ar_items (add_item i r) = ar_items r @ [i]" "ar_sourceAddressItems (add_item i r) = ar_sourceAddressItems r"
  "ar_sourcePortItems (add_item i r) = ar_sourcePortItems r" "ar_destinationAddressItems (add_item i r) = ar_destinationAddressItems r"
  "dest_cidr ig (add_item i r) = dest_cidr ig r" "ar_destinationPortItems (add_item i r) = ar_destinationPortItems r"
  "ar_allItems (add_item i r) = ar_allItems r @ [i]" "ar_invert (add_item i r) = ar_invert r"
  by (simp_all add: add_item_def dest_cidr_def)

lemma dest_cidr_items [simp]: "dest_cidr ig (r\<lparr>ar_items := is\<rparr>) = dest_cidr ig r"
  by (simp add: dest_cidr_def)

lemma merge_get [simp]:
  "ar_items (merge r h) = ar_items r @ ar_items h" "ar_sourceAddressItems (merge r h) = ar_sourceAddressItems r @ ar_sourceAddressItems h"
  "ar_sourcePortItems (merge r h) = ar_sourcePortItems r @ ar_sourcePortItems h"
  "ar_destinationAddressItems (merge r h) = ar_destinationAddressItems r @ ar_destinationAddressItems h"
  "dest_cidr ig (merge r h) = dest_cidr ig r @ dest_cidr ig h"
  "ar_destinationPortItems (merge r h) = ar_destinationPortItems r @ ar_destinationPortItems h" "ar_invert (merge r h) = ar_invert r"
  by (simp_all add: merge_def dest_cidr_def)

lemma some_of_cong: "set xs = set ys \<Longrightarrow> some_of P xs = some_of P ys"
  unfolding some_of_def by (metis set_empty)

lemma some_of_map [simp]: "any_of P (map f xs) = any_of (\<lambda>x. P (f x)) xs"
  by (simp add: any_of_def)

lemma with_set_Match:
  fixes l nm md
  defines "Q \<equiv> \<lambda>i. rule_item_Match l nm i (ResetRuleCache md)" and "ig \<equiv> ic_IgnoreDestinationIPCIDRMatch md"
  assumes "default_built (\<lambda>i. True) h" and "\<not> ar_invert h"
  shows "fst (Match l nm (DefaultRule (add_item (RuleSetItem tags [[DefaultRule h]] False False) (lift_rule r))) (ResetRuleCache md)) =
    (if formula Q ig (merge r h) then \<not> nothing_asked ig (merge r h) \<longrightarrow> \<not> ar_invert r else ar_invert r)"
proof -
  let ?R = "add_item (RuleSetItem tags [[DefaultRule h]] False False) (lift_rule r)"
  let ?m = "ResetRuleCache md"
  let ?A = "any_of Q (ar_sourceAddressItems r)" and ?B = "any_of Q (ar_sourcePortItems r)"
    and ?C = "any_of Q (ar_destinationAddressItems r @ dest_cidr ig r)" and ?D = "any_of Q (ar_destinationPortItems r)"
  let ?E = "asked ig r False False False False"
  let ?E' = "?E \<or> asked ig h ?A ?B ?C ?D"
  have g: "\<forall>i \<in> set (group_items ?R). not_rule_set i" "\<forall>i \<in> set (map Item (ar_items r)). not_rule_set i"
    by (auto simp: group_items_def lift_rule_def add_item_def)
  have groups: "match_groups (item_Match l nm) ?R ?m = flags ?A ?B ?C ?D (asked ig (r\<lparr>ar_items := []\<rparr>) False False False False) ?m"
    using rl.groups_look [OF g(1), of l nm False False False False False ?m, folded reset_is_flags]
    by (simp add: any_of_def Q_def ig_def asked_def bex_Un)
  have items: "match_items (item_Match l nm) is_rule_set (map Item (ar_items r)) (flags ?A ?B ?C ?D e ?m) =
      (\<forall>i \<in> set (ar_items r). Q i, flags ?A ?B ?C ?D (e \<or> ar_items r \<noteq> []) ?m)" for e
    using rl.match_items_looks [OF g(2), of l nm ?A ?B ?C ?D e ?m] by (simp add: Q_def)
  have E: "asked ig (r\<lparr>ar_items := []\<rparr>) False False False False \<or> ar_items r \<noteq> [] \<longleftrightarrow> ?E"
    by (auto simp: asked_def)
  have set_item: "item_Match l nm (RuleSetItem tags [[DefaultRule h]] False False) (flags ?A ?B ?C ?D ?E ?m) =
      (verdict Q ig h ?A ?B ?C ?D ?E', flags (?A \<or> any_of Q (ar_sourceAddressItems h)) (?B \<or> any_of Q (ar_sourcePortItems h))
        (?C \<or> any_of Q (ar_destinationAddressItems h @ dest_cidr ig h)) (?D \<or> any_of Q (ar_destinationPortItems h)) ?E' ?m)"
    unfolding single_set using hl.default_looks [OF assms(3), of l nm ?A ?B ?C ?D ?E ?m] by (simp add: Q_def ig_def)
  have res: "match_items (item_Match l nm) is_rule_set (ar_items ?R) (match_groups (item_Match l nm) ?R ?m) =
      (if \<forall>i \<in> set (ar_items r). Q i
       then (verdict Q ig h ?A ?B ?C ?D ?E', flags (?A \<or> any_of Q (ar_sourceAddressItems h)) (?B \<or> any_of Q (ar_sourcePortItems h))
          (?C \<or> any_of Q (ar_destinationAddressItems h @ dest_cidr ig h)) (?D \<or> any_of Q (ar_destinationPortItems h)) ?E' ?m)
       else (False, flags ?A ?B ?C ?D ?E ?m))"
    unfolding groups add_item_get lift_get match_items_append items E by (simp add: set_item del: item_Match.simps)
  have dest: "some_of Q ((ar_destinationAddressItems r @ dest_cidr ig r) @ ar_destinationAddressItems h @ dest_cidr ig h) =
      some_of Q ((ar_destinationAddressItems r @ ar_destinationAddressItems h) @ dest_cidr ig r @ dest_cidr ig h)"
    by (intro some_of_cong) auto
  have F: "(\<forall>i \<in> set (ar_items r). Q i) \<and> verdict Q ig h ?A ?B ?C ?D ?E' \<and>
      (ar_sourceAddressItems r = [] \<or> ?A \<or> any_of Q (ar_sourceAddressItems h)) \<and>
      (ar_sourcePortItems r = [] \<or> ?B \<or> any_of Q (ar_sourcePortItems h)) \<and>
      (ar_destinationAddressItems r @ dest_cidr ig r = [] \<or> ?C \<or> any_of Q (ar_destinationAddressItems h @ dest_cidr ig h)) \<and>
      (ar_destinationPortItems r = [] \<or> ?D \<or> any_of Q (ar_destinationPortItems h)) \<longleftrightarrow> formula Q ig (merge r h)"
    using group_merge [of Q "ar_sourceAddressItems r" "ar_sourceAddressItems h"]
      group_merge [of Q "ar_sourcePortItems r" "ar_sourcePortItems h"]
      group_merge [of Q "ar_destinationAddressItems r @ dest_cidr ig r" "ar_destinationAddressItems h @ dest_cidr ig h"]
      group_merge [of Q "ar_destinationPortItems r" "ar_destinationPortItems h"]
    unfolding verdict_positive [OF assms(3,4)] formula_def merge_get dest [symmetric] set_append ball_Un by argo
  have E': "?E' \<longleftrightarrow> \<not> nothing_asked ig (merge r h)"
    unfolding asked_def nothing_asked_def merge_get by (auto simp: any_of_def)
  have "fst (Match l nm (DefaultRule ?R) ?m) = fst (default_Match (item_Match l nm) is_rule_set ?R ?m)" by (simp add: Match_def)
  also have "\<dots> = (if formula Q ig (merge r h) then ?E' \<longrightarrow> \<not> ar_invert r else ar_invert r)"
    unfolding default_Match_def res by (simp add: match_result_flags flip: F) (auto simp: ig_def)
  finally show ?thesis unfolding E' .
qed

section \<open>Properties\<close>

text \<open>
  C12: A rule matches exactly when its formula holds. For every rule that can be built from
  options without rule sets, logical rules nested to any depth included, the match with its
  flags and early returns gives the truth of the formula: the conditions of a group are
  alternatives, groups and single conditions are all required, inversion negates, and a
  rule that asks nothing matches. The match changes nothing in the connection but the
  flags it resets.
\<close>

theorem rules_match_their_formula:
  assumes "NewRule l opts checkOutbound = Inr r" and "without_sets opts"
  shows "fst (Match l nm r (ResetRuleCache md)) =
      rule_spec (\<lambda>i. item_holds l nm i (ResetRuleCache md)) (ic_IgnoreDestinationIPCIDRMatch md) r \<and>
    ResetRuleCache (snd (Match l nm r (ResetRuleCache md))) = ResetRuleCache md"
  using rl.rule_looks [OF NewRule_built(1) [OF assms], of l nm md] by (simp add: Match_def near_reset)

text \<open>A rule on an inbound and a port, inverted, for the instances below.\<close>

definition sample_options :: RawDefaultRule where
  "sample_options = no_conditions\<lparr>dr_Inbound := [''in''], dr_Port := [80, 443], dr_Invert := True\<rparr>"

definition sample_action :: RuleAction where
  "sample_action = no_action\<lparr>oa_Action := ''route'', oa_Outbound := ''out''\<rparr>"

lemma sample_valid: "default_IsValid sample_options sample_action"
  by (simp add: default_IsValid_def sample_options_def sample_action_def no_action_def no_conditions_def)

lemmas step_eval = NewDefaultRule_def NewRuleAction_def plain_steps rule_set_step_def opt_def place_def empty_rule_def
  add_item_def add_sa_def add_sp_def add_da_def add_di_def add_dp_def

lemma sample_rule:
  "NewRule l (DefaultOptions sample_options sample_action) True = Inr (DefaultRule
     \<lparr>ar_items = [Item (NewInboundRule [''in''])], ar_sourceAddressItems = [], ar_sourcePortItems = [],
      ar_destinationAddressItems = [], ar_destinationIPCIDRItems = [], ar_destinationPortItems = [Item (NewPortItem False [80, 443])],
      ar_allItems = [Item (NewInboundRule [''in'']), Item (NewPortItem False [80, 443])], ar_invert = True,
      ar_action = Some (RuleActionRoute ''out'' (route_action_options l no_route_options))\<rparr>)"
  by (simp add: sample_valid missing_outbound_def) (simp add: sample_options_def sample_action_def no_conditions_def no_action_def step_eval)

theorem rules_match_their_formula_witness:
  "\<forall>l nm md. fst (Match l nm (DefaultRule
     \<lparr>ar_items = [Item (NewInboundRule [''in''])], ar_sourceAddressItems = [], ar_sourcePortItems = [],
      ar_destinationAddressItems = [], ar_destinationIPCIDRItems = [], ar_destinationPortItems = [Item (NewPortItem False [80, 443])],
      ar_allItems = [Item (NewInboundRule [''in'']), Item (NewPortItem False [80, 443])], ar_invert = True,
      ar_action = Some (RuleActionRoute ''out'' (route_action_options l no_route_options))\<rparr>) (ResetRuleCache md)) =
    (\<not> (ic_Inbound md = ''in'' \<and> (sa_Port (ic_Destination md) = 80 \<or> sa_Port (ic_Destination md) = 443)))"
proof (intro allI)
  fix l nm md
  have w: "without_sets (DefaultOptions sample_options sample_action)" by (simp add: sample_options_def no_conditions_def)
  show "fst (Match l nm (DefaultRule
     \<lparr>ar_items = [Item (NewInboundRule [''in''])], ar_sourceAddressItems = [], ar_sourcePortItems = [],
      ar_destinationAddressItems = [], ar_destinationIPCIDRItems = [], ar_destinationPortItems = [Item (NewPortItem False [80, 443])],
      ar_allItems = [Item (NewInboundRule [''in'']), Item (NewPortItem False [80, 443])], ar_invert = True,
      ar_action = Some (RuleActionRoute ''out'' (route_action_options l no_route_options))\<rparr>) (ResetRuleCache md)) =
    (\<not> (ic_Inbound md = ''in'' \<and> (sa_Port (ic_Destination md) = 80 \<or> sa_Port (ic_Destination md) = 443)))"
    using rules_match_their_formula [OF sample_rule w, of l nm md]
    by (auto simp: default_spec_def nothing_asked_def formula_def some_of_def dest_cidr_def NewInboundRule_def NewPortItem_def
      InboundItem_Match_def PortItem_Match_def looked_port_def ResetRuleCache_def)
qed


text \<open>Rules of a rule set on a source port and a port.\<close>

definition port_pair :: "16 word \<Rightarrow> 16 word \<Rightarrow> DefaultHeadlessRule" where
  "port_pair s d = no_headless\<lparr>hr_SourcePort := [s], hr_Port := [d]\<rparr>"

definition port_rule :: "16 word \<Rightarrow> 16 word \<Rightarrow> rule_item abstractDefaultRule" where
  "port_rule s d = add_dp (NewPortItem False [d]) (add_sp (NewPortItem True [s]) (empty_rule False None))"

lemma port_rule_built: "default_built (\<lambda>i. True) (port_rule s d)" "\<not> ar_invert (port_rule s d)"
  by (auto simp: port_rule_def add_sp_def add_dp_def empty_rule_def default_built_def group_items_def)

lemma NewHeadlessRule_port_pair: "NewHeadlessRule l nw (HeadlessDefault (port_pair s d)) = Inr (DefaultRule (port_rule s d))"
proof -
  have "headless_IsValid (port_pair s d)" by (simp add: headless_IsValid_def port_pair_def no_headless_def)
  moreover have "NewDefaultHeadlessRule l nw (port_pair s d) = Inr (port_rule s d)"
    by (simp add: NewDefaultHeadlessRule_def headless_steps_def opt_def place_def port_pair_def no_headless_def port_rule_def)
  ultimately show ?thesis by simp
qed


lemma headless_looks:
  "headless_Match l nm (DefaultRule (port_rule s d)) (flags a b c e f (ResetRuleCache md)) =
     ((b \<or> sa_Port (ic_Source md) = s) \<and> (e \<or> sa_Port (ic_Destination md) = d),
      flags a (b \<or> sa_Port (ic_Source md) = s) c (e \<or> sa_Port (ic_Destination md) = d) (f \<or> \<not> b \<or> \<not> e) (ResetRuleCache md))"
proof -
  have m: "rule_item_Match l nm (NewPortItem True [s]) (ResetRuleCache md) \<longleftrightarrow> sa_Port (ic_Source md) = s"
    "rule_item_Match l nm (NewPortItem False [d]) (ResetRuleCache md) \<longleftrightarrow> sa_Port (ic_Destination md) = d"
    by (auto simp: NewPortItem_def PortItem_Match_def looked_port_def ResetRuleCache_def)
  show ?thesis
    unfolding headless_Match_def rule_Match.simps hl.default_looks [OF port_rule_built(1)]
    by (auto simp: verdict_def asked_def any_of_def some_of_def dest_cidr_def m port_rule_def add_sp_def add_dp_def empty_rule_def)
qed

text \<open>
  C40: Rules of a rule set are not tried independently. With the two rules "source port
  \<open>s1\<close> and port \<open>d1\<close>" and "source port \<open>s2\<close> and port \<open>d2\<close>" a connection from port \<open>s1\<close> to port
  \<open>d2\<close> matches neither, and it matches the rule set: the first rule leaves the flag for the
  source port set, and the second then asks only for its port.
\<close>

theorem rule_set_rules_leak:
  assumes "s1 \<noteq> s2" and "d1 \<noteq> d2" and "sa_Port (ic_Source md) = s1" and "sa_Port (ic_Destination md) = d2"
  shows "\<exists>r1 r2. NewHeadlessRules l nw [HeadlessDefault (port_pair s1 d1), HeadlessDefault (port_pair s2 d2)] = Inr [r1, r2] \<and>
    \<not> fst (headless_Match l nm r1 (ResetRuleCache md)) \<and> \<not> fst (headless_Match l nm r2 (ResetRuleCache md)) \<and>
    fst (LocalRuleSet_Match l nm [r1, r2] (ResetRuleCache md))"
proof (intro exI conjI)
  let ?f = "flags False False False False False (ResetRuleCache md)"
  show "NewHeadlessRules l nw [HeadlessDefault (port_pair s1 d1), HeadlessDefault (port_pair s2 d2)] =
      Inr [DefaultRule (port_rule s1 d1), DefaultRule (port_rule s2 d2)]"
    by (simp add: NewHeadlessRule_port_pair del: NewHeadlessRule.simps)
  show "\<not> fst (headless_Match l nm (DefaultRule (port_rule s1 d1)) (ResetRuleCache md))"
    "\<not> fst (headless_Match l nm (DefaultRule (port_rule s2 d2)) (ResetRuleCache md))"
    "fst (LocalRuleSet_Match l nm [DefaultRule (port_rule s1 d1), DefaultRule (port_rule s2 d2)] (ResetRuleCache md))"
    unfolding LocalRuleSet_Match.simps
    by (subst reset_is_flags, simp add: headless_looks assms assms(1,2) [symmetric])+
qed

definition sample_connection :: InboundContext where
  "sample_connection =
     \<lparr>ic_Inbound = ''in'', ic_InboundType = [], ic_IPVersion = 0, ic_Network = ''tcp'',
      ic_Source = \<lparr>sa_Addr = None, sa_Port = 1, sa_Fqdn = []\<rparr>, ic_Destination = \<lparr>sa_Addr = None, sa_Port = 443, sa_Fqdn = []\<rparr>,
      ic_User = [], ic_Outbound = [], ic_Protocol = [], ic_Domain = [], ic_Client = [], ic_InboundDetour = [], ic_LastInbound = [],
      ic_OriginDestination = \<lparr>sa_Addr = None, sa_Port = 0, sa_Fqdn = []\<rparr>,
      ic_RouteOriginalDestination = \<lparr>sa_Addr = None, sa_Port = 0, sa_Fqdn = []\<rparr>, ic_InboundOptions = no_inbound_options,
      ic_UDPDisableDomainUnmapping = False, ic_UDPConnect = False, ic_UDPTimeout = 0, ic_TLSFragment = False,
      ic_TLSFragmentFallbackDelay = 0, ic_TLSRecordFragment = False, ic_NetworkStrategy = None, ic_NetworkType = [],
      ic_FallbackNetworkType = [], ic_FallbackDelay = 0, ic_DestinationAddresses = [], ic_ProcessInfo = None, ic_QueryType = 0,
      ic_FakeIP = False, ic_IPCIDRMatchSource = False, ic_IPCIDRAcceptEmpty = False, ic_SourceAddressMatch = False,
      ic_SourcePortMatch = False, ic_DestinationAddressMatch = False, ic_DestinationPortMatch = False, ic_DidMatch = False,
      ic_IgnoreDestinationIPCIDRMatch = False\<rparr>"

theorem rule_set_rules_leak_witness:
  "\<forall>l nw nm. \<exists>r1 r2. NewHeadlessRules l nw [HeadlessDefault (port_pair 1 80), HeadlessDefault (port_pair 2 443)] = Inr [r1, r2] \<and>
    \<not> fst (headless_Match l nm r1 (ResetRuleCache sample_connection)) \<and> \<not> fst (headless_Match l nm r2 (ResetRuleCache sample_connection)) \<and>
    fst (LocalRuleSet_Match l nm [r1, r2] (ResetRuleCache sample_connection))"
  by (intro allI rule_set_rules_leak) (simp_all add: sample_connection_def)

text \<open>A rule of a rule set that asks only for query types is accepted, and it matches every
  connection, inverted or not: the constructor has no step for this option.\<close>

theorem query_type_ignored:
  "\<exists>r. NewHeadlessRule l nw (HeadlessDefault (no_headless\<lparr>hr_QueryType := q # qs, hr_Invert := invert\<rparr>)) = Inr r \<and>
    fst (headless_Match l nm r md)"
proof -
  let ?o = "no_headless\<lparr>hr_QueryType := q # qs, hr_Invert := invert\<rparr>"
  have "headless_IsValid ?o" by (simp add: headless_IsValid_def no_headless_def)
  moreover have "NewDefaultHeadlessRule l nw ?o = Inr (empty_rule invert None)"
    by (simp add: NewDefaultHeadlessRule_def headless_steps_def opt_def no_headless_def)
  ultimately show ?thesis by (simp add: headless_Match_def default_Match_def empty_rule_def)
qed

text \<open>The UDP timeout of a route action is lost when the action is built.\<close>

theorem route_timeout_lost:
  "NewRuleAction l (no_action\<lparr>oa_Action := ''route'', oa_RouteOptions := ro\<rparr>) =
     Inr (Some (RuleActionRoute [] (route_action_options l ro))) \<and> ro_UDPTimeout (route_action_options l ro) = 0"
  by (simp add: NewRuleAction_def no_action_def route_action_options_def)

end
