(* ===== verification/Outbound_Manager.thy ===== *)
theory Outbound_Manager
  imports Go_Strings
begin

text \<open>
  The manager of the outbounds of the embedded proxy (\<^verbatim>\<open>adapter/outbound/manager.go\<close> of the
  fork): creation, replacement, removal, the default outbound, and starting the outbounds
  in an order that respects their dependencies. What an outbound does when it is created,
  started or closed is an argument; an outbound is known by an identity, its tag and the
  tags it depends on. Endpoints, which are managed elsewhere, are a list of outbounds.
\<close>

section \<open>State\<close>

record Outbound =
  o_id :: nat
  o_tag :: string
  o_Dependencies :: "string list"

record Manager =
  om_defaultTag :: string
  om_started :: bool
  om_stage :: nat
  om_outbounds :: "Outbound list"
  om_outboundByTag :: "(string, Outbound) gomap"
  om_dependByTag :: "(string, string list) gomap"
  om_defaultOutbound :: "Outbound option"

datatype om_error =
    ErrInvalid
  | DefaultNotFound string
  | FallbackFailed
  | CreateFailed
  | StartFailed string
  | CloseFailed string
  | CircularDependency "string list" string
  | DependencyNotFound string string
  | DependedBy string "string list"
  | Panic

definition NewManager :: "string \<Rightarrow> Manager" where
  "NewManager defaultTag =
     \<lparr>om_defaultTag = defaultTag, om_started = False, om_stage = 0, om_outbounds = [], om_outboundByTag = [], om_dependByTag = [],
      om_defaultOutbound = None\<rparr>"

section \<open>Starting in order\<close>

text \<open>One round over the outbounds. An outbound whose dependencies are all started is started;
  the log is the order in which that happened. The flag of the code that tells whether a
  round made progress is whether the log has grown.\<close>

fun start_pass ::
  "(Outbound \<Rightarrow> bool) \<Rightarrow> Outbound list \<Rightarrow> Outbound list \<Rightarrow> om_error + Outbound list" where
  "start_pass start [] lg = Inr lg"
| "start_pass start (x # xs) lg =
     (if o_tag x \<in> o_tag ` set lg then start_pass start xs lg
      else if \<exists>d \<in> set (o_Dependencies x). d \<notin> o_tag ` set lg then start_pass start xs lg
      else if \<not> start x then Inl (StartFailed (o_tag x))
      else start_pass start xs (lg @ [x]))"

definition unmet :: "Outbound list \<Rightarrow> Outbound \<Rightarrow> string" where
  "unmet lg x = (case find (\<lambda>d. d \<notin> o_tag ` set lg) (o_Dependencies x) of None \<Rightarrow> [] | Some d \<Rightarrow> d)"

text \<open>The search for the reason when a round made no progress.\<close>

function lintOutbound :: "(string, Outbound) gomap \<Rightarrow> Outbound list \<Rightarrow> string list \<Rightarrow> Outbound \<Rightarrow> om_error" where
  "lintOutbound byTag lg oTree x =
     (let p = unmet lg x in
      if p \<in> set oTree then CircularDependency oTree p
      else case mget byTag p of
        None \<Rightarrow> DependencyNotFound p (o_tag x)
      | Some y \<Rightarrow> lintOutbound byTag lg (oTree @ [p]) y)"
  by pat_completeness auto
termination
proof (relation "measure (\<lambda>(byTag, lg, oTree, x). card (mkeys byTag - set oTree))", simp)
  fix byTag :: "(string, Outbound) gomap" and lg oTree x p y
  assume "p = unmet lg x" and new: "p \<notin> set oTree" and known: "mget byTag p = Some y"
  have "p \<in> mkeys byTag" using known by (simp add: mhas_def flip: mhas_iff)
  then have "mkeys byTag - set (oTree @ [p]) \<subset> mkeys byTag - set oTree" using new by auto
  then have "card (mkeys byTag - set (oTree @ [p])) < card (mkeys byTag - set oTree)" by (intro psubset_card_mono) auto
  then show "((byTag, lg, oTree @ [p], y), byTag, lg, oTree, x)
      \<in> measure (\<lambda>(byTag, lg, oTree, x). card (mkeys byTag - set oTree))" by simp
qed

declare lintOutbound.simps [simp del]

lemma start_pass_extends:
  "start_pass start xs lg = Inr lg' \<Longrightarrow>
     \<exists>new. lg' = lg @ new \<and> set new \<subseteq> set xs \<and> distinct (map o_tag new) \<and> o_tag ` set new \<inter> o_tag ` set lg = {} \<and>
       (\<forall>x \<in> set new. start x)"
proof (induction xs arbitrary: lg)
  case (Cons x xs)
  show ?case
  proof (cases "o_tag x \<in> o_tag ` set lg \<or> (\<exists>d \<in> set (o_Dependencies x). d \<notin> o_tag ` set lg)")
    case True
    then have "start_pass start xs lg = Inr lg'" using Cons.prems by (auto split: if_splits)
    from Cons.IH [OF this] obtain new where "lg' = lg @ new" "set new \<subseteq> set xs" "distinct (map o_tag new)"
      "o_tag ` set new \<inter> o_tag ` set lg = {}" "\<forall>y \<in> set new. start y" by blast
    then show ?thesis by (intro exI [of _ new]) auto
  next
    case False
    then have s: "start x" and r: "start_pass start xs (lg @ [x]) = Inr lg'" using Cons.prems by (auto split: if_splits)
    from Cons.IH [OF r] obtain new where new: "lg' = (lg @ [x]) @ new" "set new \<subseteq> set xs" "distinct (map o_tag new)"
      "o_tag ` set new \<inter> o_tag ` set (lg @ [x]) = {}" "\<forall>y \<in> set new. start y" by blast
    then show ?thesis using False s by (intro exI [of _ "x # new"]) auto
  qed
qed simp

function start_rounds ::
  "(Outbound \<Rightarrow> bool) \<Rightarrow> (string, Outbound) gomap \<Rightarrow> Outbound list \<Rightarrow> Outbound list \<Rightarrow> om_error + Outbound list" where
  "start_rounds start byTag obs lg =
     (case start_pass start obs lg of
        Inl e \<Rightarrow> Inl e
      | Inr lg' \<Rightarrow>
          if length lg' = length obs then Inr lg'
          else if length lg < length lg' then start_rounds start byTag obs lg'
          else (case find (\<lambda>x. o_tag x \<notin> o_tag ` set lg') obs of
                  None \<Rightarrow> Inl Panic
                | Some x \<Rightarrow> Inl (lintOutbound byTag lg' [o_tag x] x)))"
  by pat_completeness auto
termination
proof (relation "measure (\<lambda>(start, byTag, obs, lg). card (o_tag ` set obs - o_tag ` set lg))", simp)
  fix start :: "Outbound \<Rightarrow> bool" and byTag :: "(string, Outbound) gomap" and obs lg lg' :: "Outbound list"
  assume p: "start_pass start obs lg = Inr lg'" and grew: "length lg < length lg'"
  obtain new where new: "lg' = lg @ new" "set new \<subseteq> set obs" "o_tag ` set new \<inter> o_tag ` set lg = {}"
    using start_pass_extends [OF p] by blast
  have "new \<noteq> []" using grew new(1) by auto
  then obtain x where "x \<in> set new" by (cases new) auto
  then have "o_tag x \<in> o_tag ` set obs - o_tag ` set lg" "o_tag x \<notin> o_tag ` set obs - o_tag ` set lg'"
    "o_tag ` set obs - o_tag ` set lg' \<subseteq> o_tag ` set obs - o_tag ` set lg" using new by auto
  then have "o_tag ` set obs - o_tag ` set lg' \<subset> o_tag ` set obs - o_tag ` set lg" by blast
  then have "card (o_tag ` set obs - o_tag ` set lg') < card (o_tag ` set obs - o_tag ` set lg)" by (intro psubset_card_mono) auto
  then show "((start, byTag, obs, lg'), start, byTag, obs, lg)
      \<in> measure (\<lambda>(start, byTag, obs, lg). card (o_tag ` set obs - o_tag ` set lg))" by simp
qed

declare start_rounds.simps [simp del]

definition startOutbounds ::
  "(Outbound \<Rightarrow> bool) \<Rightarrow> (string, Outbound) gomap \<Rightarrow> Outbound list \<Rightarrow> om_error + Outbound list" where
  "startOutbounds start byTag obs = start_rounds start byTag obs []"

section \<open>Changing the set of outbounds\<close>

text \<open>Removing the first occurrence of an object, by identity; the code panics when it is not
  there.\<close>

fun remove_first :: "nat \<Rightarrow> Outbound list \<Rightarrow> Outbound list option" where
  "remove_first i [] = None"
| "remove_first i (x # xs) = (if o_id x = i then Some xs else map_option (Cons x) (remove_first i xs))"

definition Outbound_get :: "(string, Outbound) gomap \<Rightarrow> string \<Rightarrow> Manager \<Rightarrow> Outbound option" where
  "Outbound_get endpoints tag m =
     (case mget (om_outboundByTag m) tag of Some x \<Rightarrow> Some x | None \<Rightarrow> mget endpoints tag)"

definition Default :: "Manager \<Rightarrow> Outbound option" where
  "Default m = om_defaultOutbound m"

definition drop_depend :: "string \<Rightarrow> string \<Rightarrow> (string, string list) gomap \<Rightarrow> (string, string list) gomap" where
  "drop_depend tag d m =
     (if length (mget0 [] m d) = 1 then mdel d m else mput d (filter (\<lambda>t. t \<noteq> tag) (mget0 [] m d)) m)"

definition Remove :: "(Outbound \<Rightarrow> bool) \<Rightarrow> string \<Rightarrow> Manager \<Rightarrow> Manager \<times> om_error option" where
  "Remove close_ok tag m =
     (case mget (om_outboundByTag m) tag of
        None \<Rightarrow> (m, Some ErrInvalid)
      | Some x \<Rightarrow>
          let m1 = m\<lparr>om_outboundByTag := mdel tag (om_outboundByTag m)\<rparr> in
          (case remove_first (o_id x) (om_outbounds m) of
             None \<Rightarrow> (m1, Some Panic)
           | Some rest \<Rightarrow>
               let m2 = m1\<lparr>om_outbounds := rest,
                           om_defaultOutbound := (if map_option o_id (om_defaultOutbound m) = Some (o_id x)
                             then (case rest of [] \<Rightarrow> None | y # _ \<Rightarrow> Some y) else om_defaultOutbound m)\<rparr>;
                   dependBy = mget0 [] (om_dependByTag m) tag
               in if dependBy \<noteq> [] then (m2, Some (DependedBy tag dependBy))
                  else let m3 = m2\<lparr>om_dependByTag := fold (drop_depend tag) (o_Dependencies x) (om_dependByTag m)\<rparr>
                       in (m3, if om_started m \<and> \<not> close_ok x then Some (CloseFailed tag) else None)))"

definition add_depend :: "string \<Rightarrow> string \<Rightarrow> (string, string list) gomap \<Rightarrow> (string, string list) gomap" where
  "add_depend tag d m = mput d (mget0 [] m d @ [tag]) m"

text \<open>The last steps of \<open>Create\<close>, with the outbounds that stay.\<close>

definition install :: "string \<Rightarrow> Outbound \<Rightarrow> Outbound list \<Rightarrow> Manager \<Rightarrow> Manager" where
  "install tag x rest m =
     m\<lparr>om_outbounds := rest @ [x], om_outboundByTag := mput tag x (om_outboundByTag m),
       om_dependByTag := fold (add_depend tag) (o_Dependencies x) (om_dependByTag m),
       om_defaultOutbound := (if tag = om_defaultTag m \<or> (om_defaultTag m = [] \<and> om_defaultOutbound m = None)
         then Some x else om_defaultOutbound m)\<rparr>"

text \<open>The stages in which a started manager starts a new outbound.\<close>

definition ListStartStages :: "nat list" where "ListStartStages = [0, 1, 2, 3]"

definition Create ::
  "(string \<Rightarrow> Outbound option) \<Rightarrow> (nat \<Rightarrow> Outbound \<Rightarrow> bool) \<Rightarrow> (Outbound \<Rightarrow> bool) \<Rightarrow> string \<Rightarrow> Manager \<Rightarrow> Manager \<times> om_error option" where
  "Create registry start close_ok tag m =
     (if tag = [] then (m, Some ErrInvalid)
      else case registry tag of
        None \<Rightarrow> (m, Some CreateFailed)
      | Some x \<Rightarrow>
          if om_started m \<and> \<not> list_all (\<lambda>stage. start stage x) ListStartStages then (m, Some (StartFailed (o_tag x)))
          else (case mget (om_outboundByTag m) tag of
                  None \<Rightarrow> (install tag x (om_outbounds m) m, None)
                | Some old \<Rightarrow>
                    if om_started m \<and> \<not> close_ok old then (m, Some (CloseFailed (o_tag old)))
                    else (case remove_first (o_id old) (om_outbounds m) of
                            None \<Rightarrow> (m, Some Panic)
                          | Some rest \<Rightarrow> (install tag x rest m, None))))"

definition Close_manager :: "Manager \<Rightarrow> Manager" where
  "Close_manager m = (if om_started m then m\<lparr>om_started := False, om_outbounds := []\<rparr> else m)"

text \<open>\<open>Start\<close> of a stage. In the stage that starts outbounds the default outbound is settled
  first: an endpoint with the wanted tag, or a direct outbound when none is wanted.\<close>

definition settle_default :: "(string, Outbound) gomap \<Rightarrow> Outbound option \<Rightarrow> Manager \<Rightarrow> om_error + Manager" where
  "settle_default endpoints fallback m =
     (case om_defaultOutbound m of
        Some _ \<Rightarrow> Inr m
      | None \<Rightarrow>
          if om_defaultTag m \<noteq> [] then
            (case mget endpoints (om_defaultTag m) of
               None \<Rightarrow> Inl (DefaultNotFound (om_defaultTag m))
             | Some e \<Rightarrow> Inr (m\<lparr>om_defaultOutbound := Some e\<rparr>))
          else
            (case fallback of
               None \<Rightarrow> Inl FallbackFailed
             | Some d \<Rightarrow> Inr (m\<lparr>om_outbounds := om_outbounds m @ [d], om_outboundByTag := mput (o_tag d) d (om_outboundByTag m),
                               om_defaultOutbound := Some d\<rparr>)))"

definition StartStateStart :: nat where "StartStateStart = 1"

definition Start_manager ::
  "(nat \<Rightarrow> Outbound \<Rightarrow> bool) \<Rightarrow> (string, Outbound) gomap \<Rightarrow> Outbound option \<Rightarrow> nat \<Rightarrow> Manager \<Rightarrow> Manager \<times> om_error option" where
  "Start_manager start endpoints fallback stage m =
     (if om_started m \<and> stage \<le> om_stage m then (m, Some Panic)
      else let m1 = m\<lparr>om_started := True, om_stage := stage\<rparr> in
        if stage = StartStateStart then
          (case settle_default endpoints fallback m1 of
             Inl e \<Rightarrow> (m1, Some e)
           | Inr m2 \<Rightarrow>
               (m2, case startOutbounds (start stage) (om_outboundByTag m2) (om_outbounds m2 @ map snd endpoints) of
                      Inl e \<Rightarrow> Some e | Inr _ \<Rightarrow> None))
        else (m1, map_option (\<lambda>x. StartFailed (o_tag x)) (find (\<lambda>x. \<not> start stage x) (om_outbounds m1))))"

section \<open>The order of starting\<close>

text \<open>Every outbound of a list comes after all it depends on, and no tag occurs twice.\<close>

fun in_order :: "string set \<Rightarrow> Outbound list \<Rightarrow> bool" where
  "in_order S [] = True"
| "in_order S (x # xs) = (set (o_Dependencies x) \<subseteq> S \<and> o_tag x \<notin> S \<and> in_order (insert (o_tag x) S) xs)"

lemma in_order_snoc:
  "in_order S (xs @ [x]) \<longleftrightarrow>
     in_order S xs \<and> set (o_Dependencies x) \<subseteq> S \<union> o_tag ` set xs \<and> o_tag x \<notin> S \<union> o_tag ` set xs"
  by (induction xs arbitrary: S) auto

lemma in_order_distinct: "in_order S xs \<Longrightarrow> distinct (map o_tag xs) \<and> S \<inter> o_tag ` set xs = {}"
  by (induction xs arbitrary: S) auto

lemma start_pass_order: "start_pass start xs lg = Inr lg' \<Longrightarrow> in_order {} lg \<Longrightarrow> in_order {} lg'"
proof (induction xs arbitrary: lg)
  case (Cons x xs)
  show ?case
  proof (cases "o_tag x \<in> o_tag ` set lg \<or> (\<exists>d \<in> set (o_Dependencies x). d \<notin> o_tag ` set lg)")
    case True
    then show ?thesis using Cons by (auto split: if_splits)
  next
    case False
    then have "start_pass start xs (lg @ [x]) = Inr lg'" using Cons.prems(1) by (auto split: if_splits)
    moreover have "in_order {} (lg @ [x])" using False Cons.prems(2) by (auto simp: in_order_snoc)
    ultimately show ?thesis by (rule Cons.IH)
  qed
qed simp

lemma start_pass_stuck:
  "start_pass start xs lg = Inr lg \<Longrightarrow> x \<in> set xs \<Longrightarrow>
     o_tag x \<in> o_tag ` set lg \<or> (\<exists>d \<in> set (o_Dependencies x). d \<notin> o_tag ` set lg)"
proof (induction xs)
  case (Cons y xs)
  show ?case
  proof (cases "o_tag y \<in> o_tag ` set lg \<or> (\<exists>d \<in> set (o_Dependencies y). d \<notin> o_tag ` set lg)")
    case True
    then show ?thesis using Cons by (auto split: if_splits)
  next
    case False
    then have "start_pass start xs (lg @ [y]) = Inr lg" using Cons.prems(1) by (auto split: if_splits)
    from start_pass_extends [OF this] show ?thesis by auto
  qed
qed simp

lemma start_pass_ok: "\<forall>x \<in> set xs. start x \<Longrightarrow> \<exists>lg'. start_pass start xs lg = Inr lg'"
  by (induction xs arbitrary: lg) auto

lemma start_rounds_order:
  "start_rounds start byTag obs lg = Inr lg' \<Longrightarrow> in_order {} lg \<Longrightarrow> set lg \<subseteq> set obs \<Longrightarrow>
     in_order {} lg' \<and> set lg' \<subseteq> set obs \<and> length lg' = length obs"
proof (induction start byTag obs lg rule: start_rounds.induct)
  case (1 start byTag obs lg)
  from "1.prems"(1) obtain l1 where l1: "start_pass start obs lg = Inr l1"
    by (subst (asm) start_rounds.simps) (auto split: sum.splits)
  have o1: "in_order {} l1" using start_pass_order [OF l1 "1.prems"(2)] .
  have s1: "set l1 \<subseteq> set obs" using start_pass_extends [OF l1] "1.prems"(3) by auto
  show ?case
  proof (cases "length l1 = length obs")
    case True
    then show ?thesis using "1.prems"(1) l1 o1 s1 by (subst (asm) start_rounds.simps) simp
  next
    case False
    then have "length lg < length l1 \<and> start_rounds start byTag obs l1 = Inr lg'"
      using "1.prems"(1) l1 by (subst (asm) start_rounds.simps) (auto split: if_splits option.splits)
    then show ?thesis using "1.IH" [OF l1 False _ _ o1 s1] by blast
  qed
qed

lemma all_started:
  assumes "in_order {} lg" and "set lg \<subseteq> set obs" and "length lg = length obs"
  shows "distinct (map o_tag obs)" "set lg = set obs"
proof -
  have d: "distinct (map o_tag lg)" using in_order_distinct [OF assms(1)] by simp
  then have "length obs = card (o_tag ` set lg)" using assms(3) by (metis distinct_card length_map set_map)
  also have "\<dots> \<le> card (o_tag ` set obs)" using assms(2) by (intro card_mono) auto
  finally have "length (map o_tag obs) \<le> card (set (map o_tag obs))" by simp
  then show obs: "distinct (map o_tag obs)" using card_length [of "map o_tag obs"] by (intro card_distinct) simp
  have "card (set lg) = length lg" using d by (simp add: distinct_card distinct_map)
  moreover have "card (set obs) = length obs" using obs by (simp add: distinct_card distinct_map)
  ultimately show "set lg = set obs" using assms(2,3) by (intro card_subset_eq) auto
qed

text \<open>Dependencies that can be satisfied: each names an outbound of a lower rank.\<close>

definition satisfiable :: "Outbound list \<Rightarrow> (Outbound \<Rightarrow> nat) \<Rightarrow> bool" where
  "satisfiable obs rank \<longleftrightarrow> (\<forall>x \<in> set obs. \<forall>d \<in> set (o_Dependencies x). \<exists>y \<in> set obs. o_tag y = d \<and> rank y < rank x)"

lemma in_order_rank: "in_order {} lg \<Longrightarrow> \<exists>rank. satisfiable lg rank"
proof (induction lg rule: rev_induct)
  case Nil
  then show ?case by (simp add: satisfiable_def)
next
  case (snoc x xs)
  have o: "in_order {} xs" "set (o_Dependencies x) \<subseteq> o_tag ` set xs" "o_tag x \<notin> o_tag ` set xs"
    using snoc.prems by (auto simp: in_order_snoc)
  then obtain rank where r: "satisfiable xs rank" using snoc.IH by blast
  define rank' where "rank' = rank(x := Suc (sum_list (map rank xs)))"
  have x: "y \<noteq> x" if "y \<in> set xs" for y using that o(3) by auto
  have less: "rank y < Suc (sum_list (map rank xs))" if "y \<in> set xs" for y
    using that member_le_sum_list [of "rank y" "map rank xs"] by (auto simp: less_Suc_eq_le)
  have "satisfiable (xs @ [x]) rank'"
    unfolding satisfiable_def
  proof (intro ballI)
    fix z d assume z: "z \<in> set (xs @ [x])" "d \<in> set (o_Dependencies z)"
    show "\<exists>y \<in> set (xs @ [x]). o_tag y = d \<and> rank' y < rank' z"
    proof (cases "z = x")
      case True
      then obtain y where "y \<in> set xs" "o_tag y = d" using o(2) z(2) by auto
      then show ?thesis using less x True by (auto simp: rank'_def intro!: bexI [of _ y])
    next
      case False
      then obtain y where "y \<in> set xs" "o_tag y = d" "rank y < rank z" using r z by (auto simp: satisfiable_def)
      then show ?thesis using x False by (auto simp: rank'_def intro!: bexI [of _ y])
    qed
  qed
  then show ?case by blast
qed

lemma stuck_means_done:
  assumes "start_pass start obs lg = Inr lg" and "satisfiable obs rank" and "x \<in> set obs"
  shows "o_tag x \<in> o_tag ` set lg"
  using assms(3)
proof (induction "rank x" arbitrary: x rule: less_induct)
  case less
  show ?case
  proof (rule ccontr)
    assume "o_tag x \<notin> o_tag ` set lg"
    then obtain d where d: "d \<in> set (o_Dependencies x)" "d \<notin> o_tag ` set lg"
      using start_pass_stuck [OF assms(1) less.prems] by blast
    then obtain y where "y \<in> set obs" "o_tag y = d" "rank y < rank x" using assms(2) less.prems unfolding satisfiable_def by blast
    then show False using less.hyps d(2) by blast
  qed
qed

lemma start_rounds_complete:
  assumes "\<forall>x \<in> set obs. start x" and "distinct (map o_tag obs)" and "satisfiable obs rank"
    and "in_order {} lg" and "set lg \<subseteq> set obs"
  shows "\<exists>lg'. start_rounds start byTag obs lg = Inr lg'"
  using assms
proof (induction start byTag obs lg rule: start_rounds.induct)
  case (1 start byTag obs lg)
  obtain l1 where l1: "start_pass start obs lg = Inr l1" using start_pass_ok [OF "1.prems"(1)] by blast
  have o1: "in_order {} l1" using start_pass_order [OF l1 "1.prems"(4)] .
  obtain new where new: "l1 = lg @ new" "set new \<subseteq> set obs" using start_pass_extends [OF l1] by blast
  then have s1: "set l1 \<subseteq> set obs" using "1.prems"(5) by auto
  consider "length l1 = length obs" | "length l1 \<noteq> length obs" "length lg < length l1" | "length l1 \<noteq> length obs" "l1 = lg"
    using new(1) by fastforce
  then show ?case
  proof cases
    case 1
    then show ?thesis using l1 by (subst start_rounds.simps) simp
  next
    case 2
    from "1.IH" [OF l1 2 "1.prems"(1-3) o1 s1] show ?thesis using l1 2 by (subst start_rounds.simps) simp
  next
    case 3
    then have "o_tag ` set obs \<subseteq> o_tag ` set l1" using stuck_means_done [OF _ "1.prems"(3)] l1 by blast
    then have "card (o_tag ` set obs) = card (o_tag ` set l1)" using s1 by (metis image_mono subset_antisym)
    moreover have "card (o_tag ` set obs) = length obs" "card (o_tag ` set l1) = length l1"
      using "1.prems"(2) in_order_distinct [OF o1] by (metis distinct_card length_map set_map)+
    ultimately show ?thesis using 3 by simp
  qed
qed

section \<open>The list and the map agree\<close>

definition registered :: "Outbound list \<Rightarrow> (string, Outbound) gomap \<Rightarrow> bool" where
  "registered xs byTag \<longleftrightarrow> distinct (map o_id xs) \<and> (\<forall>t x. mget byTag t = Some x \<longleftrightarrow> x \<in> set xs \<and> o_tag x = t)"

lemma remove_first_Some:
  "x \<in> set xs \<Longrightarrow> distinct (map o_id xs) \<Longrightarrow>
     \<exists>rest. remove_first (o_id x) xs = Some rest \<and> set rest = set xs - {x} \<and> distinct (map o_id rest)"
proof (induction xs)
  case (Cons y xs)
  show ?case
  proof (cases "y = x")
    case True
    then show ?thesis using Cons.prems by force
  next
    case False
    then have "x \<in> set xs" "o_id y \<noteq> o_id x" using Cons.prems by (auto simp: image_iff)
    moreover obtain rest where "remove_first (o_id x) xs = Some rest" "set rest = set xs - {x}" "distinct (map o_id rest)"
      using Cons \<open>x \<in> set xs\<close> by auto
    ultimately show ?thesis using Cons.prems False by auto
  qed
qed simp

lemma registered_remove:
  assumes "registered xs byTag" and "mget byTag tag = Some x"
  shows "\<exists>rest. remove_first (o_id x) xs = Some rest \<and> registered rest (mdel tag byTag)"
proof -
  have x: "x \<in> set xs" "o_tag x = tag" and d: "distinct (map o_id xs)" using assms by (auto simp: registered_def)
  obtain rest where r: "remove_first (o_id x) xs = Some rest" "set rest = set xs - {x}" "distinct (map o_id rest)"
    using remove_first_Some [OF x(1) d] by blast
  have "mget (mdel tag byTag) t = Some y \<longleftrightarrow> y \<in> set rest \<and> o_tag y = t" for t y
  proof (cases "t = tag")
    case True
    have "y = x" if "y \<in> set xs" "o_tag y = tag" using that assms by (simp add: registered_def) (metis option.inject)
    then show ?thesis using True r(2) by auto
  next
    case False
    then show ?thesis using r(2) x(2) assms(1) by (auto simp: registered_def)
  qed
  then show ?thesis using r by (auto simp: registered_def)
qed

lemma registered_install:
  assumes "registered xs byTag" and "o_tag x = tag" and "mget byTag tag = None" and "o_id x \<notin> o_id ` set xs"
  shows "registered (xs @ [x]) (mput tag x byTag)"
proof -
  have new: "y \<notin> set xs" if "o_tag y = tag" for y
    using assms(1,3) that unfolding registered_def by (metis option.distinct(1))
  have "mget (mput tag x byTag) t = Some y \<longleftrightarrow> y \<in> set (xs @ [x]) \<and> o_tag y = t" for t y
    using assms(1,2) new by (cases "t = tag") (auto simp: registered_def)
  then show ?thesis using assms(1,4) by (simp add: registered_def)
qed

definition manager_ok :: "Manager \<Rightarrow> bool" where
  "manager_ok m \<longleftrightarrow> registered (om_outbounds m) (om_outboundByTag m)"

lemma NewManager_ok: "manager_ok (NewManager tag)"
  by (simp add: manager_ok_def registered_def NewManager_def)

lemma Remove_ok:
  assumes "manager_ok m"
  shows "manager_ok (fst (Remove close_ok tag m)) \<and> snd (Remove close_ok tag m) \<noteq> Some Panic"
proof (cases "mget (om_outboundByTag m) tag")
  case (Some x)
  obtain rest where "remove_first (o_id x) (om_outbounds m) = Some rest" "registered rest (mdel tag (om_outboundByTag m))"
    using registered_remove [OF _ Some] assms by (auto simp: manager_ok_def)
  then show ?thesis using Some by (simp add: Remove_def Let_def manager_ok_def)
qed (use assms in \<open>simp add: Remove_def\<close>)

lemma Create_ok:
  assumes "manager_ok m" and "\<And>x. registry tag = Some x \<Longrightarrow> o_tag x = tag \<and> o_id x \<notin> o_id ` set (om_outbounds m)"
  shows "manager_ok (fst (Create registry start close_ok tag m)) \<and> snd (Create registry start close_ok tag m) \<noteq> Some Panic"
proof (cases "registry tag")
  case None
  then show ?thesis using assms(1) by (simp add: Create_def)
next
  case (Some x)
  note x = assms(2) [OF Some]
  show ?thesis
  proof (cases "mget (om_outboundByTag m) tag")
    case None
    then show ?thesis
      using Some x assms(1) registered_install [of "om_outbounds m" "om_outboundByTag m" x tag]
      by (simp add: Create_def install_def manager_ok_def)
  next
    case old: (Some y)
    then obtain rest where r: "remove_first (o_id y) (om_outbounds m) = Some rest" "registered rest (mdel tag (om_outboundByTag m))"
      using registered_remove [OF _ old] assms(1) by (auto simp: manager_ok_def)
    have "set rest \<subseteq> set (om_outbounds m)"
    proof -
      have "y \<in> set (om_outbounds m)" "distinct (map o_id (om_outbounds m))"
        using old assms(1) by (auto simp: manager_ok_def registered_def)
      from remove_first_Some [OF this] r(1) show ?thesis by auto
    qed
    then have "o_id x \<notin> o_id ` set rest" using x by auto
    then have "registered (rest @ [x]) (mput tag x (mdel tag (om_outboundByTag m)))"
      using registered_install [OF r(2), of x tag] x by simp
    moreover have "mget (mput tag x (mdel tag (om_outboundByTag m))) t = mget (mput tag x (om_outboundByTag m)) t" for t by simp
    ultimately have "registered (rest @ [x]) (mput tag x (om_outboundByTag m))" unfolding registered_def by auto
    then show ?thesis using Some old r(1) assms(1) by (simp add: Create_def install_def manager_ok_def)
  qed
qed

section \<open>Properties\<close>

text \<open>
  C37: Outbounds are started exactly when their dependencies can be met, and in order. When no
  outbound fails to start, the search ends with success exactly if no two outbounds share
  a tag and every dependency names an outbound of lower rank for some ranking, that is,
  no dependency is missing and none is circular; and then every outbound was started once
  and after all the outbounds it depends on.
\<close>

theorem start_order:
  assumes "\<forall>x \<in> set obs. start x"
  shows "((\<exists>lg. startOutbounds start byTag obs = Inr lg) \<longleftrightarrow> distinct (map o_tag obs) \<and> (\<exists>rank. satisfiable obs rank)) \<and>
    (case startOutbounds start byTag obs of Inl e \<Rightarrow> True | Inr lg \<Rightarrow> in_order {} lg \<and> set lg = set obs)"
proof -
  have sound: "in_order {} lg \<and> set lg = set obs \<and> distinct (map o_tag obs)" if "startOutbounds start byTag obs = Inr lg" for lg
    using start_rounds_order [of start byTag obs "[]" lg] that all_started [of lg obs] by (simp add: startOutbounds_def)
  then have rank: "\<exists>rank. satisfiable obs rank" if "startOutbounds start byTag obs = Inr lg" for lg
    using in_order_rank [of lg] that by (fastforce simp: satisfiable_def)
  have "\<exists>lg. startOutbounds start byTag obs = Inr lg" if "distinct (map o_tag obs)" "satisfiable obs rank" for rank
    using start_rounds_complete [OF assms that, of "[]" byTag] by (simp add: startOutbounds_def)
  then show ?thesis using sound rank by (auto split: sum.split)
qed

definition chained :: "Outbound list" where
  "chained = [\<lparr>o_id = 0, o_tag = ''a'', o_Dependencies = [''b'']\<rparr>, \<lparr>o_id = 1, o_tag = ''b'', o_Dependencies = []\<rparr>]"

theorem start_order_witness:
  "\<exists>lg. startOutbounds (\<lambda>x. True) [] chained = Inr lg \<and> in_order {} lg \<and> set lg = set chained"
proof -
  have "distinct (map o_tag chained)" "satisfiable chained (\<lambda>x. 1 - o_id x)" by (simp_all add: chained_def satisfiable_def)
  moreover have "\<forall>x \<in> set chained. (\<lambda>x. True) x" by simp
  ultimately show ?thesis using start_order [of chained "\<lambda>x. True" "[]"] by (auto split: sum.splits)
qed

text \<open>
  Removing an outbound that others depend on reports an error and removes it all the same.
  After the refused call the outbound is in neither the list nor the map, so the outbounds
  that depend on it have lost it although the manager said no.
\<close>

theorem refused_removal_removes:
  assumes "mget (om_outboundByTag m) tag = Some x" and "remove_first (o_id x) (om_outbounds m) = Some rest"
    and "mget0 [] (om_dependByTag m) tag = t # ts"
  shows "\<exists>m'. Remove close_ok tag m = (m', Some (DependedBy tag (t # ts))) \<and> mget (om_outboundByTag m') tag = None \<and> om_outbounds m' = rest"
  using assms by (simp add: Remove_def Let_def)

theorem refused_removal_removes_witness:
  "\<exists>m'. Remove (\<lambda>x. True) ''b'' (install ''a'' (chained ! 0) [chained ! 1] (install ''b'' (chained ! 1) [] (NewManager []))) =
      (m', Some (DependedBy ''b'' [''a''])) \<and> mget (om_outboundByTag m') ''b'' = None \<and> om_outbounds m' = [chained ! 0]"
  by (rule refused_removal_removes [where x = "chained ! 1"])
    (simp_all add: install_def NewManager_def chained_def add_depend_def mget0_def)



end
