(* ===== verification/Router.thy ===== *)
theory Router
  imports Rule_Builder Outbound_Manager Xboard_Config
begin

text \<open>
  The router of the embedded proxy (\<^verbatim>\<open>route/route.go\<close>): the loop over the rules, what a matching
  rule does to the connection, and the outbound a connection is handed to. The properties
  at the end put it together with the configuration the agent generates for a topology.

  Sniffing, name resolution, the fake address store, the process searcher and the wrappers
  of connections are fields of the record \<open>router\<close>. The type of connections and that of
  the buffers a sniffer has read are parameters.
\<close>

section \<open>State\<close>

datatype route_error =
    MissingFakeIP
  | SniffFailed string
  | ResolveFailed string
  | RoutingLoop string
  | DetourNotFound string
  | DetourNotInjectable string
  | LegacyDestination string
  | OutboundMissing string
  | NetworkNotSupported string string
  | ReplyNotSupported
  | NilAction
  | NilOutbound

record ('c, 'b) router =
  rt_lib :: lib
  rt_net :: net_state
  rt_rules :: "item rule list"
  rt_outbound :: Manager
  rt_endpoint :: "(string, Outbound) gomap"
  rt_Network :: "Outbound \<Rightarrow> string list"
  rt_processSearcher :: "(string \<Rightarrow> Socksaddr \<Rightarrow> Socksaddr option \<Rightarrow> ProcessInfo option) option"
  rt_fakeIP :: "((Addr \<Rightarrow> bool) \<times> (Addr \<Rightarrow> string option)) option"
  rt_LookupReverseMapping :: "Addr option \<Rightarrow> string option"
  rt_actionSniff :: "sniff_options \<Rightarrow> InboundContext \<Rightarrow> InboundContext \<times> 'b list \<times> string option"
  rt_actionResolve :: "resolve_options \<Rightarrow> InboundContext \<Rightarrow> InboundContext \<times> string option"
  rt_injectable :: "string \<Rightarrow> bool option"
  rt_legacyFqdns :: "string list"
  rt_deadline :: "'c \<Rightarrow> 'c"
  rt_cached :: "'b \<Rightarrow> 'c \<Rightarrow> 'c"
  rt_nat :: "InboundContext \<Rightarrow> 'c \<Rightarrow> 'c"
  rt_trackers :: "('c \<Rightarrow> InboundContext \<Rightarrow> item rule option \<Rightarrow> Outbound \<Rightarrow> 'c) list"

definition Initialize_rules :: "lib \<Rightarrow> option_rule list \<Rightarrow> rule_error + item rule list" where
  "Initialize_rules l options = NewSubRules l options"

datatype rule_set_error = DuplicateRuleSet string | RuleSetFailed rule_error

fun Initialize_sets ::
  "('o \<Rightarrow> rule_error + headless_rule list) \<Rightarrow> (string \<times> 'o) list \<Rightarrow> (string, headless_rule list) gomap \<Rightarrow>
   rule_set_error + (string, headless_rule list) gomap" where
  "Initialize_sets newRuleSet [] m = Inr m"
| "Initialize_sets newRuleSet ((tag, options) # rest) m =
     (if mhas m tag then Inl (DuplicateRuleSet tag)
      else case newRuleSet options of
        Inl e \<Rightarrow> Inl (RuleSetFailed e)
      | Inr s \<Rightarrow> Initialize_sets newRuleSet rest (mput tag s m))"

section \<open>Before the rules\<close>

definition search_process :: "('c, 'b) router \<Rightarrow> InboundContext \<Rightarrow> InboundContext" where
  "search_process rt md =
     (case (rt_processSearcher rt, ic_ProcessInfo md) of
        (Some searcher, None) \<Rightarrow>
          (let origin = (if lib_IsValid (rt_lib rt) (ic_OriginDestination md) then Some (ic_OriginDestination md)
                         else if lib_IsIP (rt_lib rt) (ic_Destination md) then Some (ic_Destination md) else None)
           in case searcher (ic_Network md) (ic_Source md) origin of
                None \<Rightarrow> md
              | Some p \<Rightarrow> md\<lparr>ic_ProcessInfo := Some p\<rparr>)
      | _ \<Rightarrow> md)"

definition reverse_domain :: "('c, 'b) router \<Rightarrow> InboundContext \<Rightarrow> InboundContext" where
  "reverse_domain rt md =
     (if ic_Domain md = [] then
        (case rt_LookupReverseMapping rt (sa_Addr (ic_Destination md)) of None \<Rightarrow> md | Some d \<Rightarrow> md\<lparr>ic_Domain := d\<rparr>)
      else md)"

definition unfake :: "('c, 'b) router \<Rightarrow> InboundContext \<Rightarrow> route_error + InboundContext" where
  "unfake rt md =
     (case (sa_Addr (ic_Destination md), rt_fakeIP rt) of
        (Some a, Some (contains, lookup)) \<Rightarrow>
          if contains a then
            (case lookup a of
               None \<Rightarrow> Inl MissingFakeIP
             | Some domain \<Rightarrow>
                 Inr (if domain \<noteq> [] then
                        md\<lparr>ic_OriginDestination := ic_Destination md,
                           ic_Destination := \<lparr>sa_Addr = None, sa_Port = sa_Port (ic_Destination md), sa_Fqdn = domain\<rparr>,
                           ic_FakeIP := True\<rparr>
                      else md))
          else Inr (reverse_domain rt md)
      | _ \<Rightarrow> Inr (reverse_domain rt md))"

definition set_ip_version :: "('c, 'b) router \<Rightarrow> InboundContext \<Rightarrow> InboundContext" where
  "set_ip_version rt md =
     (if lib_IsIPv4 (rt_lib rt) (ic_Destination md) then md\<lparr>ic_IPVersion := 4\<rparr>
      else if lib_IsIPv6 (rt_lib rt) (ic_Destination md) then md\<lparr>ic_IPVersion := 6\<rparr>
      else md)"

text \<open>The options an inbound may carry from older configurations.\<close>

definition sniff_inbound :: "('c, 'b) router \<Rightarrow> bool \<Rightarrow> InboundContext \<Rightarrow> InboundContext \<times> 'b list \<times> route_error option" where
  "sniff_inbound rt preMatch md =
     (let io = ic_InboundOptions md in
      if \<not> preMatch \<and> io_SniffEnabled io then
        (let (md1, bufs, err) = rt_actionSniff rt \<lparr>sn_SnifferNames = [], sn_StreamSniffers = [], sn_PacketSniffers = [],
               sn_Timeout = io_SniffTimeout io, sn_OverrideDestination = io_SniffOverrideDestination io\<rparr> md
         in (md1, bufs, map_option SniffFailed err))
      else (md, [], None))"

definition resolve_inbound :: "('c, 'b) router \<Rightarrow> InboundContext \<Rightarrow> InboundContext \<times> route_error option" where
  "resolve_inbound rt md =
     (let io = ic_InboundOptions md in
      if io_DomainStrategy io \<noteq> 0 then
        (let (md1, err) = rt_actionResolve rt \<lparr>rs_Server = [], rs_Strategy = io_DomainStrategy io, rs_DisableCache = False,
               rs_RewriteTTL = None, rs_ClientSubnet = \<lparr>pf_Addr = None, pf_Bits = 0\<rparr>\<rparr> md
         in (md1, map_option ResolveFailed err))
      else (md, None))"

definition inbound_options :: "('c, 'b) router \<Rightarrow> bool \<Rightarrow> InboundContext \<Rightarrow> InboundContext \<times> 'b list \<times> route_error option" where
  "inbound_options rt preMatch md =
     (if ic_InboundOptions md = no_inbound_options then (md, [], None)
      else case sniff_inbound rt preMatch md of
        (md1, bufs, Some e) \<Rightarrow> (md1, bufs, Some e)
      | (md1, bufs, None) \<Rightarrow>
          (case resolve_inbound rt md1 of
             (md2, Some e) \<Rightarrow> (md2, bufs, Some e)
           | (md2, None) \<Rightarrow>
               (let md3 = (if io_UDPDisableDomainUnmapping (ic_InboundOptions md2) then md2\<lparr>ic_UDPDisableDomainUnmapping := True\<rparr> else md2)
                in (md3\<lparr>ic_InboundOptions := no_inbound_options\<rparr>, bufs, None))))"

section \<open>The loop over the rules\<close>

definition override_destination :: "lib \<Rightarrow> route_options \<Rightarrow> InboundContext \<Rightarrow> InboundContext" where
  "override_destination l ro md =
     (let valid = lib_IsValid l (ro_OverrideAddress ro);
          md1 = (if (valid \<or> 0 < ro_OverridePort ro) \<and> \<not> lib_IsValid l (ic_RouteOriginalDestination md)
                 then md\<lparr>ic_RouteOriginalDestination := ic_Destination md\<rparr> else md);
          md2 = (if valid then
                   md1\<lparr>ic_Destination := \<lparr>sa_Addr = sa_Addr (ro_OverrideAddress ro), sa_Port = sa_Port (ic_Destination md1),
                        sa_Fqdn = sa_Fqdn (ro_OverrideAddress ro)\<rparr>, ic_DestinationAddresses := []\<rparr>
                 else md1)
      in if 0 < ro_OverridePort ro then
           md2\<lparr>ic_Destination := \<lparr>sa_Addr = sa_Addr (ic_Destination md2), sa_Port = ro_OverridePort ro, sa_Fqdn = sa_Fqdn (ic_Destination md2)\<rparr>\<rparr>
         else md2)"

definition apply_route_options :: "lib \<Rightarrow> route_options \<Rightarrow> InboundContext \<Rightarrow> InboundContext" where
  "apply_route_options l ro md =
     (let m = override_destination l ro md;
          m = (if ro_NetworkStrategy ro \<noteq> None then m\<lparr>ic_NetworkStrategy := ro_NetworkStrategy ro\<rparr> else m);
          m = (if ro_NetworkType ro \<noteq> [] then m\<lparr>ic_NetworkType := ro_NetworkType ro\<rparr> else m);
          m = (if ro_FallbackNetworkType ro \<noteq> [] then m\<lparr>ic_FallbackNetworkType := ro_FallbackNetworkType ro\<rparr> else m);
          m = (if ro_FallbackDelay ro \<noteq> 0 then m\<lparr>ic_FallbackDelay := ro_FallbackDelay ro\<rparr> else m);
          m = (if ro_UDPDisableDomainUnmapping ro then m\<lparr>ic_UDPDisableDomainUnmapping := True\<rparr> else m);
          m = (if ro_UDPConnect ro then m\<lparr>ic_UDPConnect := True\<rparr> else m);
          m = (if 0 < ro_UDPTimeout ro then m\<lparr>ic_UDPTimeout := ro_UDPTimeout ro\<rparr> else m);
          m = (if ro_TLSFragment ro then m\<lparr>ic_TLSFragment := True, ic_TLSFragmentFallbackDelay := ro_TLSFragmentFallbackDelay ro\<rparr> else m)
      in if ro_TLSRecordFragment ro then m\<lparr>ic_TLSRecordFragment := True\<rparr> else m)"

definition action_options :: "lib \<Rightarrow> rule_action \<Rightarrow> InboundContext \<Rightarrow> InboundContext" where
  "action_options l a md =
     (case a of RuleActionRoute ob ro \<Rightarrow> apply_route_options l ro md | RuleActionRouteOptions ro \<Rightarrow> apply_route_options l ro md | _ \<Rightarrow> md)"

definition is_final :: "rule_action \<Rightarrow> bool" where
  "is_final a \<longleftrightarrow> action_Type a = ''route'' \<or> action_Type a = ''reject'' \<or> action_Type a = ''hijack-dns''"

text \<open>The result: the connection, the buffers, and the rule that ended the loop or an error.\<close>

fun match_loop ::
  "('c, 'b) router \<Rightarrow> bool \<Rightarrow> item rule list \<Rightarrow> InboundContext \<Rightarrow> 'b list \<Rightarrow>
   InboundContext \<times> 'b list \<times> (route_error + item rule option)" where
  "match_loop rt preMatch [] md bufs = (md, bufs, Inr None)"
| "match_loop rt preMatch (r # rs) md bufs =
     (let (matched, md1) = Match (rt_lib rt) (rt_net rt) r (ResetRuleCache md) in
      if \<not> matched then match_loop rt preMatch rs md1 bufs
      else case rule_Action r of
        None \<Rightarrow> (md1, bufs, Inl NilAction)
      | Some a \<Rightarrow>
          let md2 = action_options (rt_lib rt) a md1 in
          case a of
            RuleActionSniff sn \<Rightarrow>
              if \<not> preMatch then
                (case rt_actionSniff rt sn md2 of
                   (md3, new, Some e) \<Rightarrow> (md3, bufs @ new, Inl (SniffFailed e))
                 | (md3, new, None) \<Rightarrow> match_loop rt preMatch rs md3 (bufs @ new))
              else if ic_Network md2 \<noteq> ''icmp'' then (md2, bufs, Inr (Some r))
              else match_loop rt preMatch rs md2 bufs
          | RuleActionResolve ropts \<Rightarrow>
              (case rt_actionResolve rt ropts md2 of
                 (md3, Some e) \<Rightarrow> (md3, bufs, Inl (ResolveFailed e))
               | (md3, None) \<Rightarrow> match_loop rt preMatch rs md3 bufs)
          | _ \<Rightarrow> if is_final a then (md2, bufs, Inr (Some r)) else match_loop rt preMatch rs md2 bufs)"

definition matchRule ::
  "('c, 'b) router \<Rightarrow> bool \<Rightarrow> InboundContext \<Rightarrow> InboundContext \<times> 'b list \<times> (route_error + item rule option)" where
  "matchRule rt preMatch md =
     (case unfake rt (search_process rt md) of
        Inl e \<Rightarrow> (search_process rt md, [], Inl e)
      | Inr md1 \<Rightarrow>
          (case inbound_options rt preMatch (set_ip_version rt md1) of
             (md2, bufs, Some e) \<Rightarrow> (md2, bufs, Inl e)
           | (md2, bufs, None) \<Rightarrow> match_loop rt preMatch (rt_rules rt) md2 bufs))"

section \<open>Routing a connection\<close>

datatype 'c routed =
    Routed Outbound 'c InboundContext
  | Detoured string InboundContext
  | Rejected string bool
  | Hijacked 'c InboundContext
  | Failed route_error

datatype choice = ChooseOutbound Outbound | ChooseReject string bool | ChooseHijack | ChooseError route_error

definition select_outbound :: "('c, 'b) router \<Rightarrow> string \<Rightarrow> item rule option \<Rightarrow> choice" where
  "select_outbound rt network selected =
     (case selected of
        None \<Rightarrow>
          (case Default (rt_outbound rt) of
             None \<Rightarrow> ChooseError NilOutbound
           | Some d \<Rightarrow> if network \<in> set (rt_Network rt d) then ChooseOutbound d else ChooseError (NetworkNotSupported network (o_tag d)))
      | Some r \<Rightarrow>
          (case rule_Action r of
             Some (RuleActionRoute ob ro) \<Rightarrow>
               (case Outbound_get (rt_endpoint rt) ob (rt_outbound rt) of
                  None \<Rightarrow> ChooseError (OutboundMissing ob)
                | Some x \<Rightarrow> if network \<in> set (rt_Network rt x) then ChooseOutbound x else ChooseError (NetworkNotSupported network (o_tag x)))
           | Some (RuleActionReject m noDrop) \<Rightarrow> if m = ''reply'' then ChooseError ReplyNotSupported else ChooseReject m noDrop
           | Some RuleActionHijackDNS \<Rightarrow> ChooseHijack
           | _ \<Rightarrow> ChooseError NilOutbound))"

definition detour :: "('c, 'b) router \<Rightarrow> InboundContext \<Rightarrow> 'c routed" where
  "detour rt md =
     (let tag = ic_InboundDetour md in
      if ic_LastInbound md = tag then Failed (RoutingLoop tag)
      else case rt_injectable rt tag of
        None \<Rightarrow> Failed (DetourNotFound tag)
      | Some injectable \<Rightarrow>
          if injectable then Detoured tag (md\<lparr>ic_LastInbound := ic_Inbound md, ic_Inbound := tag, ic_InboundDetour := []\<rparr>)
          else Failed (DetourNotInjectable tag))"

definition track :: "('c, 'b) router \<Rightarrow> InboundContext \<Rightarrow> item rule option \<Rightarrow> Outbound \<Rightarrow> 'c \<Rightarrow> 'c" where
  "track rt md selected x conn = fold (\<lambda>tracker c. tracker c md selected x) (rt_trackers rt) conn"

definition routeConnection :: "('c, 'b) router \<Rightarrow> 'c \<Rightarrow> InboundContext \<Rightarrow> 'c routed" where
  "routeConnection rt conn md =
     (if ic_InboundDetour md \<noteq> [] then detour rt md
      else let md1 = md\<lparr>ic_Network := ''tcp''\<rparr> in
        if sa_Fqdn (ic_Destination md1) \<in> set (rt_legacyFqdns rt) then Failed (LegacyDestination (sa_Fqdn (ic_Destination md1)))
        else case matchRule rt False md1 of
          (md2, bufs, Inl e) \<Rightarrow> Failed e
        | (md2, bufs, Inr selected) \<Rightarrow>
            (let conn1 = fold (rt_cached rt) bufs (rt_deadline rt conn) in
             case select_outbound rt ''tcp'' selected of
               ChooseError e \<Rightarrow> Failed e
             | ChooseReject m noDrop \<Rightarrow> Rejected m noDrop
             | ChooseHijack \<Rightarrow> Hijacked conn1 md2
             | ChooseOutbound x \<Rightarrow> Routed x (track rt md2 selected x conn1) md2))"

definition routePacketConnection :: "('c, 'b) router \<Rightarrow> 'c \<Rightarrow> InboundContext \<Rightarrow> 'c routed" where
  "routePacketConnection rt conn md =
     (if ic_InboundDetour md \<noteq> [] then detour rt md
      else case matchRule rt False (md\<lparr>ic_Network := ''udp''\<rparr>) of
        (md1, bufs, Inl e) \<Rightarrow> Failed e
      | (md1, bufs, Inr selected) \<Rightarrow>
          (case select_outbound rt ''udp'' selected of
             ChooseError e \<Rightarrow> Failed e
           | ChooseReject m noDrop \<Rightarrow> Rejected m noDrop
           | ChooseHijack \<Rightarrow> Hijacked conn md1
           | ChooseOutbound x \<Rightarrow>
               (let conn1 = track rt md1 selected x (fold (rt_cached rt) bufs conn)
                in Routed x (if ic_FakeIP md1 then rt_nat rt md1 conn1 else conn1) md1)))"

section \<open>The generated routes\<close>

text \<open>The options of the rule that the agent generates for a node. Decoding puts the action
  \<open>route\<close> where none is written; what is written is the two members below.\<close>

definition node_conditions :: "NodeSpec \<Rightarrow> RawDefaultRule" where
  "node_conditions node = no_conditions\<lparr>dr_Inbound := [InboundTag node]\<rparr>"

definition node_action :: "NodeSpec \<Rightarrow> RuleAction" where
  "node_action node = no_action\<lparr>oa_Action := ''route'', oa_Outbound := outbound_tag_for node\<rparr>"

lemma node_rule_options:
  "node_rule node =
     json_map [(''inbound'', JArr (map JStr (dr_Inbound (node_conditions node)))), (''outbound'', JStr (oa_Outbound (node_action node)))]"
  by (simp add: node_rule_def node_conditions_def node_action_def)

definition inbound_rule :: "lib \<Rightarrow> string \<Rightarrow> string \<Rightarrow> item rule" where
  "inbound_rule l t ob =
     DefaultRule \<lparr>ar_items = [Item (NewInboundRule [t])], ar_sourceAddressItems = [], ar_sourcePortItems = [],
       ar_destinationAddressItems = [], ar_destinationIPCIDRItems = [], ar_destinationPortItems = [],
       ar_allItems = [Item (NewInboundRule [t])], ar_invert = False,
       ar_action = Some (RuleActionRoute ob (route_action_options l no_route_options))\<rparr>"

abbreviation rule_of_node :: "lib \<Rightarrow> NodeSpec \<Rightarrow> item rule" where
  "rule_of_node l node \<equiv> inbound_rule l (InboundTag node) (outbound_tag_for node)"

lemma NewRule_node: "NewRule l (DefaultOptions (node_conditions node) (node_action node)) False = Inr (rule_of_node l node)"
proof -
  have "default_IsValid (node_conditions node) (node_action node)"
    by (simp add: default_IsValid_def node_action_def no_action_def)
  then show ?thesis
    by (simp add: missing_outbound_def)
      (simp add: node_conditions_def node_action_def no_conditions_def no_action_def step_eval inbound_rule_def)
qed

lemma Initialize_nodes:
  "Initialize_rules l (map (\<lambda>node. DefaultOptions (node_conditions node) (node_action node)) nodes) = Inr (map (rule_of_node l) nodes)"
  unfolding Initialize_rules_def by (induction nodes) (simp_all add: NewRule_node del: NewRule.simps)

lemma inbound_rule_Match:
  "fst (Match l nm (inbound_rule l' t ob) (ResetRuleCache md)) \<longleftrightarrow> ic_Inbound md = t"
  "ic_Inbound (snd (Match l nm (inbound_rule l' t ob) (ResetRuleCache md))) = ic_Inbound md"
proof -
  have "built not_rule_set (inbound_rule l' t ob)" by (simp add: inbound_rule_def default_built_def group_items_def)
  note m = rl.rule_looks [OF this, of l nm md]
  show "fst (Match l nm (inbound_rule l' t ob) (ResetRuleCache md)) \<longleftrightarrow> ic_Inbound md = t"
    using m by (auto simp: Match_def inbound_rule_def default_spec_def nothing_asked_def formula_def some_of_def dest_cidr_def
      NewInboundRule_def InboundItem_Match_def ResetRuleCache_def)
  show "ic_Inbound (snd (Match l nm (inbound_rule l' t ob) (ResetRuleCache md))) = ic_Inbound md"
    using m by (auto simp: Match_def near_def flags_def ResetRuleCache_def)
qed

lemma loop_nodes:
  "\<exists>md' bufs'. match_loop rt pre (map (rule_of_node l) nodes) md bufs =
     (md', bufs', Inr (map_option (rule_of_node l) (find (\<lambda>node. InboundTag node = ic_Inbound md) nodes)))"
proof (induction nodes arbitrary: md)
  case (Cons node nodes)
  let ?r = "rule_of_node l node"
  obtain matched md1 where m: "Match (rt_lib rt) (rt_net rt) ?r (ResetRuleCache md) = (matched, md1)" by fastforce
  have "matched \<longleftrightarrow> ic_Inbound md = InboundTag node" "ic_Inbound md1 = ic_Inbound md"
    using inbound_rule_Match [of "rt_lib rt" "rt_net rt" l "InboundTag node" "outbound_tag_for node" md] m by simp_all
  moreover have "rule_Action ?r = Some (RuleActionRoute (outbound_tag_for node) (route_action_options l no_route_options))"
    by (simp add: inbound_rule_def)
  ultimately show ?case using Cons.IH [of md1] m by (auto simp: is_final_def)
qed simp

lemma prelude_keeps:
  "ic_Inbound (search_process rt md) = ic_Inbound md" "ic_InboundOptions (search_process rt md) = ic_InboundOptions md"
  "ic_Inbound (reverse_domain rt md) = ic_Inbound md" "ic_InboundOptions (reverse_domain rt md) = ic_InboundOptions md"
  "ic_Inbound (set_ip_version rt md) = ic_Inbound md" "ic_InboundOptions (set_ip_version rt md) = ic_InboundOptions md"
  by (auto simp: search_process_def reverse_domain_def set_ip_version_def Let_def split: option.split)

lemma unfake_keeps:
  "unfake rt md = Inr md' \<Longrightarrow> ic_Inbound md' = ic_Inbound md \<and> ic_InboundOptions md' = ic_InboundOptions md"
  by (auto simp: unfake_def prelude_keeps split: option.splits if_splits)

lemma matchRule_nodes:
  assumes "rt_rules rt = map (rule_of_node l) nodes" and "ic_InboundOptions md = no_inbound_options"
  shows "\<exists>md' bufs res. matchRule rt pre md = (md', bufs, res) \<and>
    (res = Inl MissingFakeIP \<and> rt_fakeIP rt \<noteq> None \<or>
     res = Inr (map_option (rule_of_node l) (find (\<lambda>node. InboundTag node = ic_Inbound md) nodes)))"
proof (cases "unfake rt (search_process rt md)")
  case (Inl e)
  then have "e = MissingFakeIP \<and> rt_fakeIP rt \<noteq> None" by (auto simp: unfake_def split: option.splits if_splits)
  then show ?thesis using Inl by (simp add: matchRule_def)
next
  case (Inr md1)
  let ?m = "set_ip_version rt md1"
  have k: "ic_Inbound ?m = ic_Inbound md" "ic_InboundOptions ?m = no_inbound_options"
    using unfake_keeps [OF Inr] assms(2) by (simp_all add: prelude_keeps)
  obtain md' bufs' where "match_loop rt pre (map (rule_of_node l) nodes) ?m [] =
      (md', bufs', Inr (map_option (rule_of_node l) (find (\<lambda>node. InboundTag node = ic_Inbound ?m) nodes)))"
    using loop_nodes [of rt pre l nodes ?m "[]"] by blast
  then show ?thesis using Inr k assms(1) by (simp add: matchRule_def inbound_options_def)
qed

text \<open>The outbound that the routes of a topology mean for an inbound.\<close>

definition node_outbound :: "('c, 'b) router \<Rightarrow> NodeSpec list \<Rightarrow> string \<Rightarrow> Outbound option" where
  "node_outbound rt nodes t =
     (case find (\<lambda>node. InboundTag node = t) nodes of
        None \<Rightarrow> Default (rt_outbound rt)
      | Some node \<Rightarrow> Outbound_get (rt_endpoint rt) (outbound_tag_for node) (rt_outbound rt))"

lemma select_node:
  "select_outbound rt network (map_option (rule_of_node l) (find (\<lambda>node. InboundTag node = t) nodes)) =
     (case node_outbound rt nodes t of
        Some x \<Rightarrow> if network \<in> set (rt_Network rt x) then ChooseOutbound x else ChooseError (NetworkNotSupported network (o_tag x))
      | None \<Rightarrow> ChooseError (case find (\<lambda>node. InboundTag node = t) nodes of None \<Rightarrow> NilOutbound | Some node \<Rightarrow> OutboundMissing (outbound_tag_for node)))"
  by (auto simp: select_outbound_def node_outbound_def inbound_rule_def split: option.split)

lemma find_own:
  assumes "node \<in> set nodes" and "distinct (map InboundTag nodes)"
  shows "find (\<lambda>n. InboundTag n = InboundTag node) nodes = Some node"
  using assms by (induction nodes) auto

section \<open>Properties\<close>

text \<open>
  C5: Traffic of a node leaves through that node's outbound. With the rules generated for a
  topology loaded into the router, whatever the process searcher, the fake address store,
  the reverse mapping and the trackers do, a TCP or UDP connection that comes in on a
  node's inbound is either refused with an error or handed to the outbound of that node,
  and one from any other inbound to the default outbound; it is never detoured, rejected
  by a rule or taken for a name query. When the outbound exists and carries the network
  and there are no fake addresses, it is handed over.
\<close>

theorem node_traffic_stays:
  assumes "Validate \<lparr>tp_Nodes = nodes\<rparr> = None"
    and "Initialize_rules (rt_lib rt) (map (\<lambda>node. DefaultOptions (node_conditions node) (node_action node)) nodes) = Inr (rt_rules rt)"
    and "ic_InboundOptions md = no_inbound_options" and "ic_InboundDetour md = []"
  shows "(case routeConnection rt conn md of
        Routed x conn' md' \<Rightarrow> node_outbound rt nodes (ic_Inbound md) = Some x | Failed e \<Rightarrow> True | _ \<Rightarrow> False) \<and>
    (case routePacketConnection rt conn md of
        Routed x conn' md' \<Rightarrow> node_outbound rt nodes (ic_Inbound md) = Some x | Failed e \<Rightarrow> True | _ \<Rightarrow> False) \<and>
    (\<forall>node \<in> set nodes. node_outbound rt nodes (InboundTag node) =
        Outbound_get (rt_endpoint rt) (outbound_tag_for node) (rt_outbound rt)) \<and>
    (rt_fakeIP rt = None \<longrightarrow> node_outbound rt nodes (ic_Inbound md) = Some x \<longrightarrow>
      (''tcp'' \<in> set (rt_Network rt x) \<and> sa_Fqdn (ic_Destination md) \<notin> set (rt_legacyFqdns rt) \<longrightarrow>
        (\<exists>conn' md'. routeConnection rt conn md = Routed x conn' md')) \<and>
      (''udp'' \<in> set (rt_Network rt x) \<longrightarrow> (\<exists>conn' md'. routePacketConnection rt conn md = Routed x conn' md')))"
proof -
  have rules: "rt_rules rt = map (rule_of_node (rt_lib rt)) nodes" using assms(2) by (simp add: Initialize_nodes)
  have tcp: "ic_InboundOptions (md\<lparr>ic_Network := n\<rparr>) = no_inbound_options" for n using assms(3) by simp
  obtain m1 b1 r1 where t: "matchRule rt False (md\<lparr>ic_Network := ''tcp''\<rparr>) = (m1, b1, r1)"
    and rt1: "r1 = Inl MissingFakeIP \<and> rt_fakeIP rt \<noteq> None \<or>
      r1 = Inr (map_option (rule_of_node (rt_lib rt)) (find (\<lambda>node. InboundTag node = ic_Inbound md) nodes))"
    using matchRule_nodes [OF rules tcp, of False "''tcp''"] by auto
  obtain m2 b2 r2 where u: "matchRule rt False (md\<lparr>ic_Network := ''udp''\<rparr>) = (m2, b2, r2)"
    and rt2: "r2 = Inl MissingFakeIP \<and> rt_fakeIP rt \<noteq> None \<or>
      r2 = Inr (map_option (rule_of_node (rt_lib rt)) (find (\<lambda>node. InboundTag node = ic_Inbound md) nodes))"
    using matchRule_nodes [OF rules tcp, of False "''udp''"] by auto
  have d: "distinct (map InboundTag nodes)" using assms(1) by (simp add: Validate_None_iff topology_ok_def)
  have own: "node_outbound rt nodes (InboundTag node) = Outbound_get (rt_endpoint rt) (outbound_tag_for node) (rt_outbound rt)"
    if "node \<in> set nodes" for node
    unfolding node_outbound_def find_own [OF that d] by simp
  have "(case routeConnection rt conn md of
        Routed x conn' md' \<Rightarrow> node_outbound rt nodes (ic_Inbound md) = Some x | Failed e \<Rightarrow> True | _ \<Rightarrow> False)"
    using rt1 assms(4) t by (auto simp: routeConnection_def Let_def select_node split: option.splits if_splits)
  moreover have "(case routePacketConnection rt conn md of
        Routed x conn' md' \<Rightarrow> node_outbound rt nodes (ic_Inbound md) = Some x | Failed e \<Rightarrow> True | _ \<Rightarrow> False)"
    using rt2 assms(4) u by (auto simp: routePacketConnection_def Let_def select_node split: option.splits if_splits)
  moreover have "\<exists>conn' md'. routeConnection rt conn md = Routed x conn' md'"
    if "rt_fakeIP rt = None" "node_outbound rt nodes (ic_Inbound md) = Some x" "''tcp'' \<in> set (rt_Network rt x)"
      "sa_Fqdn (ic_Destination md) \<notin> set (rt_legacyFqdns rt)"
    using rt1 assms(4) t that by (auto simp: routeConnection_def Let_def select_node)
  moreover have "\<exists>conn' md'. routePacketConnection rt conn md = Routed x conn' md'"
    if "rt_fakeIP rt = None" "node_outbound rt nodes (ic_Inbound md) = Some x" "''udp'' \<in> set (rt_Network rt x)"
    using rt2 assms(4) u that by (auto simp: routePacketConnection_def Let_def select_node)
  ultimately show ?thesis using own by blast
qed

definition sample_lib :: lib where
  "sample_lib =
     \<lparr>lib_IsIP = (\<lambda>s. sa_Addr s \<noteq> None), lib_IsIPv4 = (\<lambda>s. case sa_Addr s of Some (Addr4 a) \<Rightarrow> True | _ \<Rightarrow> False),
      lib_IsIPv6 = (\<lambda>s. case sa_Addr s of Some (Addr6 a) \<Rightarrow> True | _ \<Rightarrow> False),
      lib_IsValid = (\<lambda>s. sa_Addr s \<noteq> None \<or> sa_Fqdn s \<noteq> []), lib_IsPublicAddr = (\<lambda>a. True),
      lib_NewMatcher = (\<lambda>ds ss d. d \<in> set ds), lib_NewAdGuardMatcher = (\<lambda>ls d. False), lib_Compile = (\<lambda>e. None),
      lib_ParsePrefix = (\<lambda>s. None), lib_ParseAddr = (\<lambda>s. None), lib_IPSet = (\<lambda>xs. None),
      lib_ParseSocksaddrHostPort = (\<lambda>h p. \<lparr>sa_Addr = None, sa_Port = p, sa_Fqdn = h\<rparr>)\<rparr>"

definition direct_outbound :: Outbound where
  "direct_outbound = \<lparr>o_id = 0, o_tag = ''direct'', o_Dependencies = []\<rparr>"

definition sample_router :: "(unit, unit) router" where
  "sample_router =
     \<lparr>rt_lib = sample_lib, rt_net = \<lparr>nm_DefaultNetworkInterface = None, nm_SSID = [], nm_BSSID = [], nm_Interfaces = [],
        nm_NetworkInterfaces = [], nm_DefaultInterface = None, nm_clashMode = None\<rparr>,
      rt_rules = [rule_of_node sample_lib one_node], rt_outbound = install ''direct'' direct_outbound [] (NewManager ''block''),
      rt_endpoint = [], rt_Network = (\<lambda>x. [''tcp'', ''udp'']), rt_processSearcher = None, rt_fakeIP = None,
      rt_LookupReverseMapping = (\<lambda>a. None), rt_actionSniff = (\<lambda>sn md. (md, [], None)), rt_actionResolve = (\<lambda>rs md. (md, None)),
      rt_injectable = (\<lambda>t. None), rt_legacyFqdns = [], rt_deadline = id, rt_cached = (\<lambda>b c. c), rt_nat = (\<lambda>md c. c), rt_trackers = []\<rparr>"

theorem node_traffic_stays_witness:
  "\<exists>conn' md'. routeConnection sample_router () (sample_connection\<lparr>ic_Inbound := InboundTag one_node\<rparr>) = Routed direct_outbound conn' md'"
proof -
  let ?md = "sample_connection\<lparr>ic_Inbound := InboundTag one_node\<rparr>"
  have v: "Validate \<lparr>tp_Nodes = [one_node]\<rparr> = None" by code_simp
  have i: "Initialize_rules (rt_lib sample_router) (map (\<lambda>node. DefaultOptions (node_conditions node) (node_action node)) [one_node]) =
      Inr (rt_rules sample_router)" unfolding Initialize_nodes by (simp add: sample_router_def)
  have tag: "outbound_tag_for one_node = ''direct''" by code_simp
  have "node_outbound sample_router [one_node] (ic_Inbound ?md) = Some direct_outbound"
    by (simp add: node_outbound_def tag Outbound_get_def sample_router_def install_def)
  moreover have "rt_fakeIP sample_router = None" "''tcp'' \<in> set (rt_Network sample_router direct_outbound)" "rt_legacyFqdns sample_router = []"
    by (simp_all add: sample_router_def)
  moreover have "ic_InboundOptions ?md = no_inbound_options" "ic_InboundDetour ?md = []" by (simp_all add: sample_connection_def)
  ultimately show ?thesis using node_traffic_stays [OF v i, of ?md "()" direct_outbound] by simp
qed

end
