(* ===== verification/Go_Time.thy ===== *)
theory Go_Time
  imports Json
begin

text \<open>
  The part of Go's \<^verbatim>\<open>time.Time\<close> the panel uses: the zero time, and the JSON form, which
  is the RFC 3339 text with nanoseconds. A time is kept by its civil fields and its
  offset from UTC in minutes, so that printing shows the fields that were read. Reading
  follows RFC 3339; texts beyond it that Go tolerates are refused.
\<close>

record Time =
  tm_Year :: nat
  tm_Month :: nat
  tm_Day :: nat
  tm_Hour :: nat
  tm_Min :: nat
  tm_Sec :: nat
  tm_Nano :: nat
  tm_Off :: int

definition zero_time :: Time where
  "zero_time = \<lparr>tm_Year = 1, tm_Month = 1, tm_Day = 1, tm_Hour = 0, tm_Min = 0, tm_Sec = 0, tm_Nano = 0, tm_Off = 0\<rparr>"

text \<open>The instant is the start of year 1 in UTC, which other offsets put on the same day or
  on the day before.\<close>

definition IsZero :: "Time \<Rightarrow> bool" where
  "IsZero t \<longleftrightarrow> tm_Sec t = 0 \<and> tm_Nano t = 0 \<and>
     (if 0 \<le> tm_Off t
      then (tm_Year t, tm_Month t, tm_Day t) = (1, 1, 1) \<and> int (tm_Hour t * 60 + tm_Min t) = tm_Off t
      else (tm_Year t, tm_Month t, tm_Day t) = (0, 12, 31) \<and> int (tm_Hour t * 60 + tm_Min t) = 1440 + tm_Off t)"

section \<open>Printing\<close>

fun pad :: "nat \<Rightarrow> nat \<Rightarrow> string" where
  "pad 0 n = []"
| "pad (Suc k) n = pad k (n div 10) @ [digit_char (n mod 10)]"

definition print_nano :: "nat \<Rightarrow> string" where
  "print_nano n = (if n = 0 then [] else CHR ''.'' # rev (dropWhile (\<lambda>c. c = CHR ''0'') (rev (pad 9 n))))"

definition print_offset :: "int \<Rightarrow> string" where
  "print_offset z =
     (if z = 0 then ''Z''
      else (if z < 0 then ''-'' else ''+'') @ pad 2 (nat \<bar>z\<bar> div 60) @ '':'' @ pad 2 (nat \<bar>z\<bar> mod 60))"

definition Format_RFC3339 :: "Time \<Rightarrow> string" where
  "Format_RFC3339 t =
     pad 4 (tm_Year t) @ ''-'' @ pad 2 (tm_Month t) @ ''-'' @ pad 2 (tm_Day t) @ ''T'' @
     pad 2 (tm_Hour t) @ '':'' @ pad 2 (tm_Min t) @ '':'' @ pad 2 (tm_Sec t) @ print_nano (tm_Nano t) @ print_offset (tm_Off t)"

section \<open>Reading\<close>

fun fixed_num :: "nat \<Rightarrow> nat \<Rightarrow> string \<Rightarrow> (nat \<times> string) option" where
  "fixed_num 0 acc s = Some (acc, s)"
| "fixed_num (Suc k) acc [] = None"
| "fixed_num (Suc k) acc (c # s) = (if is_digit c then fixed_num k (10 * acc + (code c - 48)) s else None)"

definition num_between :: "nat \<Rightarrow> nat \<Rightarrow> nat \<Rightarrow> string \<Rightarrow> (nat \<times> string) option" where
  "num_between k lo hi s =
     (case fixed_num k 0 s of Some (n, r) \<Rightarrow> if lo \<le> n \<and> n \<le> hi then Some (n, r) else None | None \<Rightarrow> None)"

definition expect :: "char \<Rightarrow> string \<Rightarrow> string option" where
  "expect c s = (if s \<noteq> [] \<and> hd s = c then Some (tl s) else None)"

definition leap :: "nat \<Rightarrow> bool" where
  "leap y \<longleftrightarrow> y mod 4 = 0 \<and> (y mod 100 \<noteq> 0 \<or> y mod 400 = 0)"

definition days_in :: "nat \<Rightarrow> nat \<Rightarrow> nat" where
  "days_in y m = (if m = 2 then (if leap y then 29 else 28) else if m \<in> {4, 6, 9, 11} then 30 else 31)"

text \<open>Digits beyond the ninth are cut off.\<close>

definition read_nano :: "string \<Rightarrow> (nat \<times> string) option" where
  "read_nano s =
     (if s \<noteq> [] \<and> hd s = CHR ''.'' then
        (let (d, r) = take_digits (tl s) in
         if d = [] then None
         else map_option (\<lambda>(n, _). (n, r)) (fixed_num 9 0 (take 9 (d @ replicate 9 (CHR ''0'')))))
      else Some (0, s))"

definition read_offset :: "string \<Rightarrow> int option" where
  "read_offset s =
     (if s = ''Z'' then Some 0
      else if s \<noteq> [] \<and> (hd s = CHR ''+'' \<or> hd s = CHR ''-'') then do {
        (h, s1) \<leftarrow> num_between 2 0 23 (tl s);
        s2 \<leftarrow> expect (CHR '':'') s1;
        (m, s3) \<leftarrow> num_between 2 0 59 s2;
        (if s3 = [] then Some ((if hd s = CHR ''-'' then - 1 else 1) * int (h * 60 + m)) else None)
      }
      else None)"

definition Parse_RFC3339 :: "string \<Rightarrow> Time option" where
  "Parse_RFC3339 s = do {
     (y, s1) \<leftarrow> num_between 4 0 9999 s;
     s2 \<leftarrow> expect (CHR ''-'') s1;
     (mo, s3) \<leftarrow> num_between 2 1 12 s2;
     s4 \<leftarrow> expect (CHR ''-'') s3;
     (d, s5) \<leftarrow> num_between 2 1 (days_in y mo) s4;
     s6 \<leftarrow> expect (CHR ''T'') s5;
     (h, s7) \<leftarrow> num_between 2 0 23 s6;
     s8 \<leftarrow> expect (CHR '':'') s7;
     (mi, s9) \<leftarrow> num_between 2 0 59 s8;
     s10 \<leftarrow> expect (CHR '':'') s9;
     (sec, s11) \<leftarrow> num_between 2 0 59 s10;
     (nano, s12) \<leftarrow> read_nano s11;
     off \<leftarrow> read_offset s12;
     Some \<lparr>tm_Year = y, tm_Month = mo, tm_Day = d, tm_Hour = h, tm_Min = mi, tm_Sec = sec, tm_Nano = nano, tm_Off = off\<rparr>
   }"

definition enc_Time :: "Time \<Rightarrow> json" where
  "enc_Time t = JStr (Format_RFC3339 t)"

definition dec_Time :: "json \<Rightarrow> Time option" where
  "dec_Time j = (case j of JNull \<Rightarrow> Some zero_time | JStr s \<Rightarrow> Parse_RFC3339 s | _ \<Rightarrow> None)"

end
