(* ===== verification/Panel_Store.thy ===== *)
theory Panel_Store
  imports Control_Plane Go_Time
begin

text \<open>
  The store of the native panel (\<^verbatim>\<open>panelserver/store.go\<close>): registered agents, the topology
  assigned to each, booked usage and the batches already accepted. Every operation holds
  the store's lock for all of its work and so is one step. The contract is an abstract
  ledger, a list of accepted batches, and the store refines it over any sequence of
  operations.
\<close>

section \<open>State\<close>

record Agent =
  ag_ID :: string
  ag_Name :: string
  ag_Secret :: string
  ag_CreatedAt :: Time
  ag_SeenAt :: Time

record TopologyRecord =
  tr_Revision :: string
  tr_ETag :: string
  tr_Topology :: Topology
  tr_UpdatedAt :: Time

record Usage =
  us_Upload :: int
  us_Download :: int

record usageKey =
  uk_agentID :: string
  uk_nodeKey :: string
  uk_userID :: int

record batchKey =
  bk_agentID :: string
  bk_batchID :: string

record Store =
  so_agents :: "(string, Agent) gomap"
  so_topologies :: "(string, TopologyRecord) gomap"
  so_usage :: "(usageKey, Usage) gomap"
  so_batches :: "(batchKey, unit) gomap"

datatype store_error =
    AgentFieldsRequired
  | StoreTopology topo_error
  | AgentUnknown string
  | BatchRequired
  | AgentMissing
  | NoTopology string
  | InvalidItem
  | NotAssigned string string string

definition NewStore :: Store where
  "NewStore = \<lparr>so_agents = [], so_topologies = [], so_usage = [], so_batches = []\<rparr>"

definition zero_usage :: Usage where
  "zero_usage = \<lparr>us_Upload = 0, us_Download = 0\<rparr>"

section \<open>Operations\<close>

text \<open>The clock, sixteen random bytes and the SHA-256 digest are what the operations take
  from outside.\<close>

definition PutAgent :: "Time \<Rightarrow> Agent \<Rightarrow> Store \<Rightarrow> Store \<times> store_error option" where
  "PutAgent now agent s =
     (if ag_ID agent = [] \<or> ag_Secret agent = [] then (s, Some AgentFieldsRequired)
      else let a = (if IsZero (ag_CreatedAt agent) then agent\<lparr>ag_CreatedAt := now\<rparr> else agent)
           in (s\<lparr>so_agents := mput (ag_ID a) a (so_agents s)\<rparr>, None))"

text \<open>The order of the association list is the order in which the map is traversed.\<close>

definition AgentBySecret :: "string \<Rightarrow> Store \<Rightarrow> Agent option" where
  "AgentBySecret secret s = find (\<lambda>a. ag_Secret a = secret) (map snd (so_agents s))"

definition publicAgent :: "Agent \<Rightarrow> Agent" where
  "publicAgent a = a\<lparr>ag_Secret := []\<rparr>"

definition Agents :: "Store \<Rightarrow> Agent list" where
  "Agents s = map (publicAgent \<circ> snd) (so_agents s)"

definition hex_encode :: "string \<Rightarrow> string" where
  "hex_encode bs = concat (map (\<lambda>c. [hex_digit (code c div 16), hex_digit (code c mod 16)]) bs)"

definition randomID :: "string \<Rightarrow> string" where
  "randomID random_bytes = hex_encode (take 16 random_bytes)"

definition topology_record :: "(string \<Rightarrow> string) \<Rightarrow> string \<Rightarrow> Time \<Rightarrow> Topology \<Rightarrow> TopologyRecord" where
  "topology_record sha256 random_bytes now t =
     (let revision = randomID random_bytes in
      \<lparr>tr_Revision = revision, tr_ETag = [CHR 0x22] @ hex_encode (sha256 revision) @ [CHR 0x22],
       tr_Topology = t, tr_UpdatedAt = now\<rparr>)"

definition PutTopology ::
  "(string \<Rightarrow> string) \<Rightarrow> string \<Rightarrow> Time \<Rightarrow> string \<Rightarrow> Topology \<Rightarrow> Store \<Rightarrow> Store \<times> store_error option" where
  "PutTopology sha256 random_bytes now agentID t s =
     (case Validate t of
        Some e \<Rightarrow> (s, Some (StoreTopology e))
      | None \<Rightarrow>
          if \<not> mhas (so_agents s) agentID then (s, Some (AgentUnknown agentID))
          else (s\<lparr>so_topologies := mput agentID (topology_record sha256 random_bytes now t) (so_topologies s)\<rparr>, None))"

definition Store_Topology :: "string \<Rightarrow> Store \<Rightarrow> TopologyRecord option" where
  "Store_Topology agentID s = mget (so_topologies s) agentID"

definition usage_key :: "string \<Rightarrow> string \<Rightarrow> string \<Rightarrow> int \<Rightarrow> usageKey" where
  "usage_key agentID nodeType nodeID userID =
     \<lparr>uk_agentID = agentID, uk_nodeKey = NodeKey nodeType nodeID, uk_userID = userID\<rparr>"

definition Store_Usage :: "string \<Rightarrow> string \<Rightarrow> string \<Rightarrow> int \<Rightarrow> Store \<Rightarrow> Usage" where
  "Store_Usage agentID nodeType nodeID userID s = mget0 zero_usage (so_usage s) (usage_key agentID nodeType nodeID userID)"

definition item_invalid :: "TrafficItem \<Rightarrow> bool" where
  "item_invalid i \<longleftrightarrow> ti_NodeID i = [] \<or> ti_NodeType i = [] \<or> ti_UserID i \<le> 0 \<or> ti_Upload i < 0 \<or> ti_Download i < 0"

definition owned_keys :: "TopologyRecord \<Rightarrow> string set" where
  "owned_keys r = set (map Key (tp_Nodes (tr_Topology r)))"

fun check_items :: "string \<Rightarrow> string set \<Rightarrow> TrafficItem list \<Rightarrow> store_error option" where
  "check_items agentID owned [] = None"
| "check_items agentID owned (i # is) =
     (if item_invalid i then Some InvalidItem
      else if NodeKey (ti_NodeType i) (ti_NodeID i) \<notin> owned then Some (NotAssigned (ti_NodeID i) (ti_NodeType i) agentID)
      else check_items agentID owned is)"

definition book_item :: "string \<Rightarrow> TrafficItem \<Rightarrow> (usageKey, Usage) gomap \<Rightarrow> (usageKey, Usage) gomap" where
  "book_item agentID i m =
     (let k = usage_key agentID (ti_NodeType i) (ti_NodeID i) (ti_UserID i); old = mget0 zero_usage m k
      in mput k \<lparr>us_Upload = add64 (us_Upload old) (ti_Upload i), us_Download = add64 (us_Download old) (ti_Download i)\<rparr> m)"

text \<open>The answer is whether the batch was applied; a batch seen before is not an error.\<close>

definition ApplyTraffic ::
  "Time \<Rightarrow> string \<Rightarrow> TrafficPushRequest \<Rightarrow> Store \<Rightarrow> Store \<times> (store_error + bool)" where
  "ApplyTraffic now agentID payload s =
     (if tq_BatchID payload = [] then (s, Inl BatchRequired)
      else case mget (so_agents s) agentID of
        None \<Rightarrow> (s, Inl AgentMissing)
      | Some agent \<Rightarrow>
          let bk = \<lparr>bk_agentID = agentID, bk_batchID = tq_BatchID payload\<rparr> in
          if mhas (so_batches s) bk then (s, Inr False)
          else (case mget (so_topologies s) agentID of
                  None \<Rightarrow> (s, Inl (NoTopology agentID))
                | Some r \<Rightarrow>
                    (case check_items agentID (owned_keys r) (tq_Items payload) of
                       Some e \<Rightarrow> (s, Inl e)
                     | None \<Rightarrow>
                         (s\<lparr>so_usage := fold (book_item agentID) (tq_Items payload) (so_usage s),
                            so_batches := mput bk () (so_batches s),
                            so_agents := mput agentID (agent\<lparr>ag_SeenAt := now\<rparr>) (so_agents s)\<rparr>, Inr True))))"

section \<open>The abstract ledger\<close>

text \<open>
  What the store promises: which agents exist, which node keys each may bill, and the list
  of accepted batches. Usage is not a counter here but a sum over that list.
\<close>

record ledger =
  ld_agents :: "string set"
  ld_assigned :: "string \<Rightarrow> string set option"
  ld_accepted :: "(string \<times> TrafficPushRequest) list"

definition ledger_init :: ledger where
  "ledger_init = \<lparr>ld_agents = {}, ld_assigned = (\<lambda>_. None), ld_accepted = []\<rparr>"

definition item_at :: "string \<Rightarrow> string \<Rightarrow> int \<Rightarrow> TrafficItem \<Rightarrow> bool" where
  "item_at ty n u i \<longleftrightarrow> NodeKey (ti_NodeType i) (ti_NodeID i) = NodeKey ty n \<and> ti_UserID i = u"

definition billed_items :: "(string \<times> TrafficPushRequest) list \<Rightarrow> string \<Rightarrow> string \<Rightarrow> string \<Rightarrow> int \<Rightarrow> TrafficItem list" where
  "billed_items acc a ty n u = filter (item_at ty n u) (concat (map (tq_Items \<circ> snd) (filter (\<lambda>b. fst b = a) acc)))"

definition ledger_usage :: "(string \<times> TrafficPushRequest) list \<Rightarrow> string \<Rightarrow> string \<Rightarrow> string \<Rightarrow> int \<Rightarrow> Usage" where
  "ledger_usage acc a ty n u =
     \<lparr>us_Upload = wrap64 (sum_list (map ti_Upload (billed_items acc a ty n u))),
      us_Download = wrap64 (sum_list (map ti_Download (billed_items acc a ty n u)))\<rparr>"

definition seen :: "ledger \<Rightarrow> string \<Rightarrow> string \<Rightarrow> bool" where
  "seen l a b \<longleftrightarrow> (a, b) \<in> (\<lambda>(a, p). (a, tq_BatchID p)) ` set (ld_accepted l)"

definition acceptable :: "ledger \<Rightarrow> string \<Rightarrow> TrafficPushRequest \<Rightarrow> bool" where
  "acceptable l a p \<longleftrightarrow> tq_BatchID p \<noteq> [] \<and> a \<in> ld_agents l \<and>
     (case ld_assigned l a of
        None \<Rightarrow> False
      | Some ks \<Rightarrow> \<forall>i \<in> set (tq_Items p). \<not> item_invalid i \<and> NodeKey (ti_NodeType i) (ti_NodeID i) \<in> ks)"

datatype store_op =
    OpPutAgent Time Agent
  | OpPutTopology string Time string Topology
  | OpApplyTraffic Time string TrafficPushRequest

datatype op_result = Done | Rejected | Applied | Duplicate

text \<open>The operation on the store, with the outcome as a client sees it.\<close>

definition done_or_rejected :: "store_error option \<Rightarrow> op_result" where
  "done_or_rejected e = (if e = None then Done else Rejected)"

fun store_step :: "(string \<Rightarrow> string) \<Rightarrow> store_op \<Rightarrow> Store \<Rightarrow> Store \<times> op_result" where
  "store_step sha256 (OpPutAgent now a) s = apsnd done_or_rejected (PutAgent now a s)"
| "store_step sha256 (OpPutTopology rnd now a t) s = apsnd done_or_rejected (PutTopology sha256 rnd now a t s)"
| "store_step sha256 (OpApplyTraffic now a p) s =
     apsnd (\<lambda>r. case r of Inl _ \<Rightarrow> Rejected | Inr True \<Rightarrow> Applied | Inr False \<Rightarrow> Duplicate) (ApplyTraffic now a p s)"

fun ledger_step :: "store_op \<Rightarrow> ledger \<Rightarrow> ledger \<times> op_result" where
  "ledger_step (OpPutAgent now a) l =
     (if ag_ID a \<noteq> [] \<and> ag_Secret a \<noteq> [] then (l\<lparr>ld_agents := insert (ag_ID a) (ld_agents l)\<rparr>, Done) else (l, Rejected))"
| "ledger_step (OpPutTopology rnd now a t) l =
     (if Validate t = None \<and> a \<in> ld_agents l
      then (l\<lparr>ld_assigned := (ld_assigned l)(a \<mapsto> Key ` set (tp_Nodes t))\<rparr>, Done) else (l, Rejected))"
| "ledger_step (OpApplyTraffic now a p) l =
     (if tq_BatchID p \<noteq> [] \<and> a \<in> ld_agents l \<and> seen l a (tq_BatchID p) then (l, Duplicate)
      else if acceptable l a p then (l\<lparr>ld_accepted := ld_accepted l @ [(a, p)]\<rparr>, Applied)
      else (l, Rejected))"

fun run_steps :: "('o \<Rightarrow> 's \<Rightarrow> 's \<times> 'r) \<Rightarrow> 'o list \<Rightarrow> 's \<Rightarrow> 's \<times> 'r list" where
  "run_steps f [] s = (s, [])"
| "run_steps f (x # xs) s = (case f x s of (s', r) \<Rightarrow> apsnd (Cons r) (run_steps f xs s'))"

section \<open>The store refines the ledger\<close>

definition refines :: "Store \<Rightarrow> ledger \<Rightarrow> bool" where
  "refines s l \<longleftrightarrow> ld_agents l = mkeys (so_agents s) \<and>
     (\<forall>a. ld_assigned l a = map_option owned_keys (mget (so_topologies s) a)) \<and>
     (\<forall>a b. mhas (so_batches s) \<lparr>bk_agentID = a, bk_batchID = b\<rparr> = seen l a b) \<and>
     (\<forall>a ty n u. Store_Usage a ty n u s = ledger_usage (ld_accepted l) a ty n u)"

lemma check_items_None:
  "check_items a ks is = None \<longleftrightarrow> (\<forall>i \<in> set is. \<not> item_invalid i \<and> NodeKey (ti_NodeType i) (ti_NodeID i) \<in> ks)"
  by (induction "is") auto

lemma book_item_get:
  "mget0 zero_usage (book_item a i m) (usage_key a' ty n u) =
     (let old = mget0 zero_usage m (usage_key a' ty n u) in
      if a' = a \<and> item_at ty n u i
      then \<lparr>us_Upload = add64 (us_Upload old) (ti_Upload i), us_Download = add64 (us_Download old) (ti_Download i)\<rparr> else old)"
  by (auto simp: book_item_def usage_key_def item_at_def Let_def)

lemma book_items_get:
  "mget0 zero_usage m (usage_key a' ty n u) = \<lparr>us_Upload = wrap64 x, us_Download = wrap64 y\<rparr> \<Longrightarrow>
   mget0 zero_usage (fold (book_item a) is m) (usage_key a' ty n u) =
     (let js = if a' = a then filter (item_at ty n u) is else [] in
      \<lparr>us_Upload = wrap64 (x + sum_list (map ti_Upload js)), us_Download = wrap64 (y + sum_list (map ti_Download js))\<rparr>)"
proof (induction "is" arbitrary: m x y)
  case (Cons i "is")
  show ?case
  proof (cases "a' = a \<and> item_at ty n u i")
    case True
    then have "mget0 zero_usage (book_item a i m) (usage_key a' ty n u) =
        \<lparr>us_Upload = wrap64 (x + ti_Upload i), us_Download = wrap64 (y + ti_Download i)\<rparr>"
      using Cons.prems by (simp add: book_item_get add64_def)
    from Cons.IH [OF this] True show ?thesis by (simp add: Let_def add.assoc)
  next
    case False
    then have "mget0 zero_usage (book_item a i m) (usage_key a' ty n u) = \<lparr>us_Upload = wrap64 x, us_Download = wrap64 y\<rparr>"
      using Cons.prems by (auto simp: book_item_get Let_def)
    from Cons.IH [OF this] False show ?thesis by (auto simp: Let_def)
  qed
qed (simp add: Let_def)

lemma ledger_usage_snoc:
  "ledger_usage (acc @ [(a, p)]) a' ty n u =
     (let js = if a' = a then filter (item_at ty n u) (tq_Items p) else [] in
      \<lparr>us_Upload = wrap64 (sum_list (map ti_Upload (billed_items acc a' ty n u)) + sum_list (map ti_Upload js)),
       us_Download = wrap64 (sum_list (map ti_Download (billed_items acc a' ty n u)) + sum_list (map ti_Download js))\<rparr>)"
  by (simp add: ledger_usage_def billed_items_def Let_def)

lemma refines_init: "refines NewStore ledger_init"
  by (simp add: refines_def NewStore_def ledger_init_def seen_def Store_Usage_def ledger_usage_def billed_items_def zero_usage_def
      is_int64_def)

lemma mkeys_mput [simp]: "mkeys (mput k v m) = insert k (mkeys m)"
  by (rule set_eqI) (metis mhas_iff mhas_mput insert_iff)

lemma refines_PutAgent:
  assumes "refines s l"
  shows "rel_prod refines (=) (store_step h (OpPutAgent now a) s) (ledger_step (OpPutAgent now a) l)"
  using assms by (simp add: PutAgent_def refines_def done_or_rejected_def Let_def Store_Usage_def seen_def)

lemma refines_PutTopology:
  assumes "refines s l"
  shows "rel_prod refines (=) (store_step h (OpPutTopology rnd now a t) s) (ledger_step (OpPutTopology rnd now a t) l)"
  using assms
  by (simp add: PutTopology_def refines_def done_or_rejected_def Let_def Store_Usage_def mhas_iff topology_record_def
      owned_keys_def seen_def split: option.splits)

lemma refines_accept:
  assumes "refines s l" and "mget (so_agents s) a = Some agent"
  shows "refines (s\<lparr>so_usage := fold (book_item a) (tq_Items p) (so_usage s),
      so_batches := mput \<lparr>bk_agentID = a, bk_batchID = tq_BatchID p\<rparr> () (so_batches s),
      so_agents := mput a (agent\<lparr>ag_SeenAt := now\<rparr>) (so_agents s)\<rparr>) (l\<lparr>ld_accepted := ld_accepted l @ [(a, p)]\<rparr>)"
proof -
  have "a \<in> mkeys (so_agents s)" using assms(2) by (simp add: mhas_def flip: mhas_iff)
  moreover have "Store_Usage a' ty n u (s\<lparr>so_usage := fold (book_item a) (tq_Items p) (so_usage s), so_batches := b, so_agents := c\<rparr>) =
      ledger_usage (ld_accepted l @ [(a, p)]) a' ty n u" for a' ty n u b c
  proof -
    have "mget0 zero_usage (so_usage s) (usage_key a' ty n u) = ledger_usage (ld_accepted l) a' ty n u"
      using assms(1) by (simp add: refines_def Store_Usage_def)
    from book_items_get [OF this [unfolded ledger_usage_def], of a "tq_Items p"]
    show ?thesis by (simp add: Store_Usage_def ledger_usage_snoc)
  qed
  ultimately show ?thesis using assms(1) by (auto simp: refines_def seen_def)
qed

lemma refines_ApplyTraffic:
  assumes "refines s l"
  shows "rel_prod refines (=) (store_step h (OpApplyTraffic now a p) s) (ledger_step (OpApplyTraffic now a p) l)"
proof (cases "mget (so_agents s) a")
  case None
  then have "a \<notin> ld_agents l" using assms by (simp add: refines_def mhas_def flip: mhas_iff)
  then show ?thesis using assms None by (auto simp: ApplyTraffic_def acceptable_def)
next
  case (Some agent)
  then have "a \<in> ld_agents l" using assms by (simp add: refines_def mhas_def flip: mhas_iff)
  moreover have "mhas (so_batches s) \<lparr>bk_agentID = a, bk_batchID = tq_BatchID p\<rparr> = seen l a (tq_BatchID p)"
    and "ld_assigned l a = map_option owned_keys (mget (so_topologies s) a)"
    using assms by (simp_all add: refines_def)
  moreover have "acceptable l a p \<longleftrightarrow> tq_BatchID p \<noteq> [] \<and>
      (case mget (so_topologies s) a of None \<Rightarrow> False | Some r \<Rightarrow> check_items a (owned_keys r) (tq_Items p) = None)"
    using calculation by (simp add: acceptable_def check_items_None split: option.split)
  ultimately show ?thesis
    using assms Some refines_accept [OF assms Some, where p = p and now = now]
    by (simp add: ApplyTraffic_def Let_def split: option.split)
qed

lemma refines_step: "refines s l \<Longrightarrow> rel_prod refines (=) (store_step h op s) (ledger_step op l)"
  by (cases op) (simp_all only: refines_PutAgent refines_PutTopology refines_ApplyTraffic)

lemma refines_run:
  "refines s l \<Longrightarrow> rel_prod refines (=) (run_steps (store_step h) ops s) (run_steps ledger_step ops l)"
proof (induction ops arbitrary: s l)
  case (Cons op ops)
  obtain s' r where c: "store_step h op s = (s', r)" by (metis surj_pair)
  obtain l' r' where d: "ledger_step op l = (l', r')" by (metis surj_pair)
  have "refines s' l'" "r = r'" using refines_step [OF Cons.prems, of h op] by (simp_all add: c d)
  with Cons.IH [of s' l'] show ?case
    by (cases "run_steps (store_step h) ops s'"; cases "run_steps ledger_step ops l'") (simp add: c d)
qed simp

section \<open>Well-formed stores\<close>

text \<open>Every agent is stored under its own identifier and can authenticate, every topology is
  valid and belongs to an agent, and every account is a pair of 64-bit integers.\<close>

definition store_ok :: "Store \<Rightarrow> bool" where
  "store_ok s \<longleftrightarrow>
     wf_map (so_agents s) \<and> wf_map (so_topologies s) \<and> wf_map (so_usage s) \<and> wf_map (so_batches s) \<and>
     (\<forall>a g. mget (so_agents s) a = Some g \<longrightarrow> ag_ID g = a \<and> a \<noteq> [] \<and> ag_Secret g \<noteq> []) \<and>
     (\<forall>a r. mget (so_topologies s) a = Some r \<longrightarrow> mhas (so_agents s) a \<and> Validate (tr_Topology r) = None) \<and>
     (\<forall>k u. mget (so_usage s) k = Some u \<longrightarrow> is_int64 (us_Upload u) \<and> is_int64 (us_Download u))"

lemma store_ok_PutAgent: "store_ok s \<Longrightarrow> store_ok (fst (PutAgent now a s))"
  by (auto simp: PutAgent_def store_ok_def Let_def)

lemma store_ok_PutTopology: "store_ok s \<Longrightarrow> store_ok (fst (PutTopology h rnd now a t s))"
  by (auto simp: PutTopology_def store_ok_def topology_record_def Let_def split: option.splits)

lemma usage_ok_book:
  assumes "wf_map m \<and> (\<forall>k u. mget m k = Some u \<longrightarrow> is_int64 (us_Upload u) \<and> is_int64 (us_Download u))"
  shows "wf_map (fold (book_item a) is m) \<and>
    (\<forall>k u. mget (fold (book_item a) is m) k = Some u \<longrightarrow> is_int64 (us_Upload u) \<and> is_int64 (us_Download u))"
  using assms
proof (induction "is" arbitrary: m)
  case (Cons i "is")
  have "wf_map (book_item a i m) \<and>
      (\<forall>k u. mget (book_item a i m) k = Some u \<longrightarrow> is_int64 (us_Upload u) \<and> is_int64 (us_Download u))"
    using Cons.prems by (auto simp: book_item_def Let_def)
  from Cons.IH [OF this] show ?case by simp
qed simp

lemma store_ok_booked:
  assumes "store_ok s" "mget (so_agents s) a = Some g"
  shows "store_ok (s\<lparr>so_usage := fold (book_item a) is (so_usage s), so_batches := mput b () (so_batches s),
    so_agents := mput a (g\<lparr>ag_SeenAt := now\<rparr>) (so_agents s)\<rparr>)"
proof -
  have u: "wf_map (fold (book_item a) is (so_usage s)) \<and>
      (\<forall>k u. mget (fold (book_item a) is (so_usage s)) k = Some u \<longrightarrow> is_int64 (us_Upload u) \<and> is_int64 (us_Download u))"
    using assms(1) by (intro usage_ok_book) (simp add: store_ok_def)
  have "ag_ID g = a \<and> a \<noteq> [] \<and> ag_Secret g \<noteq> []" using assms by (simp add: store_ok_def)
  with u assms(1) show ?thesis by (simp add: store_ok_def)
qed

lemma store_ok_ApplyTraffic: "store_ok s \<Longrightarrow> store_ok (fst (ApplyTraffic now a p s))"
  by (simp add: ApplyTraffic_def Let_def store_ok_booked split: option.split)

lemma store_ok_step: "store_ok s \<Longrightarrow> store_ok (fst (store_step h op s))"
  by (cases op) (simp_all add: store_ok_PutAgent store_ok_PutTopology store_ok_ApplyTraffic)

lemma store_ok_run: "store_ok s \<Longrightarrow> store_ok (fst (run_steps (store_step h) ops s))"
proof (induction ops arbitrary: s)
  case (Cons op ops)
  then show ?case using store_ok_step [OF Cons.prems, of h op] by (simp add: split_beta)
qed simp

section \<open>Properties\<close>

text \<open>
  C23: The store refines the ledger of accepted batches. Over any sequence of registrations,
  topology assignments and traffic batches, every operation has the outcome the ledger
  gives it, and what the store reports for an agent, node and user is the sum, modulo
  \<open>2^64\<close>, of the items for exactly that agent, node and user in the batches that were
  accepted, each counted once however often it was sent.
\<close>

theorem store_refines_ledger:
  "snd (run_steps (store_step sha256) ops NewStore) = snd (run_steps ledger_step ops ledger_init) \<and>
   Store_Usage a ty n u (fst (run_steps (store_step sha256) ops NewStore)) =
     ledger_usage (ld_accepted (fst (run_steps ledger_step ops ledger_init))) a ty n u"
  using refines_run [OF refines_init, of sha256 ops] by (auto simp: rel_prod_sel refines_def)

text \<open>
  A batch is booked whole or not at all, and only once. A call that reports an error or a
  duplicate leaves the store as it was; one that applies a batch has checked that each of
  its items has a positive user, no negative count and a node assigned to the agent, and
  after it the same batch is a duplicate at any later time, whatever its items are then.
\<close>

theorem batch_all_or_nothing:
  "case ApplyTraffic now a p s of
     (s', Inl e) \<Rightarrow> s' = s
   | (s', Inr False) \<Rightarrow> s' = s
   | (s', Inr True) \<Rightarrow>
       (\<exists>r. Store_Topology a s = Some r \<and>
          list_all (\<lambda>i. 0 < ti_UserID i \<and> 0 \<le> ti_Upload i \<and> 0 \<le> ti_Download i \<and>
            NodeKey (ti_NodeType i) (ti_NodeID i) \<in> owned_keys r) (tq_Items p)) \<and>
       ApplyTraffic later a \<lparr>tq_BatchID = tq_BatchID p, tq_Items = other\<rparr> s' = (s', Inr False)"
  by (auto simp: ApplyTraffic_def Let_def check_items_None item_invalid_def Store_Topology_def list_all_iff split: option.splits)

text \<open>
  C30: The store keeps its shape. After any sequence of operations every agent is registered
  under its own identifier with a secret, every assigned topology is valid and its agent
  exists, no key occurs twice, and every account holds 64-bit integers.
\<close>

theorem store_well_formed: "store_ok (fst (run_steps (store_step sha256) ops NewStore))"
  by (rule store_ok_run) (simp add: store_ok_def NewStore_def)

end
