(* ===== verification/Panel_Server.thy ===== *)
theory Panel_Server
  imports Panel_Store
begin

text \<open>
  The HTTP side of the native panel (\<^verbatim>\<open>panelserver/server.go\<close>, \<^verbatim>\<open>ui.go\<close>): the handlers with
  their authentication, the routing of the server's mux, and the panel as the transport
  that the control plane client talks to, over a network that may lose a request or an
  answer. What the handlers take from outside (clock, random bytes, SHA-256, the text of an
  error, the page of the dashboard) is an environment.
\<close>

section \<open>Requests and answers\<close>

text \<open>The path is the list of its segments as they were sent, still escaped.\<close>

record server_request =
  sr_Method :: string
  sr_Path :: "string list"
  sr_Header :: "(string \<times> string) list"
  sr_Body :: string

record server_response =
  sv_Status :: int
  sv_Header :: "(string, string) gomap"
  sv_Body :: string

record server_env =
  env_now :: Time
  env_random :: string
  env_sha256 :: "string \<Rightarrow> string"
  env_message :: "store_error \<Rightarrow> string"
  env_page :: string

type_synonym handler = "server_request \<Rightarrow> Store \<Rightarrow> Store \<times> server_response"

text \<open>Header names are compared without case; blanks around a value do not belong to it.\<close>

definition Header_Get :: "(string \<times> string) list \<Rightarrow> string \<Rightarrow> string" where
  "Header_Get hs name = (case find (\<lambda>h. EqualFold (fst h) name) hs of None \<Rightarrow> [] | Some h \<Rightarrow> Trim (snd h) [CHR 0x20, CHR 0x09])"

fun PathUnescape :: "string \<Rightarrow> string option" where
  "PathUnescape [] = Some []"
| "PathUnescape (c # s) =
     (if c = CHR ''%'' then
        (case s of
           a # b # s' \<Rightarrow>
             (case (hex_val a, hex_val b) of
                (Some x, Some y) \<Rightarrow> map_option ((#) (char_of (x * 16 + y))) (PathUnescape s')
              | _ \<Rightarrow> None)
         | _ \<Rightarrow> None)
      else map_option ((#) c) (PathUnescape s))"

definition segment :: "string \<Rightarrow> string" where
  "segment s = (case PathUnescape s of None \<Rightarrow> s | Some t \<Rightarrow> t)"

definition newline :: string where "newline = [CHR 0x0A]"

definition writeJSON :: "int \<Rightarrow> (string, string) gomap \<Rightarrow> json \<Rightarrow> server_response" where
  "writeJSON status headers v =
     \<lparr>sv_Status = status, sv_Header = mput ''Content-Type'' ''application/json'' headers, sv_Body = print_json v @ newline\<rparr>"

definition writeError :: "int \<Rightarrow> string \<Rightarrow> server_response" where
  "writeError status message = writeJSON status [] (JObj [(''error'', JStr message)])"

text \<open>At most one mebibyte of a body is read, and the first JSON value in it counts.\<close>

definition max_body :: nat where "max_body = 2 ^ 20"

definition decode_body :: "(json \<Rightarrow> 'a option) \<Rightarrow> string \<Rightarrow> 'a option" where
  "decode_body dec body = json_decode_first (take max_body body) \<bind> dec"

section \<open>JSON forms of the store's records\<close>

text \<open>A time is a struct to the encoder and so never left out.\<close>

definition enc_Agent :: "Agent \<Rightarrow> json" where
  "enc_Agent a =
     JObj ((''id'', JStr (ag_ID a)) # str_member ''name'' (ag_Name a) @ str_member ''secret'' (ag_Secret a) @
       [(''created_at'', enc_Time (ag_CreatedAt a)), (''seen_at'', enc_Time (ag_SeenAt a))])"

definition dec_Agent :: "json \<Rightarrow> Agent option" where
  "dec_Agent j = do {
     ms \<leftarrow> dec_members j;
     let get = (\<lambda>name. obj_field [''id'', ''name'', ''secret'', ''created_at'', ''seen_at''] name ms);
     i \<leftarrow> dec_string (get ''id'');
     n \<leftarrow> dec_string (get ''name'');
     s \<leftarrow> dec_string (get ''secret'');
     c \<leftarrow> dec_Time (get ''created_at'');
     v \<leftarrow> dec_Time (get ''seen_at'');
     Some \<lparr>ag_ID = i, ag_Name = n, ag_Secret = s, ag_CreatedAt = c, ag_SeenAt = v\<rparr>
   }"

definition enc_TopologyRecord :: "TopologyRecord \<Rightarrow> json" where
  "enc_TopologyRecord r =
     JObj [(''revision'', JStr (tr_Revision r)), (''etag'', JStr (tr_ETag r)), (''topology'', enc_Topology (tr_Topology r)),
           (''updated_at'', enc_Time (tr_UpdatedAt r))]"

definition dec_topology_body :: "json \<Rightarrow> Topology option" where
  "dec_topology_body j = dec_members j \<bind> (\<lambda>ms. dec_Topology (obj_field [''topology''] ''topology'' ms))"

section \<open>Authentication\<close>

definition bearer :: "server_request \<Rightarrow> string" where
  "bearer r = TrimSpace (TrimPrefix (Header_Get (sr_Header r) ''Authorization'') ''Bearer '')"

definition equal_token :: "string \<Rightarrow> string \<Rightarrow> bool" where
  "equal_token a b \<longleftrightarrow> a \<noteq> [] \<and> b \<noteq> [] \<and> a = b"

definition requireAgent :: "server_request \<Rightarrow> Store \<Rightarrow> (Agent \<Rightarrow> Store \<times> server_response) \<Rightarrow> Store \<times> server_response" where
  "requireAgent r s k =
     (case AgentBySecret (bearer r) s of
        None \<Rightarrow> (s, writeError 401 ''invalid agent token'')
      | Some a \<Rightarrow> k a)"

definition requireAdmin :: "string \<Rightarrow> server_request \<Rightarrow> Store \<Rightarrow> Store \<times> server_response \<Rightarrow> Store \<times> server_response" where
  "requireAdmin adminToken r s k =
     (if \<not> equal_token (bearer r) adminToken then (s, writeError 401 ''invalid admin token'') else k)"

section \<open>Handlers\<close>

definition agentTopology :: handler where
  "agentTopology r s = requireAgent r s (\<lambda>agent.
     (case Store_Topology (ag_ID agent) s of
        None \<Rightarrow> (s, writeError 404 ''no topology assigned'')
      | Some record \<Rightarrow>
          let headers = mput ''Cache-Control'' ''no-store'' (mput ''ETag'' (tr_ETag record) []) in
          if Header_Get (sr_Header r) ''If-None-Match'' = tr_ETag record
          then (s, \<lparr>sv_Status = 304, sv_Header = headers, sv_Body = []\<rparr>)
          else (s, writeJSON 200 headers (enc_TopologyResponse
                 \<lparr>ts_SchemaVersion = 1, ts_Revision = tr_Revision record, ts_Topology = tr_Topology record\<rparr>))))"

definition agentTraffic :: "server_env \<Rightarrow> handler" where
  "agentTraffic env r s = requireAgent r s (\<lambda>agent.
     (case decode_body dec_TrafficPushRequest (sr_Body r) of
        None \<Rightarrow> (s, writeError 400 ''invalid JSON payload'')
      | Some payload \<Rightarrow>
          let key = Header_Get (sr_Header r) ''Idempotency-Key'' in
          if key \<noteq> [] \<and> tq_BatchID payload \<noteq> [] \<and> key \<noteq> tq_BatchID payload
          then (s, writeError 400 ''idempotency key does not match batch_id'')
          else (case ApplyTraffic (env_now env) (ag_ID agent) payload s of
                  (s', Inl e) \<Rightarrow> (s', writeError 400 (env_message env e))
                | (s', Inr applied) \<Rightarrow> (s', writeJSON 202 [] (JObj [(''applied'', JBool applied)])))))"

definition adminAgents :: "string \<Rightarrow> handler" where
  "adminAgents adminToken r s = requireAdmin adminToken r s
     (s, writeJSON 200 [] (JObj [(''agents'', JArr (map enc_Agent (Agents s)))]))"

definition adminPutAgent :: "server_env \<Rightarrow> string \<Rightarrow> handler" where
  "adminPutAgent env adminToken r s = requireAdmin adminToken r s
     (case decode_body dec_Agent (sr_Body r) of
        None \<Rightarrow> (s, writeError 400 ''invalid JSON payload'')
      | Some a \<Rightarrow>
          (case PutAgent (env_now env) a s of
             (s', Some e) \<Rightarrow> (s', writeError 400 (env_message env e))
           | (s', None) \<Rightarrow> (s', writeJSON 201 [] (enc_Agent (a\<lparr>ag_Secret := []\<rparr>)))))"

definition no_record :: TopologyRecord where
  "no_record = \<lparr>tr_Revision = [], tr_ETag = [], tr_Topology = \<lparr>tp_Nodes = []\<rparr>, tr_UpdatedAt = zero_time\<rparr>"

definition adminPutTopology :: "server_env \<Rightarrow> string \<Rightarrow> string \<Rightarrow> handler" where
  "adminPutTopology env adminToken agentID r s = requireAdmin adminToken r s
     (case decode_body dec_topology_body (sr_Body r) of
        None \<Rightarrow> (s, writeError 400 ''invalid JSON payload'')
      | Some t \<Rightarrow>
          (case PutTopology (env_sha256 env) (env_random env) (env_now env) agentID t s of
             (s', Some e) \<Rightarrow> (s', writeError 400 (env_message env e))
           | (s', None) \<Rightarrow>
               (s', writeJSON 200 [] (enc_TopologyRecord
                  (case Store_Topology agentID s' of None \<Rightarrow> no_record | Some record \<Rightarrow> record)))))"

definition dashboard :: "server_env \<Rightarrow> handler" where
  "dashboard env r s =
     (s, \<lparr>sv_Status = 200, sv_Header = mput ''Cache-Control'' ''no-store'' (mput ''Content-Type'' ''text/html; charset=utf-8'' []),
          sv_Body = env_page env\<rparr>)"

definition healthz :: handler where
  "healthz r s = (s, writeJSON 200 [] (JObj [(''status'', JStr ''ok'')]))"

section \<open>Routing\<close>

text \<open>
  The mux answers a path that is not in its shortest form with a redirection. A pattern
  for \<open>GET\<close> also serves \<open>HEAD\<close>, whose answer has no body; the pattern of the root matches
  every path, so that a method without a handler is always reported as not allowed.
\<close>

definition clean_path :: "string list \<Rightarrow> bool" where
  "clean_path p \<longleftrightarrow> list_all (\<lambda>x. x \<noteq> []) (butlast p) \<and> list_all (\<lambda>x. x \<noteq> ''.'' \<and> x \<noteq> ''..'') p"

definition route_get :: "server_env \<Rightarrow> string \<Rightarrow> string list \<Rightarrow> handler" where
  "route_get env adminToken p =
     (if p = [''healthz''] then healthz
      else if p = [''api'', ''v2'', ''agent'', ''topology''] then agentTopology
      else if p = [''api'', ''v1'', ''admin'', ''agents''] then adminAgents adminToken
      else dashboard env)"

definition plain_answer :: "int \<Rightarrow> handler" where
  "plain_answer status r s = (s, \<lparr>sv_Status = status, sv_Header = [], sv_Body = []\<rparr>)"

definition topology_target :: "string list \<Rightarrow> string option" where
  "topology_target p =
     (if length p = 6 \<and> take 4 p = [''api'', ''v1'', ''admin'', ''agents''] \<and> p ! 4 \<noteq> [] \<and> p ! 5 = ''topology''
      then Some (p ! 4) else None)"

definition route_request :: "server_env \<Rightarrow> string \<Rightarrow> string \<Rightarrow> string list \<Rightarrow> handler" where
  "route_request env adminToken meth p =
     (if meth = ''GET'' \<or> meth = ''HEAD'' then route_get env adminToken p
      else if meth = ''POST'' \<and> p = [''api'', ''v2'', ''agent'', ''traffic''] then agentTraffic env
      else if meth = ''POST'' \<and> p = [''api'', ''v1'', ''admin'', ''agents''] then adminPutAgent env adminToken
      else if meth = ''PUT'' then
        (case topology_target p of None \<Rightarrow> plain_answer 405 | Some agentID \<Rightarrow> adminPutTopology env adminToken agentID)
      else plain_answer 405)"

definition without_body :: "server_response \<Rightarrow> server_response" where
  "without_body a = a\<lparr>sv_Body := []\<rparr>"

definition ServeHTTP :: "server_env \<Rightarrow> string \<Rightarrow> handler" where
  "ServeHTTP env adminToken r s =
     (if sr_Method r \<noteq> ''CONNECT'' \<and> \<not> clean_path (sr_Path r) then plain_answer 301 r s
      else apsnd (if sr_Method r = ''HEAD'' then without_body else id)
             (route_request env adminToken (sr_Method r) (map segment (sr_Path r)) r s))"

section \<open>The panel as a transport\<close>

datatype fate = Delivered | RequestLost | ResponseLost

record panel_world =
  pw_store :: Store
  pw_calls :: nat

definition status_text :: "int \<Rightarrow> string" where
  "status_text c =
     (if c = 200 then ''OK'' else if c = 201 then ''Created'' else if c = 202 then ''Accepted''
      else if c = 301 then ''Moved Permanently'' else if c = 304 then ''Not Modified'' else if c = 400 then ''Bad Request''
      else if c = 401 then ''Unauthorized'' else if c = 404 then ''Not Found'' else ''Method Not Allowed'')"

definition server_view :: "string \<Rightarrow> request \<Rightarrow> server_request" where
  "server_view base q =
     \<lparr>sr_Method = rq_method q, sr_Path = tl (SplitByte (takeWhile (\<lambda>c. c \<noteq> CHR ''?'') (drop (length base) (rq_url q))) (CHR ''/'')),
      sr_Header = rq_headers q, sr_Body = rq_body q\<rparr>"

definition panel_http ::
  "(nat \<Rightarrow> fate) \<Rightarrow> (nat \<Rightarrow> server_env) \<Rightarrow> string \<Rightarrow> string \<Rightarrow> panel_world transport" where
  "panel_http fates envs adminToken base w q =
     (let n = pw_calls w; w1 = w\<lparr>pw_calls := Suc n\<rparr> in
      if fates n = RequestLost then (w1, None)
      else case ServeHTTP (envs n) adminToken (server_view base q) (pw_store w) of
        (s', a) \<Rightarrow>
          (w1\<lparr>pw_store := s'\<rparr>,
           if fates n = ResponseLost then None
           else Some \<lparr>rs_StatusCode = sv_Status a, rs_Status = Itoa (sv_Status a) @ '' '' @ status_text (sv_Status a), rs_Body = sv_Body a\<rparr>))"

text \<open>Sending one batch again and again.\<close>

fun push_again :: "'w transport \<Rightarrow> ControlPlaneClient \<Rightarrow> TrafficPushRequest \<Rightarrow> nat \<Rightarrow> 'w \<Rightarrow> 'w \<times> cp_error option list" where
  "push_again http c p 0 w = (w, [])"
| "push_again http c p (Suc n) w =
     (case CP_PushTraffic http c p w of (w', e) \<Rightarrow> apsnd (Cons e) (push_again http c p n w'))"

section \<open>Facts about the pieces\<close>

lemma print_json_body:
  assumes "wf_json j"
  shows "json_parse (print_json j @ newline) = Some j"
  using json_value_print [OF assms, of "2 * length (print_json j @ newline) + 2" newline] fuel_bound [OF assms]
  by (simp add: json_parse_def newline_def rest_ok_def skip_ws_def is_ws_def code_def)

lemma decode_first_print:
  assumes "wf_json j"
  shows "json_decode_first (print_json j) = Some j"
  using json_value_print [OF assms, of "2 * length (print_json j) + 2" "[]"] fuel_bound [OF assms]
  by (simp add: json_decode_first_def rest_ok_def)

lemma decode_body_print:
  "wf_json j \<Longrightarrow> length (print_json j) \<le> max_body \<Longrightarrow> decode_body dec (print_json j) = dec j"
  by (simp add: decode_body_def decode_first_print)

text \<open>A token or identifier that survives being sent in a header.\<close>

definition header_value :: "string \<Rightarrow> bool" where
  "header_value v \<longleftrightarrow> v \<noteq> [] \<and> \<not> is_space (hd v) \<and> \<not> is_space (last v)"

lemma space_or_tab: "c \<in> set [CHR 0x20, CHR 0x09] \<Longrightarrow> is_space c"
  by (auto simp: is_space_def code_def)

lemma Trim_header_value [simp]:
  assumes "header_value v"
  shows "Trim v [CHR 0x20, CHR 0x09] = v"
  using assms dropWhile_none [of v "\<lambda>c. c \<in> set [CHR 0x20, CHR 0x09]"] space_or_tab
  unfolding header_value_def Trim_def TrimLeftSet_def TrimRight_def by (metis rev_rev_ident)

lemma TrimSpace_header_value [simp]: "header_value v \<Longrightarrow> TrimSpace v = v"
  using dropWhile_none [of v is_space] by (simp add: header_value_def TrimSpace_def)

lemma bearer_value: "header_value v \<Longrightarrow> header_value (''Bearer '' @ v)"
  by (auto simp: header_value_def is_space_def code_def)

lemma header_names [simp]:
  "EqualFold ''Authorization'' ''Authorization''" "EqualFold ''If-None-Match'' ''If-None-Match''"
  "EqualFold ''Idempotency-Key'' ''Idempotency-Key''" "\<not> EqualFold ''X-Agent-ID'' ''Authorization''"
  "\<not> EqualFold ''Authorization'' ''If-None-Match''" "\<not> EqualFold ''X-Agent-ID'' ''If-None-Match''"
  "\<not> EqualFold ''Content-Type'' ''Authorization''" "\<not> EqualFold ''Content-Type'' ''Idempotency-Key''"
  "\<not> EqualFold ''Idempotency-Key'' ''Authorization''" "\<not> EqualFold ''Authorization'' ''Idempotency-Key''"
  by code_simp+

lemma Header_Get_Cons [simp]:
  "Header_Get ((k, v) # hs) name = (if EqualFold k name then Trim v [CHR 0x20, CHR 0x09] else Header_Get hs name)"
  by (simp add: Header_Get_def)

lemma Header_Get_Nil [simp]: "Header_Get [] name = []"
  by (simp add: Header_Get_def)

definition agent_path :: "string \<Rightarrow> string list" where
  "agent_path op = [''api'', ''v2'', ''agent'', op]"

lemma agent_paths:
  "tl (SplitByte (takeWhile (\<lambda>c. c \<noteq> CHR ''?'') topology_path) (CHR ''/'')) = agent_path ''topology''"
  "tl (SplitByte (takeWhile (\<lambda>c. c \<noteq> CHR ''?'') traffic_path) (CHR ''/'')) = agent_path ''traffic''"
  "map segment (agent_path ''topology'') = agent_path ''topology''" "map segment (agent_path ''traffic'') = agent_path ''traffic''"
  "clean_path (agent_path ''topology'')" "clean_path (agent_path ''traffic'')"
  by code_simp+

lemma serve_agent_topology:
  assumes "sr_Method r = ''GET''" "sr_Path r = agent_path ''topology''"
  shows "ServeHTTP env tok r s = agentTopology r s"
  using assms agent_paths by (simp add: ServeHTTP_def route_request_def route_get_def agent_path_def apsnd_def map_prod_def)

lemma serve_agent_traffic:
  assumes "sr_Method r = ''POST''" "sr_Path r = agent_path ''traffic''"
  shows "ServeHTTP env tok r s = agentTraffic env r s"
  using assms agent_paths by (simp add: ServeHTTP_def route_request_def agent_path_def apsnd_def map_prod_def)

lemma fold_book_other:
  "a' \<noteq> a \<Longrightarrow> mget0 zero_usage (fold (book_item a) is m) (usage_key a' ty n u) = mget0 zero_usage m (usage_key a' ty n u)"
  by (induction "is" arbitrary: m) (simp_all add: book_item_get Let_def)

text \<open>What a request authenticated as an agent may change: that agent's accounts.\<close>

definition only_agent :: "string \<Rightarrow> Store \<Rightarrow> Store \<Rightarrow> bool" where
  "only_agent a s s' \<longleftrightarrow> so_topologies s' = so_topologies s \<and>
     (\<forall>a' ty n u. a' = a \<or> Store_Usage a' ty n u s' = Store_Usage a' ty n u s) \<and>
     (\<forall>a'. a' = a \<or> mget (so_agents s') a' = mget (so_agents s) a')"

lemma only_agent_refl: "only_agent a s s"
  by (simp add: only_agent_def)

lemma ApplyTraffic_only: "only_agent a s (fst (ApplyTraffic now a p s))"
  by (auto simp: ApplyTraffic_def only_agent_def Let_def Store_Usage_def fold_book_other split: option.splits)

lemma requireAgent_only:
  assumes "\<And>g. AgentBySecret (bearer r) s = Some g \<Longrightarrow> only_agent (ag_ID g) s (fst (k g))"
  shows "fst (requireAgent r s k) = s \<or>
    (\<exists>g. AgentBySecret (bearer r) s = Some g \<and> only_agent (ag_ID g) s (fst (requireAgent r s k)))"
  using assms by (auto simp: requireAgent_def split: option.splits)

lemma agentTraffic_only:
  "fst (agentTraffic env r s) = s \<or>
   (\<exists>g. AgentBySecret (bearer r) s = Some g \<and> only_agent (ag_ID g) s (fst (agentTraffic env r s)))"
  unfolding agentTraffic_def
proof (rule requireAgent_only)
  fix g
  show "only_agent (ag_ID g) s (fst (case decode_body dec_TrafficPushRequest (sr_Body r) of
        None \<Rightarrow> (s, writeError 400 ''invalid JSON payload'')
      | Some payload \<Rightarrow>
          let key = Header_Get (sr_Header r) ''Idempotency-Key'' in
          if key \<noteq> [] \<and> tq_BatchID payload \<noteq> [] \<and> key \<noteq> tq_BatchID payload
          then (s, writeError 400 ''idempotency key does not match batch_id'')
          else (case ApplyTraffic (env_now env) (ag_ID g) payload s of
                  (s', Inl e) \<Rightarrow> (s', writeError 400 (env_message env e))
                | (s', Inr applied) \<Rightarrow> (s', writeJSON 202 [] (JObj [(''applied'', JBool applied)])))))"
    using ApplyTraffic_only [of "ag_ID g" s "env_now env"]
    by (auto simp: Let_def only_agent_refl split: option.splits prod.splits sum.splits) (metis fst_conv)+
qed

lemma agentTopology_keeps: "fst (agentTopology r s) = s"
  by (auto simp: agentTopology_def requireAgent_def Let_def split: option.splits)

lemma requireAdmin_keeps: "\<not> equal_token (bearer r) tok \<Longrightarrow> fst (requireAdmin tok r s k) = s"
  by (simp add: requireAdmin_def)

lemma route_get_keeps: "fst (route_get env tok p r s) = s"
  by (simp add: route_get_def agentTopology_keeps healthz_def dashboard_def adminAgents_def requireAdmin_def)

lemma route_request_only:
  assumes "\<not> equal_token (bearer r) tok"
  shows "fst (route_request env tok m p r s) = s \<or>
    (\<exists>g. AgentBySecret (bearer r) s = Some g \<and> only_agent (ag_ID g) s (fst (route_request env tok m p r s)))"
  using agentTraffic_only [of env r s] assms
  by (auto simp: route_request_def route_get_keeps adminPutAgent_def adminPutTopology_def requireAdmin_keeps plain_answer_def
      split: option.splits)

text \<open>The store without the agents' secrets.\<close>

definition strip_secrets :: "Store \<Rightarrow> Store" where
  "strip_secrets s = s\<lparr>so_agents := mmap (\<lambda>k. publicAgent) (so_agents s)\<rparr>"

definition same_public :: "server_request \<Rightarrow> Store \<Rightarrow> Store \<Rightarrow> bool" where
  "same_public r s s' \<longleftrightarrow> strip_secrets s = strip_secrets s' \<and>
     map_option publicAgent (AgentBySecret (bearer r) s) = map_option publicAgent (AgentBySecret (bearer r) s')"

lemma same_public_fields:
  assumes "same_public r s s'"
  shows "Agents s = Agents s'" "so_topologies s = so_topologies s'" "so_batches s = so_batches s'"
    "map_option publicAgent (mget (so_agents s) a) = map_option publicAgent (mget (so_agents s') a)"
    "map_option ag_ID (AgentBySecret (bearer r) s) = map_option ag_ID (AgentBySecret (bearer r) s')"
proof -
  have e: "strip_secrets s = strip_secrets s'" using assms by (simp add: same_public_def)
  have m: "mmap (\<lambda>k. publicAgent) (so_agents s) = mmap (\<lambda>k. publicAgent) (so_agents s')"
    and rest: "so_topologies s = so_topologies s'" "so_batches s = so_batches s'"
    using arg_cong [OF e, of so_agents] arg_cong [OF e, of so_topologies] arg_cong [OF e, of so_batches]
    by (simp_all add: strip_secrets_def)
  show "so_topologies s = so_topologies s'" "so_batches s = so_batches s'" by (fact rest)+
  have "Agents t = map snd (mmap (\<lambda>k. publicAgent) (so_agents t))" for t
    by (simp add: Agents_def mmap_def comp_def split_beta)
  then show "Agents s = Agents s'" using m by simp
  show "map_option publicAgent (mget (so_agents s) a) = map_option publicAgent (mget (so_agents s') a)"
    using arg_cong [OF m, of "\<lambda>x. mget x a"] by (simp only: mget_mmap)
  have "ag_ID \<circ> publicAgent = ag_ID" by (auto simp: publicAgent_def)
  then show "map_option ag_ID (AgentBySecret (bearer r) s) = map_option ag_ID (AgentBySecret (bearer r) s')"
    using arg_cong [of _ _ "map_option ag_ID"] assms unfolding same_public_def by (metis option.map_comp)
qed

lemma requireAgent_public:
  assumes "same_public r s s'" and "\<And>g g'. ag_ID g = ag_ID g' \<Longrightarrow> snd (k g) = snd (k' g')"
  shows "snd (requireAgent r s k) = snd (requireAgent r s' k')"
  using same_public_fields(5) [OF assms(1)] assms(2)
  by (cases "AgentBySecret (bearer r) s"; cases "AgentBySecret (bearer r) s'") (auto simp: requireAgent_def)

lemma ApplyTraffic_public:
  assumes "same_public r s s'"
  shows "snd (ApplyTraffic now a p s) = snd (ApplyTraffic now a p s')"
  using same_public_fields(2,3) [OF assms] same_public_fields(4) [OF assms, of a]
  by (cases "mget (so_agents s) a"; cases "mget (so_agents s') a") (auto simp: ApplyTraffic_def Let_def split: option.splits)

lemma snd_case_result: "snd (case x of (s', Inl e) \<Rightarrow> (s', f e) | (s', Inr y) \<Rightarrow> (s', g y)) = (case snd x of Inl e \<Rightarrow> f e | Inr y \<Rightarrow> g y)"
  by (simp split: prod.split sum.split)

lemma agentTraffic_public:
  assumes "same_public r s s'"
  shows "snd (agentTraffic env r s) = snd (agentTraffic env r s')"
  unfolding agentTraffic_def
  by (rule requireAgent_public [OF assms])
    (simp add: Let_def snd_case_result ApplyTraffic_public [OF assms] split: option.split)

lemma agentTopology_public:
  assumes "same_public r s s'"
  shows "snd (agentTopology r s) = snd (agentTopology r s')"
  unfolding agentTopology_def
  by (rule requireAgent_public [OF assms])
    (simp add: Store_Topology_def same_public_fields(2) [OF assms] Let_def split: option.split)

lemma admin_public:
  assumes "same_public r s s'"
  shows "snd (adminAgents tok r s) = snd (adminAgents tok r s')"
    "snd (adminPutAgent env tok r s) = snd (adminPutAgent env tok r s')"
    "snd (adminPutTopology env tok a r s) = snd (adminPutTopology env tok a r s')"
proof -
  show "snd (adminAgents tok r s) = snd (adminAgents tok r s')"
    using same_public_fields(1) [OF assms] by (simp add: adminAgents_def requireAdmin_def)
  show "snd (adminPutAgent env tok r s) = snd (adminPutAgent env tok r s')"
    by (simp add: adminPutAgent_def requireAdmin_def PutAgent_def Let_def split: option.split)
  have "mhas (so_agents s) a = mhas (so_agents s') a" using same_public_fields(4) [OF assms, of a] unfolding mhas_def by (metis option.map_disc_iff)
  then show "snd (adminPutTopology env tok a r s) = snd (adminPutTopology env tok a r s')"
    using same_public_fields(2) [OF assms]
    by (simp add: adminPutTopology_def requireAdmin_def PutTopology_def Store_Topology_def split: option.split)
qed

lemma fetch_request:
  assumes "cp_BaseURL c \<noteq> []" and "header_value (cp_Token c)" and "etag = [] \<or> header_value etag"
  shows "\<exists>q. (\<forall>w. FetchTopology http c etag w =
      (case http w q of (w', None) \<Rightarrow> (w', Inl CP_Transport) | (w', Some resp) \<Rightarrow> (w', topology_of_response resp))) \<and>
    sr_Method (server_view (cp_BaseURL c) q) = ''GET'' \<and> sr_Path (server_view (cp_BaseURL c) q) = agent_path ''topology'' \<and>
    bearer (server_view (cp_BaseURL c) q) = cp_Token c \<and>
    Header_Get (sr_Header (server_view (cp_BaseURL c) q)) ''If-None-Match'' = etag"
proof -
  obtain hs where hs: "requestHeaders c [] = Inr hs" using assms(1) by (auto simp: requestHeaders_def Let_def)
  have ne: "cp_Token c \<noteq> []" using assms(2) by (simp add: header_value_def)
  define hs' where "hs' = (if etag \<noteq> [] then mput ''If-None-Match'' etag hs else hs)"
  have "Header_Get hs' ''Authorization'' = ''Bearer '' @ cp_Token c" "Header_Get hs' ''If-None-Match'' = etag"
    using hs assms ne bearer_value [OF assms(2)] by (auto simp: hs'_def requestHeaders_def Let_def split: if_splits)
  moreover have "TrimPrefix (''Bearer '' @ cp_Token c) ''Bearer '' = cp_Token c" by (simp add: TrimPrefix_def)
  ultimately show ?thesis
    using assms(2) agent_paths(1)
    by (intro exI [of _ "\<lparr>rq_method = ''GET'', rq_url = cp_BaseURL c @ topology_path, rq_headers = hs', rq_body = []\<rparr>"])
      (simp add: FetchTopology_def hs hs'_def server_view_def bearer_def)
qed

lemma hex_encode_value:
  assumes "bs \<noteq> []"
  shows "header_value (hex_encode bs)"
proof -
  have d: "\<not> is_space (hex_digit (code b div 16)) \<and> \<not> is_space (hex_digit (code b mod 16))" for b
  proof -
    have "code b div 16 < 16" using code_less [of b] by (intro less_mult_imp_div_less) simp
    then show ?thesis by (simp add: hex_digit_def is_space_def)
  qed
  have "list_all (\<lambda>c. \<not> is_space c) (hex_encode bs)" using d by (induction bs) (auto simp: hex_encode_def)
  moreover have "hex_encode bs \<noteq> []" using assms by (cases bs) (simp_all add: hex_encode_def)
  ultimately show ?thesis by (simp add: header_value_def list_all_iff)
qed

lemma topology_answer:
  assumes "Validate (ts_Topology x) = None" "ports_ok (ts_Topology x)" "ts_SchemaVersion x = 1" "header_value (ts_Revision x)"
  shows "topology_of_response \<lparr>rs_StatusCode = 200, rs_Status = st, rs_Body = print_json (enc_TopologyResponse x) @ newline\<rparr> = Inr (Some x)"
  using assms print_json_body [OF wf_enc_TopologyResponse, of x] dec_TopologyResponse_enc [of x]
  by (simp add: topology_of_response_def status_2xx_iff is_int64_def) (simp add: header_value_def)

text \<open>A batch the client can send, and a token that stands for one registered agent.\<close>

definition sendable :: "TrafficPushRequest \<Rightarrow> bool" where
  "sendable p \<longleftrightarrow> header_value (tq_BatchID p) \<and> tq_Items p \<noteq> [] \<and> \<not> list_ex bad_item (tq_Items p) \<and> list_all item_int64 (tq_Items p) \<and>
     length (print_json (enc_TrafficPushRequest p)) \<le> max_body"

definition authenticates :: "string \<Rightarrow> string \<Rightarrow> Store \<Rightarrow> bool" where
  "authenticates tok a s \<longleftrightarrow> wf_map (so_agents s) \<and> list_ex (\<lambda>(k, g). ag_Secret g = tok) (so_agents s) \<and>
     list_all (\<lambda>(k, g). ag_Secret g = tok \<longrightarrow> k = a \<and> ag_ID g = a) (so_agents s)"

lemma authenticates_find:
  assumes "authenticates tok a s"
  shows "\<exists>g. AgentBySecret tok s = Some g \<and> ag_ID g = a \<and> ag_Secret g = tok \<and> mget (so_agents s) a = Some g"
proof -
  obtain k x where "(k, x) \<in> set (so_agents s)" "ag_Secret x = tok" using assms by (auto simp: authenticates_def list_ex_iff)
  then have "x \<in> set (map snd (so_agents s))" "ag_Secret x = tok" by force+
  then have "AgentBySecret tok s \<noteq> None" unfolding AgentBySecret_def find_None_iff by blast
  then obtain g where g: "AgentBySecret tok s = Some g" by blast
  then have "g \<in> snd ` set (so_agents s)" "ag_Secret g = tok"
    by (auto simp: AgentBySecret_def find_Some_iff in_set_conv_nth) (metis imageI nth_mem snd_conv surj_pair)
  then show ?thesis
    using g assms by (auto simp: authenticates_def list_all_iff mget_in_set)
qed

lemma authenticates_seen:
  assumes "authenticates tok a s" and "mget (so_agents s) a = Some g"
  shows "authenticates tok a (s\<lparr>so_usage := u, so_batches := b, so_agents := mput a (g\<lparr>ag_SeenAt := now\<rparr>) (so_agents s)\<rparr>)"
proof -
  have g: "ag_ID g = a" "ag_Secret g = tok" using authenticates_find [OF assms(1)] assms(2) by auto
  have w: "wf_map (so_agents s)" using assms(1) by (simp add: authenticates_def)
  let ?m = "mput a (g\<lparr>ag_SeenAt := now\<rparr>) (so_agents s)"
  have mem: "(k, x) \<in> set ?m \<longleftrightarrow> (if k = a then x = g\<lparr>ag_SeenAt := now\<rparr> else (k, x) \<in> set (so_agents s))" for k x
    using mget_in_set [of ?m k x] mget_in_set [OF w, of k x] w by auto
  have "k = a \<and> ag_ID x = a" if "(k, x) \<in> set ?m" "ag_Secret x = tok" for k x
    using that mem [of k x] g(1) assms(1) by (cases "k = a") (auto simp: authenticates_def list_all_iff)
  then have "list_all (\<lambda>(k, x). ag_Secret x = tok \<longrightarrow> k = a \<and> ag_ID x = a) ?m" unfolding list_all_iff by blast
  moreover have "list_ex (\<lambda>(k, x). ag_Secret x = tok) ?m"
    using g mem [of a "g\<lparr>ag_SeenAt := now\<rparr>"] by (auto simp: list_ex_iff intro!: bexI [of _ "(a, g\<lparr>ag_SeenAt := now\<rparr>)"])
  ultimately show ?thesis using w by (simp add: authenticates_def)
qed

lemma push_request:
  assumes "cp_BaseURL c \<noteq> []" and "header_value (cp_Token c)" and "sendable p"
  shows "\<exists>q. (\<forall>w. CP_PushTraffic http c p w =
      (case http w q of (w', None) \<Rightarrow> (w', Some CP_Transport)
       | (w', Some resp) \<Rightarrow> (w', if status_2xx resp then None else Some (CP_Status (rs_StatusCode resp))))) \<and>
    sr_Method (server_view (cp_BaseURL c) q) = ''POST'' \<and> sr_Path (server_view (cp_BaseURL c) q) = agent_path ''traffic'' \<and>
    bearer (server_view (cp_BaseURL c) q) = cp_Token c \<and>
    Header_Get (sr_Header (server_view (cp_BaseURL c) q)) ''Idempotency-Key'' = tq_BatchID p \<and>
    sr_Body (server_view (cp_BaseURL c) q) = print_json (enc_TrafficPushRequest p)"
proof -
  have b: "header_value (tq_BatchID p)" "tq_Items p \<noteq> []" "find bad_item (tq_Items p) = None"
    using assms(3) by (auto simp: sendable_def list_ex_iff find_None_iff)
  obtain hs where hs: "requestHeaders c [(''Content-Type'', ''application/json''), (''Idempotency-Key'', tq_BatchID p)] = Inr hs"
    using assms(1) by (auto simp: requestHeaders_def Let_def)
  have ne: "cp_Token c \<noteq> []" "tq_BatchID p \<noteq> []" using assms(2) b(1) by (auto simp: header_value_def)
  have "Header_Get hs ''Authorization'' = ''Bearer '' @ cp_Token c" "Header_Get hs ''Idempotency-Key'' = tq_BatchID p"
    using hs assms(1) b(1) ne bearer_value [OF assms(2)] by (auto simp: requestHeaders_def Let_def split: if_splits)
  moreover have "TrimPrefix (''Bearer '' @ cp_Token c) ''Bearer '' = cp_Token c" by (simp add: TrimPrefix_def)
  ultimately show ?thesis
    using assms(2) agent_paths(2) b ne
    by (intro exI [of _ "\<lparr>rq_method = ''POST'', rq_url = cp_BaseURL c @ traffic_path, rq_headers = hs,
          rq_body = print_json (enc_TrafficPushRequest p)\<rparr>"])
      (simp add: CP_PushTraffic_def hs server_view_def bearer_def)
qed

lemma traffic_answer:
  assumes "sr_Method r = ''POST''" "sr_Path r = agent_path ''traffic''" "bearer r = tok"
    and "Header_Get (sr_Header r) ''Idempotency-Key'' = tq_BatchID p" "sr_Body r = print_json (enc_TrafficPushRequest p)"
    and "sendable p" and "authenticates tok a s" and "ApplyTraffic (env_now env) a p s = (s', Inr applied)"
  shows "ServeHTTP env adm r s = (s', writeJSON 202 [] (JObj [(''applied'', JBool applied)]))"
proof -
  obtain g where "AgentBySecret tok s = Some g" "ag_ID g = a" using authenticates_find [OF assms(7)] by blast
  moreover have "decode_body dec_TrafficPushRequest (sr_Body r) = Some p"
    using assms(5,6) by (simp add: decode_body_print wf_enc_TrafficPushRequest dec_TrafficPushRequest_enc sendable_def)
  ultimately show ?thesis
    using assms(3,4,8) by (simp add: serve_agent_traffic [OF assms(1,2)] agentTraffic_def requireAgent_def)
qed

text \<open>The batch was accepted before, or can be accepted now.\<close>

definition batch_ready :: "string \<Rightarrow> TrafficPushRequest \<Rightarrow> Store \<Rightarrow> bool" where
  "batch_ready a p s \<longleftrightarrow> mhas (so_batches s) \<lparr>bk_agentID = a, bk_batchID = tq_BatchID p\<rparr> \<or>
     (case Store_Topology a s of None \<Rightarrow> False | Some r \<Rightarrow> check_items a (owned_keys r) (tq_Items p) = None)"

lemma ApplyTraffic_ready:
  assumes "authenticates tok a s" and "batch_ready a p s" and "tq_BatchID p \<noteq> []"
  shows "\<exists>s'. ApplyTraffic now a p s = (s', Inr (\<not> mhas (so_batches s) \<lparr>bk_agentID = a, bk_batchID = tq_BatchID p\<rparr>)) \<and>
    authenticates tok a s' \<and> mhas (so_batches s') \<lparr>bk_agentID = a, bk_batchID = tq_BatchID p\<rparr> \<and>
    so_usage s' = (if mhas (so_batches s) \<lparr>bk_agentID = a, bk_batchID = tq_BatchID p\<rparr> then so_usage s
      else fold (book_item a) (tq_Items p) (so_usage s))"
proof -
  obtain g where g: "mget (so_agents s) a = Some g" using authenticates_find [OF assms(1)] by blast
  show ?thesis
    using assms g authenticates_seen [OF assms(1) g] unfolding batch_ready_def
    by (cases "Store_Topology a s") (auto simp: ApplyTraffic_def Let_def Store_Topology_def)
qed

lemma push_once:
  assumes "cp_BaseURL c \<noteq> []" and "header_value (cp_Token c)" and "sendable p"
    and "authenticates (cp_Token c) a (pw_store w)" and "batch_ready a p (pw_store w)"
  shows "\<exists>s'. CP_PushTraffic (panel_http fates envs adm (cp_BaseURL c)) c p w =
      (w\<lparr>pw_calls := Suc (pw_calls w), pw_store := (if fates (pw_calls w) = RequestLost then pw_store w else s')\<rparr>,
       if fates (pw_calls w) = Delivered then None else Some CP_Transport) \<and>
    authenticates (cp_Token c) a s' \<and> mhas (so_batches s') \<lparr>bk_agentID = a, bk_batchID = tq_BatchID p\<rparr> \<and>
    so_usage s' = (if mhas (so_batches (pw_store w)) \<lparr>bk_agentID = a, bk_batchID = tq_BatchID p\<rparr> then so_usage (pw_store w)
      else fold (book_item a) (tq_Items p) (so_usage (pw_store w)))"
proof -
  let ?http = "panel_http fates envs adm (cp_BaseURL c)"
  obtain q where q: "\<And>w. CP_PushTraffic ?http c p w =
      (case ?http w q of (w', None) \<Rightarrow> (w', Some CP_Transport)
       | (w', Some resp) \<Rightarrow> (w', if status_2xx resp then None else Some (CP_Status (rs_StatusCode resp))))"
    and v: "sr_Method (server_view (cp_BaseURL c) q) = ''POST''" "sr_Path (server_view (cp_BaseURL c) q) = agent_path ''traffic''"
      "bearer (server_view (cp_BaseURL c) q) = cp_Token c" "Header_Get (sr_Header (server_view (cp_BaseURL c) q)) ''Idempotency-Key'' = tq_BatchID p"
      "sr_Body (server_view (cp_BaseURL c) q) = print_json (enc_TrafficPushRequest p)"
    using push_request [OF assms(1-3), of ?http] by blast
  have "tq_BatchID p \<noteq> []" using assms(3) by (simp add: sendable_def header_value_def)
  then obtain s' where s': "ApplyTraffic (env_now (envs (pw_calls w))) a p (pw_store w) =
      (s', Inr (\<not> mhas (so_batches (pw_store w)) \<lparr>bk_agentID = a, bk_batchID = tq_BatchID p\<rparr>))"
    and rest: "authenticates (cp_Token c) a s'" "mhas (so_batches s') \<lparr>bk_agentID = a, bk_batchID = tq_BatchID p\<rparr>"
      "so_usage s' = (if mhas (so_batches (pw_store w)) \<lparr>bk_agentID = a, bk_batchID = tq_BatchID p\<rparr> then so_usage (pw_store w)
        else fold (book_item a) (tq_Items p) (so_usage (pw_store w)))"
    using ApplyTraffic_ready [OF assms(4,5)] by blast
  note served = traffic_answer [OF v assms(3,4) s', of adm]
  have "CP_PushTraffic ?http c p w =
      (w\<lparr>pw_calls := Suc (pw_calls w), pw_store := (if fates (pw_calls w) = RequestLost then pw_store w else s')\<rparr>,
       if fates (pw_calls w) = Delivered then None else Some CP_Transport)"
    by (cases "fates (pw_calls w)") (simp_all add: q panel_http_def served writeJSON_def status_2xx_iff Let_def)
  then show ?thesis using rest by blast
qed

lemma push_again_billed:
  assumes "cp_BaseURL c \<noteq> []" and "header_value (cp_Token c)" and "sendable p"
    and "authenticates (cp_Token c) a (pw_store w)" and "batch_ready a p (pw_store w)"
    and "push_again (panel_http fates envs adm (cp_BaseURL c)) c p n w = (w', es)"
  shows "es = map (\<lambda>i. if fates (pw_calls w + i) = Delivered then None else Some CP_Transport) [0..<n] \<and>
    so_usage (pw_store w') =
      (if \<not> mhas (so_batches (pw_store w)) \<lparr>bk_agentID = a, bk_batchID = tq_BatchID p\<rparr> \<and> (\<exists>i<n. fates (pw_calls w + i) \<noteq> RequestLost)
       then fold (book_item a) (tq_Items p) (so_usage (pw_store w)) else so_usage (pw_store w))"
  using assms(4-6)
proof (induction n arbitrary: w w' es)
  case (Suc n)
  let ?seen = "\<lambda>s. mhas (so_batches s) \<lparr>bk_agentID = a, bk_batchID = tq_BatchID p\<rparr>"
  define w1 where "w1 = fst (CP_PushTraffic (panel_http fates envs adm (cp_BaseURL c)) c p w)"
  obtain s' where one: "CP_PushTraffic (panel_http fates envs adm (cp_BaseURL c)) c p w =
      (w1, if fates (pw_calls w) = Delivered then None else Some CP_Transport)"
    and w1: "w1 = w\<lparr>pw_calls := Suc (pw_calls w), pw_store := (if fates (pw_calls w) = RequestLost then pw_store w else s')\<rparr>"
    and s': "authenticates (cp_Token c) a s'" "?seen s'"
      "so_usage s' = (if ?seen (pw_store w) then so_usage (pw_store w) else fold (book_item a) (tq_Items p) (so_usage (pw_store w)))"
    using push_once [OF assms(1-3) Suc.prems(1,2), of fates envs adm] by (auto simp: w1_def)
  obtain es' where es': "push_again (panel_http fates envs adm (cp_BaseURL c)) c p n w1 = (w', es')"
    and es: "es = (if fates (pw_calls w) = Delivered then None else Some CP_Transport) # es'"
    using Suc.prems(3) one by (auto simp: apsnd_def map_prod_def split: prod.splits)
  have a1: "authenticates (cp_Token c) a (pw_store w1)" using Suc.prems(1) s'(1) by (simp add: w1)
  have b1: "batch_ready a p (pw_store w1)" using Suc.prems(2) s'(2) by (simp add: w1 batch_ready_def)
  note IH = Suc.IH [OF a1 b1 es']
  have "es = map (\<lambda>i. if fates (pw_calls w + i) = Delivered then None else Some CP_Transport) [0..<Suc n]"
    using IH by (simp add: es w1 upt_conv_Cons flip: map_Suc_upt del: upt_Suc)
  moreover have "(\<exists>i<Suc n. fates (pw_calls w + i) \<noteq> RequestLost) \<longleftrightarrow>
      fates (pw_calls w) \<noteq> RequestLost \<or> (\<exists>i<n. fates (Suc (pw_calls w) + i) \<noteq> RequestLost)"
    by (auto simp: less_Suc_eq_0_disj)
  ultimately show ?case using IH s'(2,3) by (cases "fates (pw_calls w) = RequestLost") (simp_all add: w1 cong: if_cong)
qed simp

section \<open>Properties\<close>


text \<open>
  C27: No answer depends on a secret. Two panels whose stores differ in the secrets of the
  agents alone, and that recognise the same agent in a request or both none, give the same
  answer to it, whatever the request is.
\<close>

theorem answers_hide_secrets:
  assumes "same_public r s s'"
  shows "snd (ServeHTTP env adminToken r s) = snd (ServeHTTP env adminToken r s')"
  using agentTraffic_public [OF assms] agentTopology_public [OF assms] admin_public [OF assms]
  by (simp add: ServeHTTP_def route_request_def route_get_def plain_answer_def healthz_def dashboard_def split: option.split)

definition edge_agent :: "string \<Rightarrow> Agent" where
  "edge_agent secret = \<lparr>ag_ID = ''edge'', ag_Name = [], ag_Secret = secret, ag_CreatedAt = zero_time, ag_SeenAt = zero_time\<rparr>"

definition edge_store :: "string \<Rightarrow> Store" where
  "edge_store secret = NewStore\<lparr>so_agents := [(''edge'', edge_agent secret)]\<rparr>"

definition list_request :: server_request where
  "list_request = \<lparr>sr_Method = ''GET'', sr_Path = [''api'', ''v1'', ''admin'', ''agents''],
     sr_Header = [(''Authorization'', ''Bearer root'')], sr_Body = []\<rparr>"

theorem answers_hide_secrets_witness:
  "edge_store ''s3cret'' \<noteq> edge_store ''other'' \<and>
   (\<forall>env. snd (ServeHTTP env ''root'' list_request (edge_store ''s3cret'')) = snd (ServeHTTP env ''root'' list_request (edge_store ''other'')))"
proof -
  have "bearer list_request = ''root''" by code_simp
  then have "same_public list_request (edge_store ''s3cret'') (edge_store ''other'')"
    by (simp add: same_public_def strip_secrets_def edge_store_def edge_agent_def NewStore_def AgentBySecret_def mmap_def publicAgent_def)
  from answers_hide_secrets [OF this] show ?thesis by (simp add: edge_store_def edge_agent_def NewStore_def)
qed

text \<open>
  C25: The topology an agent fetches is the one assigned to it. After an administrator's
  assignment is stored, the client fetching from the panel over the network receives
  exactly that topology with its revision, through both JSON encodings, as often as it
  asks with another entity tag; asking with the current tag reports no change.
\<close>

theorem fetched_topology_is_assigned:
  assumes "PutTopology sha256 rnd now a t s = (s', None)" and "AgentBySecret (cp_Token c) s' = Some g" and "ag_ID g = a"
    and "header_value (cp_Token c)" and "cp_BaseURL c \<noteq> []" and "ports_ok t" and "16 \<le> length rnd"
    and "pw_store w = s'" and "fates (pw_calls w) = Delivered"
    and "etag = [] \<or> header_value etag"
  shows "\<exists>r. Store_Topology a s' = Some r \<and> tr_Topology r = t \<and> tr_Revision r = randomID rnd \<and>
    FetchTopology (panel_http fates envs adminToken (cp_BaseURL c)) c etag w =
      (w\<lparr>pw_calls := Suc (pw_calls w)\<rparr>,
       Inr (if etag = tr_ETag r then None else Some \<lparr>ts_SchemaVersion = 1, ts_Revision = randomID rnd, ts_Topology = t\<rparr>))"
proof -
  define r where "r = topology_record sha256 rnd now t"
  have v: "Validate t = None" and s': "Store_Topology a s' = Some r"
    using assms(1) by (auto simp: PutTopology_def r_def Store_Topology_def split: option.splits if_splits)
  have r: "tr_Topology r = t" "tr_Revision r = randomID rnd" "tr_ETag r \<noteq> []" by (auto simp: r_def topology_record_def Let_def)
  have "rnd \<noteq> []" using assms(7) by auto
  then have hv: "header_value (randomID rnd)" unfolding randomID_def by (intro hex_encode_value) simp
  obtain q where q: "\<And>w. FetchTopology (panel_http fates envs adminToken (cp_BaseURL c)) c etag w =
      (case panel_http fates envs adminToken (cp_BaseURL c) w q of (w', None) \<Rightarrow> (w', Inl CP_Transport)
       | (w', Some resp) \<Rightarrow> (w', topology_of_response resp))"
    and view: "sr_Method (server_view (cp_BaseURL c) q) = ''GET''" "sr_Path (server_view (cp_BaseURL c) q) = agent_path ''topology''"
      "bearer (server_view (cp_BaseURL c) q) = cp_Token c" "Header_Get (sr_Header (server_view (cp_BaseURL c) q)) ''If-None-Match'' = etag"
    using fetch_request [OF assms(5,4,10)] by blast
  have "FetchTopology (panel_http fates envs adminToken (cp_BaseURL c)) c etag w =
      (w\<lparr>pw_calls := Suc (pw_calls w)\<rparr>,
       Inr (if etag = tr_ETag r then None else Some \<lparr>ts_SchemaVersion = 1, ts_Revision = randomID rnd, ts_Topology = t\<rparr>))"
    using assms(2,3,6,8,9) s' v hv topology_answer [of "\<lparr>ts_SchemaVersion = 1, ts_Revision = randomID rnd, ts_Topology = t\<rparr>"]
    by (simp add: q panel_http_def serve_agent_topology [OF view(1,2)] agentTopology_def requireAgent_def view(3,4) r writeJSON_def
        topology_of_response_def [of "\<lparr>rs_StatusCode = 304, rs_Status = _, rs_Body = _\<rparr>"] Let_def)
  then show ?thesis using s' r by blast
qed

definition edge_assigned :: Store where
  "edge_assigned = fst (PutTopology id (replicate 16 CHR ''r'') zero_time ''edge'' sample_topology (edge_store ''s3cret''))"

definition edge_client :: ControlPlaneClient where
  "edge_client = \<lparr>cp_BaseURL = ''http://panel'', cp_Token = ''s3cret'', cp_AgentID = ''edge''\<rparr>"

lemma edge_assigned_put:
  "PutTopology id (replicate 16 CHR ''r'') zero_time ''edge'' sample_topology (edge_store ''s3cret'') = (edge_assigned, None)"
  by (simp add: edge_assigned_def PutTopology_def sample_topology_valid edge_store_def mhas_def)

lemma edge_assigned_agents: "so_agents edge_assigned = [(''edge'', edge_agent ''s3cret'')]" "so_usage edge_assigned = []"
    "so_batches edge_assigned = []"
  by (simp_all add: edge_assigned_def PutTopology_def sample_topology_valid edge_store_def mhas_def NewStore_def)

lemma edge_client_values: "header_value (cp_Token edge_client)" "cp_BaseURL edge_client \<noteq> []"
  by code_simp+

theorem fetched_topology_is_assigned_witness:
  "\<forall>envs. FetchTopology (panel_http (\<lambda>_. Delivered) envs ''root'' ''http://panel'') edge_client [] \<lparr>pw_store = edge_assigned, pw_calls = 0\<rparr> =
     (\<lparr>pw_store = edge_assigned, pw_calls = 1\<rparr>,
      Inr (Some \<lparr>ts_SchemaVersion = 1, ts_Revision = randomID (replicate 16 CHR ''r''), ts_Topology = sample_topology\<rparr>))"
proof
  fix envs
  have "AgentBySecret (cp_Token edge_client) edge_assigned = Some (edge_agent ''s3cret'')"
    by (simp add: AgentBySecret_def edge_assigned_agents edge_client_def edge_agent_def)
  moreover have "ports_ok sample_topology" by (simp add: ports_ok_def sample_topology_def direct_out_def is_int64_def)
  moreover have "ag_ID (edge_agent ''s3cret'') = ''edge''" by (simp add: edge_agent_def)
  moreover have "cp_BaseURL edge_client = ''http://panel''" by (simp add: edge_client_def)
  moreover have "tr_ETag r \<noteq> []" if "Store_Topology ''edge'' edge_assigned = Some r" for r
    using that by (auto simp: edge_assigned_def PutTopology_def sample_topology_valid edge_store_def mhas_def Store_Topology_def
        topology_record_def Let_def)
  ultimately show "FetchTopology (panel_http (\<lambda>_. Delivered) envs ''root'' ''http://panel'') edge_client [] \<lparr>pw_store = edge_assigned, pw_calls = 0\<rparr> =
     (\<lparr>pw_store = edge_assigned, pw_calls = 1\<rparr>,
      Inr (Some \<lparr>ts_SchemaVersion = 1, ts_Revision = randomID (replicate 16 CHR ''r''), ts_Topology = sample_topology\<rparr>))"
    using fetched_topology_is_assigned [OF edge_assigned_put, of edge_client "edge_agent ''s3cret''"
        "\<lparr>pw_store = edge_assigned, pw_calls = 0\<rparr>" "\<lambda>_. Delivered" "[]" envs "''root''"] edge_client_values by auto
qed

text \<open>
  C24: Sending a batch again never bills it twice. The client sends one batch any number of
  times over a network that loses requests and answers as it likes: the panel's accounts
  grow by the items of the batch once if any of the requests arrived and not at all
  otherwise, and the client sees success exactly for the attempts whose answer arrived.
\<close>

theorem retried_batch_billed_once:
  assumes "cp_BaseURL c \<noteq> []" and "header_value (cp_Token c)" and "sendable p"
    and "authenticates (cp_Token c) a (pw_store w)" and "batch_ready a p (pw_store w)"
    and "\<not> mhas (so_batches (pw_store w)) \<lparr>bk_agentID = a, bk_batchID = tq_BatchID p\<rparr>"
  shows "case push_again (panel_http fates envs adminToken (cp_BaseURL c)) c p n w of (w', es) \<Rightarrow>
    so_usage (pw_store w') =
      (if \<exists>i<n. fates (pw_calls w + i) \<noteq> RequestLost then fold (book_item a) (tq_Items p) (so_usage (pw_store w))
       else so_usage (pw_store w)) \<and>
    es = map (\<lambda>i. if fates (pw_calls w + i) = Delivered then None else Some CP_Transport) [0..<n]"
  using push_again_billed [OF assms(1-5)] assms(6) by (auto split: prod.split)

definition edge_batch :: TrafficPushRequest where
  "edge_batch = \<lparr>tq_BatchID = ''b1'', tq_Items = [\<lparr>ti_NodeID = ''21'', ti_NodeType = ''vless'', ti_UserID = 7, ti_Upload = 3, ti_Download = 5\<rparr>]\<rparr>"

lemma edge_batch_sendable: "sendable edge_batch"
proof -
  have "header_value ''b1''" "\<not> list_ex bad_item (tq_Items edge_batch)" by code_simp+
  moreover have "length (print_json (enc_TrafficPushRequest edge_batch)) \<le> 200" by code_simp
  moreover have "(200::nat) \<le> max_body" by (simp add: max_body_def)
  ultimately show ?thesis by (simp add: sendable_def edge_batch_def item_int64_def is_int64_def)
qed

lemma edge_batch_ready: "batch_ready ''edge'' edge_batch edge_assigned"
proof -
  have "check_items ''edge'' (set (map Key (tp_Nodes sample_topology))) (tq_Items edge_batch) = None" by code_simp
  then show ?thesis
    by (simp add: batch_ready_def edge_assigned_def PutTopology_def sample_topology_valid edge_store_def mhas_def Store_Topology_def
        topology_record_def Let_def owned_keys_def)
qed

definition lossy :: "nat \<Rightarrow> fate" where
  "lossy i = (if i = 0 then RequestLost else if i = 1 then ResponseLost else Delivered)"

theorem retried_batch_billed_once_witness:
  "\<forall>envs. case push_again (panel_http lossy envs ''root'' ''http://panel'') edge_client edge_batch 3 \<lparr>pw_store = edge_assigned, pw_calls = 0\<rparr> of
    (w', es) \<Rightarrow> so_usage (pw_store w') = fold (book_item ''edge'') (tq_Items edge_batch) [] \<and> es = [Some CP_Transport, Some CP_Transport, None]"
proof
  fix envs
  let ?w = "\<lparr>pw_store = edge_assigned, pw_calls = 0\<rparr>"
  have auth: "authenticates ''s3cret'' ''edge'' edge_assigned"
    by (simp add: authenticates_def edge_assigned_agents edge_agent_def)
  have c: "cp_BaseURL edge_client = ''http://panel''" "cp_Token edge_client = ''s3cret''" by (simp_all add: edge_client_def)
  have upt: "[0..<3] = [0, 1, 2::nat]" by (simp add: upt_conv_Cons)
  have some: "\<exists>i<3. lossy i \<noteq> RequestLost" by (intro exI [of _ 1]) (simp add: lossy_def)
  obtain w' es where run: "push_again (panel_http lossy envs ''root'' ''http://panel'') edge_client edge_batch 3 ?w = (w', es)"
    by (metis surj_pair)
  have "so_usage (pw_store w') = fold (book_item ''edge'') (tq_Items edge_batch) [] \<and>
      es = map (\<lambda>i. if lossy i = Delivered then None else Some CP_Transport) [0..<3]"
    using retried_batch_billed_once [where c = edge_client and p = edge_batch and a = "''edge''" and n = 3 and envs = envs
        and w = ?w and adminToken = "''root''" and fates = lossy] run auth c some edge_client_values edge_batch_sendable
      edge_batch_ready by (auto simp: edge_assigned_agents)
  then show "case push_again (panel_http lossy envs ''root'' ''http://panel'') edge_client edge_batch 3 ?w of
    (w', es) \<Rightarrow> so_usage (pw_store w') = fold (book_item ''edge'') (tq_Items edge_batch) [] \<and> es = [Some CP_Transport, Some CP_Transport, None]"
    by (simp add: run upt lossy_def)
qed

end
