(* ===== verification/Min_Http.thy ===== *)
theory Min_Http
  imports Http
begin

text \<open>
  The HTTP/1.1 client of the agent (\<^verbatim>\<open>panelapi/minhttp.go\<close>): the bytes of a request, and the
  reading of a response from the bytes a connection delivers, in its three framings.
  Splitting a URL into its parts is \<^verbatim>\<open>net/url\<close>'s and an argument, as is the network: given
  where to connect and what to send it delivers bytes, and tells whether the stream
  ended in order. Deadlines are part of the network.
\<close>

section \<open>Requests\<close>

record url_parts =
  u_Scheme :: string
  u_Host :: string
  u_Hostname :: string
  u_Port :: string
  u_RequestURI :: string

datatype http_error =
    HE_URL
  | HE_Scheme string
  | HE_Network
  | HE_EOF
  | HE_StatusLine string
  | HE_StatusCode string
  | HE_ContentLength string
  | HE_NegativeLength int
  | HE_ChunkSize string
  | HE_NegativeChunk string
  | HE_TooLarge

definition crlf :: string where "crlf = [CHR 0x0D, CHR 0x0A]"

definition JoinHostPort :: "string \<Rightarrow> string \<Rightarrow> string" where
  "JoinHostPort host port = (if CHR '':'' \<in> set host then ''['' @ host @ '']:'' @ port else host @ '':'' @ port)"

definition dial_port :: "url_parts \<Rightarrow> string" where
  "dial_port u = (if u_Port u = [] then (if u_Scheme u = ''https'' then ''443'' else ''80'') else u_Port u)"

definition host_header :: "url_parts \<Rightarrow> string" where
  "host_header u = (if u_Port u \<noteq> [] then JoinHostPort (u_Hostname u) (u_Port u) else u_Host u)"

definition header_line :: "string \<Rightarrow> string \<Rightarrow> string" where
  "header_line k v = k @ '': '' @ v @ crlf"

definition render_request :: "url_parts \<Rightarrow> request \<Rightarrow> string" where
  "render_request u q =
     rq_method q @ '' '' @ u_RequestURI u @ '' HTTP/1.1'' @ crlf @ header_line ''Host'' (host_header u) @
     concat (map (\<lambda>(k, v). header_line k v) (rq_headers q)) @
     (if rq_body q \<noteq> [] then header_line ''Content-Length'' (Itoa (int (length (rq_body q)))) else []) @
     header_line ''Connection'' ''close'' @ crlf @ rq_body q"

section \<open>Responses\<close>

definition minHTTPMaxBody :: nat where "minHTTPMaxBody = 2 ^ 24"

text \<open>\<open>ReadString\<close> up to and with the next line feed, \<open>ReadFull\<close> of a number of bytes.\<close>

definition ReadLine :: "string \<Rightarrow> (string \<times> string) option" where
  "ReadLine s = (case IndexByte s (CHR 0x0A) of None \<Rightarrow> None | Some i \<Rightarrow> Some (take (Suc i) s, drop (Suc i) s))"

definition ReadFull :: "nat \<Rightarrow> string \<Rightarrow> (string \<times> string) option" where
  "ReadFull n s = (if n \<le> length s then Some (take n s, drop n s) else None)"

lemma ReadLine_shorter: "ReadLine s = Some (l, r) \<Longrightarrow> length r < length s"
  by (auto simp: ReadLine_def dest: IndexByte_less split: option.splits)

definition statusLine :: "string \<Rightarrow> http_error + int \<times> string" where
  "statusLine line =
     (let fields = Fields (TrimSpace line) in
      if length fields < 2 \<or> \<not> HasPrefix (fields ! 0) ''HTTP/'' then Inl (HE_StatusLine (TrimSpace line))
      else case Atoi (fields ! 1) of
        POk c \<Rightarrow> Inr (c, Join (tl fields) '' '')
      | _ \<Rightarrow> Inl (HE_StatusCode (TrimSpace line)))"

definition put_header :: "string \<Rightarrow> (string, string) gomap \<Rightarrow> (string, string) gomap" where
  "put_header line m =
     (case IndexByte line (CHR '':'') of
        None \<Rightarrow> m
      | Some i \<Rightarrow> if 0 < i then mput (ToLower (TrimSpace (take i line))) (TrimSpace (drop (Suc i) line)) m else m)"

function read_headers :: "string \<Rightarrow> (string, string) gomap \<Rightarrow> ((string, string) gomap \<times> string) option" where
  "read_headers s m =
     (case ReadLine s of
        None \<Rightarrow> None
      | Some (l, r) \<Rightarrow>
          let line = TrimRight l crlf in
          if line = [] then Some (m, r) else read_headers r (put_header line m))"
  by pat_completeness auto
termination
  by (relation "measure (\<lambda>(s, m). length s)") (auto dest: ReadLine_shorter)

declare read_headers.simps [simp del]

function read_trailers :: "string \<Rightarrow> bool" where
  "read_trailers s =
     (case ReadLine s of None \<Rightarrow> False | Some (l, r) \<Rightarrow> TrimRight l crlf = [] \<or> read_trailers r)"
  by pat_completeness auto
termination
  by (relation "measure length") (auto dest: ReadLine_shorter)

declare read_trailers.simps [simp del]

text \<open>The size of a chunk stands before a semicolon in its line.\<close>

definition size_text :: "string \<Rightarrow> string" where
  "size_text line =
     (let t = TrimSpace line in case IndexByte t (CHR '';'') of None \<Rightarrow> t | Some i \<Rightarrow> take i t)"

function readChunkedBody :: "string \<Rightarrow> string \<Rightarrow> http_error + string" where
  "readChunkedBody s acc =
     (case ReadLine s of
        None \<Rightarrow> Inl HE_EOF
      | Some (l, r) \<Rightarrow>
          (case ParseInt (size_text l) 16 of
             POk k \<Rightarrow>
               if k < 0 then Inl (HE_NegativeChunk (size_text l))
               else if k = 0 then (if read_trailers r then Inr acc else Inl HE_EOF)
               else if int minHTTPMaxBody < k \<or> int minHTTPMaxBody < int (length acc) + k then Inl HE_TooLarge
               else (case ReadFull (nat k) r of
                       None \<Rightarrow> Inl HE_EOF
                     | Some (chunk, r1) \<Rightarrow>
                         (case ReadFull 2 r1 of
                            None \<Rightarrow> Inl HE_EOF
                          | Some (_, r2) \<Rightarrow> readChunkedBody r2 (acc @ chunk)))
           | _ \<Rightarrow> Inl (HE_ChunkSize (size_text l))))"
  by pat_completeness auto
termination
  by (relation "measure (\<lambda>(s, acc). length s)") (auto simp: ReadFull_def dest!: ReadLine_shorter split: if_splits)

declare readChunkedBody.simps [simp del]

definition read_length :: "string \<Rightarrow> string \<Rightarrow> http_error + string" where
  "read_length cl s =
     (case ParseInt cl 10 of
        POk n \<Rightarrow>
          if n < 0 then Inl (HE_NegativeLength n)
          else if int minHTTPMaxBody < n then Inl HE_TooLarge
          else (case ReadFull (nat n) s of None \<Rightarrow> Inl HE_EOF | Some (b, _) \<Rightarrow> Inr b)
      | _ \<Rightarrow> Inl (HE_ContentLength cl))"

text \<open>\<open>LimitReader\<close> stops at the limit without an error and without looking further.\<close>

definition read_rest :: "bool \<Rightarrow> string \<Rightarrow> http_error + string" where
  "read_rest in_order s =
     (if in_order \<or> minHTTPMaxBody \<le> length s then Inr (take minHTTPMaxBody s) else Inl HE_Network)"

definition read_body :: "bool \<Rightarrow> (string, string) gomap \<Rightarrow> string \<Rightarrow> http_error + string" where
  "read_body in_order headers s =
     (if Contains (mget0 [] headers ''transfer-encoding'') ''chunked'' then readChunkedBody s []
      else if mget0 [] headers ''content-length'' \<noteq> [] then read_length (mget0 [] headers ''content-length'') s
      else read_rest in_order s)"

definition read_response :: "bool \<Rightarrow> string \<Rightarrow> http_error + response" where
  "read_response in_order s =
     (case ReadLine s of
        None \<Rightarrow> Inl HE_EOF
      | Some (l, r) \<Rightarrow>
          (case statusLine l of
             Inl e \<Rightarrow> Inl e
           | Inr (c, status) \<Rightarrow>
               (case read_headers r [] of
                  None \<Rightarrow> Inl HE_EOF
                | Some (headers, r1) \<Rightarrow>
                    (case read_body in_order headers r1 of
                       Inl e \<Rightarrow> Inl e
                     | Inr body \<Rightarrow> Inr \<lparr>rs_StatusCode = c, rs_Status = status, rs_Body = body\<rparr>))))"

section \<open>The exchange\<close>

record dial =
  dl_tls :: bool
  dl_address :: string
  dl_server_name :: string

type_synonym 'w network = "'w \<Rightarrow> dial \<Rightarrow> string \<Rightarrow> 'w \<times> (string \<times> bool) option"

definition minHTTP_do ::
  "(string \<Rightarrow> url_parts option) \<Rightarrow> 'w network \<Rightarrow> 'w \<Rightarrow> request \<Rightarrow> 'w \<times> (http_error + response)" where
  "minHTTP_do split_url net w q =
     (case split_url (rq_url q) of
        None \<Rightarrow> (w, Inl HE_URL)
      | Some u \<Rightarrow>
          if u_Scheme u \<noteq> ''http'' \<and> u_Scheme u \<noteq> ''https'' then (w, Inl (HE_Scheme (u_Scheme u)))
          else (case net w \<lparr>dl_tls = (u_Scheme u = ''https''), dl_address = JoinHostPort (u_Hostname u) (dial_port u),
                            dl_server_name = u_Hostname u\<rparr> (render_request u q) of
                  (w', None) \<Rightarrow> (w', Inl HE_Network)
                | (w', Some (bytes, in_order)) \<Rightarrow> (w', read_response in_order bytes)))"

text \<open>The transport the panel clients use: they look at the error only to pass it on.\<close>

definition min_transport :: "(string \<Rightarrow> url_parts option) \<Rightarrow> 'w network \<Rightarrow> 'w transport" where
  "min_transport split_url net w q =
     apsnd (\<lambda>r. case r of Inl _ \<Rightarrow> None | Inr resp \<Rightarrow> Some resp) (minHTTP_do split_url net w q)"

section \<open>Reading lines\<close>

lemma ReadLine_crlf: "CHR 0x0A \<notin> set l \<Longrightarrow> ReadLine (l @ crlf @ r) = Some (l @ crlf, r)"
  using IndexByte_append [of "CHR 0x0A" "l @ [CHR 0x0D]" r] by (simp add: ReadLine_def crlf_def)

definition plain_line :: "string \<Rightarrow> bool" where
  "plain_line l \<longleftrightarrow> l \<noteq> [] \<and> list_all (\<lambda>c. c \<notin> set crlf) l"

lemma TrimRight_crlf: "plain_line l \<Longrightarrow> TrimRight (l @ crlf) crlf = l"
  by (cases l rule: rev_cases) (auto simp: plain_line_def TrimRight_def crlf_def)

lemma read_headers_line:
  assumes "plain_line l"
  shows "read_headers (l @ crlf @ r) m = read_headers r (put_header l m)"
proof -
  have "CHR 0x0A \<notin> set l" "l \<noteq> []" using assms by (auto simp: plain_line_def crlf_def list_all_iff)
  then show ?thesis by (subst read_headers.simps) (simp add: ReadLine_crlf TrimRight_crlf [OF assms])
qed

lemma read_headers_end: "read_headers (crlf @ r) m = Some (m, r)"
  using ReadLine_crlf [of "[]" r] by (subst read_headers.simps) (simp add: TrimRight_def crlf_def)

lemma read_trailers_end: "read_trailers (crlf @ r)"
  using ReadLine_crlf [of "[]" r] by (subst read_trailers.simps) (simp add: TrimRight_def crlf_def)

section \<open>Words\<close>

definition word :: "string \<Rightarrow> bool" where
  "word w \<longleftrightarrow> w \<noteq> [] \<and> list_all (\<lambda>c. \<not> is_space c) w"

lemma Fields_Nil [simp]: "Fields [] = []"
  by (subst Fields.simps) simp

lemma Fields_step:
  assumes "\<forall>c\<in>set w. \<not> is_space c" "w \<noteq> []" "r = [] \<or> is_space (hd r)"
  shows "Fields (w @ r) = w # Fields r"
proof -
  have "takeWhile (\<lambda>c. \<not> is_space c) (w @ r) = w" using assms by (cases r) (simp_all add: takeWhile_append takeWhile_eq_all_conv)
  moreover have "dropWhile (\<lambda>c. \<not> is_space c) (w @ r) = r" using assms by (cases r) (simp_all add: dropWhile_append)
  moreover have "dropWhile is_space (w @ r) = w @ r" using assms(1,2) by (cases w) auto
  ultimately show ?thesis using assms(2) by (subst Fields.simps) (simp only: Let_def append_is_Nil_conv simp_thms if_False)
qed

lemma Fields_word: "word w \<Longrightarrow> Fields w = [w]"
  using Fields_step [of w "[]"] by (simp add: word_def list_all_iff)

lemma Fields_space: "Fields (CHR '' '' # s) = Fields s"
  using Fields.simps [of "CHR '' '' # s"] Fields.simps [of s] by (simp add: is_space_def code_def)

lemma Fields_Cons: "word w \<Longrightarrow> Fields (w @ CHR '' '' # s) = w # Fields s"
  using Fields_step [of w "CHR '' '' # s"] by (simp add: word_def list_all_iff Fields_space is_space_def code_def)

lemma TrimSpace_words: "word v \<Longrightarrow> word w \<Longrightarrow> TrimSpace (v @ s @ w @ crlf) = v @ s @ w"
proof -
  assume v: "word v" and w: "word w"
  have "dropWhile is_space (v @ s @ w @ crlf) = v @ s @ w @ crlf"
    using v by (cases v) (auto simp: word_def)
  moreover have "dropWhile is_space (rev crlf @ rev w @ rev s @ rev v) = rev w @ rev s @ rev v"
    using w by (cases w rule: rev_cases) (auto simp: word_def crlf_def is_space_def code_def)
  ultimately show ?thesis by (simp add: TrimSpace_def)
qed

lemma word_digits: "list_all is_digit s \<Longrightarrow> s \<noteq> [] \<Longrightarrow> word s"
  by (auto simp: word_def list_all_iff is_digit_def is_space_def)

section \<open>Hexadecimal sizes\<close>

fun hex_str :: "nat \<Rightarrow> string" where
  "hex_str n = (if n < 16 then [hex_digit n] else hex_str (n div 16) @ [hex_digit (n mod 16)])"

declare hex_str.simps [simp del]

lemma hex_digit_val: "d < 16 \<Longrightarrow> digit_val (hex_digit d) = Some d"
  by (simp add: digit_val_def hex_digit_def Let_def)

lemma parse_hex_str: "n \<le> m \<Longrightarrow> parse_digits 16 m (hex_str n) 0 = POk n"
proof (induction n rule: hex_str.induct)
  case (1 n)
  show ?case
  proof (cases "n < 16")
    case True
    then show ?thesis using "1.prems" by (subst hex_str.simps) (simp add: hex_digit_val)
  next
    case False
    then have "parse_digits 16 m (hex_str (n div 16)) 0 = POk (n div 16)" using 1 by simp
    then show ?thesis using False "1.prems" by (subst hex_str.simps) (simp add: parse_digits_append hex_digit_val)
  qed
qed

definition hex_char :: "char \<Rightarrow> bool" where
  "hex_char c \<longleftrightarrow> is_digit c \<or> (97 \<le> code c \<and> code c \<le> 102)"

lemma hex_str_chars: "list_all hex_char (hex_str n) \<and> hex_str n \<noteq> []"
proof (induction n rule: hex_str.induct)
  case (1 n)
  have "d < 16 \<Longrightarrow> hex_char (hex_digit d)" for d by (simp add: hex_char_def hex_digit_def is_digit_def)
  then show ?case using 1 by (subst (1 2) hex_str.simps) auto
qed

lemma hex_char_plain: "hex_char c \<Longrightarrow> \<not> is_space c \<and> c \<noteq> CHR '';'' \<and> c \<noteq> CHR ''-'' \<and> c \<noteq> CHR ''+'' \<and> c \<notin> set crlf"
  by (auto simp: hex_char_def is_digit_def is_space_def crlf_def code_def)

lemma ParseInt_hex_str: "n < 2 ^ 63 \<Longrightarrow> ParseInt (hex_str n) 16 = POk (int n)"
proof -
  assume n: "n < 2 ^ 63"
  have "hd (hex_str n) \<in> set (hex_str n)" using hex_str_chars by simp
  then have "hd (hex_str n) \<noteq> CHR ''-'' \<and> hd (hex_str n) \<noteq> CHR ''+''"
    using hex_str_chars [of n] hex_char_plain by (auto simp: list_all_iff)
  moreover have "ParseUint (hex_str n) 16 64 = POk n" using n hex_str_chars [of n] by (simp add: ParseUint_def parse_hex_str)
  ultimately show ?thesis using n by (simp add: ParseInt_def Let_def)
qed

lemma size_text_hex: "size_text (hex_str n @ crlf) = hex_str n"
proof -
  have all: "\<forall>c \<in> set (hex_str n). \<not> is_space c \<and> c \<noteq> CHR '';''" and ne: "hex_str n \<noteq> []"
    using hex_str_chars [of n] hex_char_plain by (auto simp: list_all_iff)
  then have w: "word (hex_str n)" by (simp add: word_def list_all_iff)
  have "TrimSpace (hex_str n @ crlf) = hex_str n"
  proof -
    have "dropWhile is_space (hex_str n @ crlf) = hex_str n @ crlf" using all ne by (cases "hex_str n") auto
    moreover have "dropWhile is_space (rev crlf @ rev (hex_str n)) = rev (hex_str n)"
      using w by (cases "hex_str n" rule: rev_cases) (auto simp: word_def crlf_def is_space_def code_def)
    ultimately show ?thesis by (simp add: TrimSpace_def)
  qed
  moreover have "IndexByte (hex_str n) (CHR '';'') = None" by (rule IndexByte_None) (use all in blast)
  ultimately show ?thesis by (simp add: size_text_def)
qed

section \<open>The three framings\<close>

definition status_head :: "int \<Rightarrow> string \<Rightarrow> string" where
  "status_head c reason = ''HTTP/1.1 '' @ Itoa c @ '' '' @ reason"

definition chunk_frame :: "string \<Rightarrow> string" where
  "chunk_frame b = hex_str (length b) @ crlf @ b @ crlf"

definition with_length :: "int \<Rightarrow> string \<Rightarrow> string \<Rightarrow> string" where
  "with_length c reason body =
     status_head c reason @ crlf @ header_line ''Content-Length'' (Itoa (int (length body))) @ crlf @ body"

definition with_chunks :: "int \<Rightarrow> string \<Rightarrow> string list \<Rightarrow> string" where
  "with_chunks c reason bs =
     status_head c reason @ crlf @ header_line ''Transfer-Encoding'' ''chunked'' @ crlf @ concat (map chunk_frame bs) @ ''0'' @ crlf @ crlf"

definition until_close :: "int \<Rightarrow> string \<Rightarrow> string \<Rightarrow> string" where
  "until_close c reason body = status_head c reason @ crlf @ crlf @ body"

lemma digits_Itoa: "0 \<le> i \<Longrightarrow> list_all is_digit (Itoa i) \<and> Itoa i \<noteq> []"
  by (simp add: Itoa_def nat_str_digits)

lemma word_Itoa: "0 \<le> i \<Longrightarrow> word (Itoa i)"
  using digits_Itoa word_digits by blast

lemma word_HTTP: "word ''HTTP/1.1''"
  by code_simp

lemma statusLine_head:
  assumes "0 \<le> c" "is_int64 c" "word reason"
  shows "statusLine (status_head c reason @ crlf) = Inr (c, Itoa c @ '' '' @ reason)"
proof -
  have "TrimSpace (status_head c reason @ crlf) = ''HTTP/1.1'' @ ('' '' @ Itoa c @ '' '') @ reason"
    using TrimSpace_words [OF word_HTTP assms(3), of "'' '' @ Itoa c @ '' ''"] by (simp add: status_head_def)
  moreover have "Fields (''HTTP/1.1'' @ ('' '' @ Itoa c @ '' '') @ reason) = [''HTTP/1.1'', Itoa c, reason]"
    using Fields_Cons [OF word_HTTP, of "Itoa c @ '' '' @ reason"] Fields_Cons [OF word_Itoa [OF assms(1)], of reason] Fields_word [OF assms(3)]
    by simp
  ultimately show ?thesis using assms(2) by (simp add: statusLine_def)
qed

lemma word_plain: "word w \<Longrightarrow> plain_line w"
  by (auto simp: word_def plain_line_def list_all_iff crlf_def is_space_def code_def)

lemma plain_append: "plain_line a \<Longrightarrow> list_all (\<lambda>c. c \<notin> set crlf) b \<Longrightarrow> plain_line (a @ b)"
  by (simp add: plain_line_def)

lemma status_head_plain:
  assumes "0 \<le> c" "word reason"
  shows "CHR 0x0A \<notin> set (status_head c reason)"
  using word_plain [OF word_Itoa [OF assms(1)]] word_plain [OF assms(2)] by (auto simp: plain_line_def list_all_iff crlf_def status_head_def)

lemma TrimSpace_word: "word w \<Longrightarrow> TrimSpace w = w"
proof -
  assume w: "word w"
  then have "hd w \<in> set w" "last w \<in> set w" by (auto simp: word_def)
  then show ?thesis using dropWhile_none [of w is_space] w by (auto simp: TrimSpace_def word_def list_all_iff)
qed

lemma put_header_line:
  assumes "word k" "CHR '':'' \<notin> set k" "word v"
  shows "put_header (k @ '': '' @ v) m = mput (ToLower k) v m"
proof -
  have "IndexByte (k @ '': '' @ v) (CHR '':'') = Some (length k)" using IndexByte_append [OF assms(2), of "'' '' @ v"] by simp
  moreover have "TrimSpace (CHR '' '' # v) = v"
    using TrimSpace_word [OF assms(3)] by (simp add: TrimSpace_def is_space_def code_def)
  ultimately show ?thesis using TrimSpace_word [OF assms(1)] assms(1) by (simp add: put_header_def word_def)
qed

lemma put_length_header:
  assumes "0 \<le> n"
  shows "put_header (''Content-Length: '' @ Itoa n) m = mput ''content-length'' (Itoa n) m"
proof -
  have "word ''Content-Length''" "ToLower ''Content-Length'' = ''content-length''" by code_simp+
  with put_header_line [OF this(1) _ word_Itoa [OF assms], of m] show ?thesis by simp
qed

lemma put_chunked_header: "put_header ''Transfer-Encoding: chunked'' [] = [(''transfer-encoding'', ''chunked'')]"
  by code_simp

lemma readChunkedBody_frames:
  "list_all (\<lambda>b. b \<noteq> []) bs \<Longrightarrow> length acc + length (concat bs) \<le> minHTTPMaxBody \<Longrightarrow>
   readChunkedBody (concat (map chunk_frame bs) @ ''0'' @ crlf @ crlf @ r) acc = Inr (acc @ concat bs)"
proof (induction bs arbitrary: acc)
  case Nil
  have "hex_str 0 = ''0''" by code_simp
  then have "size_text (''0'' @ crlf) = ''0''" "ParseInt ''0'' 16 = POk 0" using size_text_hex [of 0] ParseInt_hex_str [of 0] by simp_all
  moreover have "ReadLine (''0'' @ crlf @ crlf @ r) = Some (''0'' @ crlf, crlf @ r)" by (rule ReadLine_crlf) simp
  ultimately show ?case by (simp add: readChunkedBody.simps [of "CHR ''0'' # _"] read_trailers_end)
next
  case (Cons b bs)
  define rest where "rest = concat (map chunk_frame bs) @ ''0'' @ crlf @ crlf @ r"
  have n: "length b < 2 ^ 63" "length b \<le> minHTTPMaxBody" "length acc + length b \<le> minHTTPMaxBody" "b \<noteq> []"
    using Cons.prems by (auto simp: minHTTPMaxBody_def)
  have "CHR 0x0A \<notin> set (hex_str (length b))"
    using hex_str_chars [of "length b"] hex_char_plain by (auto simp: list_all_iff crlf_def)
  then have rl: "ReadLine (hex_str (length b) @ crlf @ b @ crlf @ rest) = Some (hex_str (length b) @ crlf, b @ crlf @ rest)"
    by (rule ReadLine_crlf)
  have rf: "ReadFull (length b) (b @ crlf @ rest) = Some (b, crlf @ rest)" "ReadFull 2 (crlf @ rest) = Some (crlf, rest)"
    by (simp_all add: ReadFull_def crlf_def)
  have "readChunkedBody (hex_str (length b) @ crlf @ b @ crlf @ rest) acc = readChunkedBody rest (acc @ b)"
    using n by (subst readChunkedBody.simps) (simp add: rl size_text_hex ParseInt_hex_str [OF n(1)] rf)
  also have "\<dots> = Inr (acc @ b @ concat bs)" using Cons.IH [of "acc @ b"] Cons.prems by (simp add: rest_def)
  finally show ?case by (simp add: chunk_frame_def [of b] rest_def)
qed

lemma read_response_head:
  assumes "0 \<le> c" "is_int64 c" "word reason" "read_headers r [] = Some (hs, r1)"
  shows "read_response e (status_head c reason @ crlf @ r) =
    (case read_body e hs r1 of Inl x \<Rightarrow> Inl x
     | Inr body \<Rightarrow> Inr \<lparr>rs_StatusCode = c, rs_Status = Itoa c @ '' '' @ reason, rs_Body = body\<rparr>)"
  by (simp add: read_response_def ReadLine_crlf [OF status_head_plain [OF assms(1,3)]] statusLine_head [OF assms(1-3)] assms(4)
      split: sum.split)

lemma read_length_header:
  assumes "0 \<le> n"
  shows "read_headers (header_line ''Content-Length'' (Itoa n) @ crlf @ r) [] = Some ([(''content-length'', Itoa n)], r)"
proof -
  have "plain_line (''Content-Length: '' @ Itoa n)"
    using word_plain [OF word_Itoa [OF assms]] by (auto simp: plain_line_def crlf_def)
  from read_headers_line [OF this, of "crlf @ r" "[]"] put_length_header [OF assms, of "[]"]
  show ?thesis by (simp add: header_line_def read_headers_end)
qed

lemma read_chunked_header:
  "read_headers (header_line ''Transfer-Encoding'' ''chunked'' @ crlf @ r) [] = Some ([(''transfer-encoding'', ''chunked'')], r)"
proof -
  have "plain_line ''Transfer-Encoding: chunked''" by code_simp
  from read_headers_line [OF this, of "crlf @ r" "[]"] put_chunked_header
  show ?thesis by (simp add: header_line_def read_headers_end)
qed

lemma chunked_bound: "length acc \<le> minHTTPMaxBody \<Longrightarrow> readChunkedBody s acc = Inr b \<Longrightarrow> length b \<le> minHTTPMaxBody"
proof (induction s acc arbitrary: b rule: readChunkedBody.induct)
  case (1 s acc)
  from "1.prems"(2) obtain l r where l: "ReadLine s = Some (l, r)"
    by (subst (asm) readChunkedBody.simps) (auto split: option.splits)
  with "1.prems"(2) obtain k where k: "ParseInt (size_text l) 16 = POk k" "0 \<le> k"
    by (subst (asm) readChunkedBody.simps) (auto split: parse.splits if_splits)
  show ?case
  proof (cases "k = 0")
    case True
    then show ?thesis using "1.prems" l k by (subst (asm) readChunkedBody.simps) (auto split: if_splits)
  next
    case False
    with "1.prems"(2) l k obtain c r1 x r2 where step: "ReadFull (nat k) r = Some (c, r1)" "ReadFull 2 r1 = Some (x, r2)"
      and fits: "int (length acc) + k \<le> int minHTTPMaxBody" and rec: "readChunkedBody r2 (acc @ c) = Inr b"
      by (subst (asm) readChunkedBody.simps) (auto split: if_splits option.splits)
    have "length c = nat k" using step(1) by (auto simp: ReadFull_def split: if_splits)
    then have "length (acc @ c) \<le> minHTTPMaxBody" using fits k(2) by simp
    from "1.IH" [OF l refl k(1) _ False _ step(1) refl step(2) refl this rec] show ?thesis using k fits by simp
  qed
qed

section \<open>Properties\<close>

text \<open>
  C28: The three ways of framing a body are read alike. A response with a length, one cut into
  non-empty chunks in any way, and one that ends with the connection give the same status
  and the same body, up to the limit of 16 MiB, whatever follows a body whose end is
  marked.
\<close>

theorem framings_agree:
  assumes "0 \<le> c" and "is_int64 c" and "word reason" and "list_all (\<lambda>b. b \<noteq> []) bs" and "length (concat bs) \<le> minHTTPMaxBody"
  shows "read_response e (with_length c reason (concat bs) @ junk) =
      Inr \<lparr>rs_StatusCode = c, rs_Status = Itoa c @ '' '' @ reason, rs_Body = concat bs\<rparr> \<and>
    read_response e (with_chunks c reason bs @ junk) = read_response e (with_length c reason (concat bs) @ junk) \<and>
    read_response True (until_close c reason (concat bs)) = read_response e (with_length c reason (concat bs) @ junk)"
proof -
  have n: "is_int64 (int (length (concat bs)))" using assms(5) by (simp add: is_int64_def minHTTPMaxBody_def)
  have "ParseInt (Itoa (int (length (concat bs)))) 10 = POk (int (length (concat bs)))" using Atoi_Itoa [OF n] by (simp add: Atoi_def)
  then have l: "read_length (Itoa (int (length (concat bs)))) (concat bs @ junk) = Inr (concat bs)"
    using assms(5) by (simp add: read_length_def ReadFull_def)
  have ne: "Itoa (int (length (concat bs))) \<noteq> []" using digits_Itoa by simp
  have "\<not> Contains [] ''chunked''" "Contains ''chunked'' ''chunked''" by code_simp+
  note b = this
  have 1: "read_response e (with_length c reason (concat bs) @ junk) =
      Inr \<lparr>rs_StatusCode = c, rs_Status = Itoa c @ '' '' @ reason, rs_Body = concat bs\<rparr>"
    using read_response_head [OF assms(1-3) read_length_header [of "int (length (concat bs))" "concat bs @ junk"], of e]
      l ne b by (simp add: with_length_def read_body_def mget0_def)
  have 2: "read_response e (with_chunks c reason bs @ junk) = Inr \<lparr>rs_StatusCode = c, rs_Status = Itoa c @ '' '' @ reason, rs_Body = concat bs\<rparr>"
    using read_response_head [OF assms(1-3) read_chunked_header [of "concat (map chunk_frame bs) @ ''0'' @ crlf @ crlf @ junk"], of e]
      readChunkedBody_frames [OF assms(4), of "[]" junk] assms(5) b by (simp add: with_chunks_def read_body_def mget0_def)
  have 3: "read_response True (until_close c reason (concat bs)) = Inr \<lparr>rs_StatusCode = c, rs_Status = Itoa c @ '' '' @ reason, rs_Body = concat bs\<rparr>"
    using read_response_head [OF assms(1-3) read_headers_end [of "concat bs" "[]"], of True] assms(5) b
    by (simp add: until_close_def read_body_def read_rest_def)
  show ?thesis using 1 2 3 by simp
qed

theorem framings_agree_witness:
  "read_response False (with_chunks 200 ''OK'' [''ab'', ''c'']) = Inr \<lparr>rs_StatusCode = 200, rs_Status = ''200 OK'', rs_Body = ''abc''\<rparr>"
proof -
  have "word ''OK''" by code_simp
  moreover have "Itoa 200 = ''200''" by code_simp
  ultimately show ?thesis
    using framings_agree [of 200 "''OK''" "[''ab'', ''c'']" False "[]"] by (simp add: is_int64_def minHTTPMaxBody_def)
qed

text \<open>
  C29: A response is bounded whatever the peer sends. For every byte stream, the client
  returns an error or a response whose body has at most 16 MiB; in particular reading
  headers and chunks ends on every stream.
\<close>

theorem response_bounded:
  "case read_response in_order bytes of Inl e \<Rightarrow> True | Inr resp \<Rightarrow> length (rs_Body resp) \<le> minHTTPMaxBody"
proof -
  have "length b \<le> minHTTPMaxBody" if "read_body in_order hs r = Inr b" for hs r b
    using that chunked_bound [of "[]" r b]
    by (auto simp: read_body_def read_length_def read_rest_def ReadFull_def split: if_splits parse.splits)
  then show ?thesis by (auto simp: read_response_def split: option.splits sum.splits)
qed

end
