(* ===== verification/Stats_Api.thy ===== *)
theory Stats_Api
  imports Counter Panel_Client Min_Http
begin

text \<open>
  The local statistics interface of the agent (\<^verbatim>\<open>serveStats\<close> and \<^verbatim>\<open>readHTTPRequest\<close> of
  \<^verbatim>\<open>cmd/mini-sb-agent/main.go\<close>): what one accepted connection is answered. The bytes the
  client sends are an argument; accepting connections, the socket and its deadline are
  the operating system's.
\<close>

section \<open>Reading a request\<close>

datatype request_error = LineTooLong | RequestTooLarge | RequestEOF | MalformedRequest

text \<open>\<open>ReadSlice\<close> with a buffer of 4096 bytes: a line longer than the buffer is an error, and
  so is a stream that ends within a line.\<close>

definition read_buffer :: nat where "read_buffer = 4096"

definition max_request :: nat where "max_request = 16384"

definition ReadSlice :: "string \<Rightarrow> request_error + string \<times> string" where
  "ReadSlice s =
     (case IndexByte (take read_buffer s) (CHR 0x0A) of
        Some i \<Rightarrow> Inr (take (Suc i) s, drop (Suc i) s)
      | None \<Rightarrow> Inl (if read_buffer \<le> length s then LineTooLong else RequestEOF))"

lemma ReadSlice_split:
  assumes "ReadSlice s = Inr (l, r)"
  shows "s = l @ r" "l \<noteq> []" "length l \<le> read_buffer"
  using assms by (auto simp: ReadSlice_def dest: IndexByte_less split: option.splits)

lemma ReadSlice_shorter: "ReadSlice s = Inr (l, r) \<Longrightarrow> length r < length s"
  using ReadSlice_split [of s l r] by simp

function read_lines :: "string \<Rightarrow> string \<Rightarrow> nat \<Rightarrow> request_error + string" where
  "read_lines s line n =
     (case ReadSlice s of
        Inl e \<Rightarrow> Inl e
      | Inr (chunk, r) \<Rightarrow>
          if max_request < n + length chunk then Inl RequestTooLarge
          else let line' = (if line = [] then chunk else line) in
               if TrimSpace chunk = [] then Inr line' else read_lines r line' (n + length chunk))"
  by pat_completeness auto
termination
  by (relation "measure (\<lambda>(s, line, n). length s)") (auto dest!: ReadSlice_shorter)

declare read_lines.simps [simp del]

definition readHTTPRequest :: "string \<Rightarrow> request_error + string" where
  "readHTTPRequest s =
     (case read_lines s [] 0 of
        Inl e \<Rightarrow> Inl e
      | Inr line \<Rightarrow>
          let fields = Fields (TrimSpace line) in
          if length fields < 2 then Inl MalformedRequest else Inr (fields ! 1))"

section \<open>Answering it\<close>

text \<open>Go prints a map with its keys sorted and a pair as an array of two.\<close>

definition delta_json :: "delta \<Rightarrow> json" where
  "delta_json d = JObj (sort_key fst (map (\<lambda>(u, p). (u, JArr [int_json (fst p), int_json (snd p)])) d))"

definition snapshot_json :: "deltas \<Rightarrow> json" where
  "snapshot_json ds = JObj (sort_key fst (map (\<lambda>(t, d). (t, delta_json d)) ds))"

definition stats_payload :: "string \<Rightarrow> store \<Rightarrow> hook_map \<Rightarrow> deltas" where
  "stats_payload target m h =
     (if Contains target ''delta=1'' then Hook_SnapshotDelta m h else Hook_Snapshot (Contains target ''reset=1'') m h)"

definition stats_content :: "string \<Rightarrow> store \<Rightarrow> hook_map \<Rightarrow> string \<times> string \<times> string" where
  "stats_content target m h =
     (if HasPrefix target ''/stats'' then (''200 OK'', ''application/json'', print_json (snapshot_json (stats_payload target m h)))
      else if HasPrefix target ''/health'' then (''200 OK'', ''text/plain'', ''ok'')
      else (''404 Not Found'', ''text/plain'', ''not found''))"

definition stats_answer :: "string \<times> string \<times> string \<Rightarrow> string" where
  "stats_answer = (\<lambda>(status, contentType, body).
     ''HTTP/1.1 '' @ status @ crlf @ ''Content-Type: '' @ contentType @ crlf @
     ''Content-Length: '' @ Itoa (int (length body)) @ crlf @ ''Connection: close'' @ crlf @ crlf @ body)"

text \<open>The bytes written to the connection, none when the request could not be read.\<close>

definition serve_connection :: "string \<Rightarrow> store \<Rightarrow> hook_map \<Rightarrow> string option" where
  "serve_connection bytes m h =
     (case readHTTPRequest bytes of Inl _ \<Rightarrow> None | Inr target \<Rightarrow> Some (stats_answer (stats_content target m h)))"

section \<open>Only a prefix of the request is looked at\<close>

definition same_start :: "nat \<Rightarrow> string \<Rightarrow> string \<Rightarrow> bool" where
  "same_start n s t \<longleftrightarrow> n \<le> length s \<and> n \<le> length t \<and> take n s = take n t"

lemma same_start_mono: "same_start n s t \<Longrightarrow> k \<le> n \<Longrightarrow> same_start k s t"
  by (auto simp: same_start_def) (metis min.absorb1 take_take)

lemma same_start_append: "same_start (length l + n) (l @ r) (l @ r') \<longleftrightarrow> same_start n r r'"
  by (auto simp: same_start_def)

lemma ReadSlice_start:
  assumes "same_start n s t" and "read_buffer \<le> n"
  shows "(\<exists>e. ReadSlice s = Inl e \<and> ReadSlice t = Inl e) \<or>
    (\<exists>l r r'. ReadSlice s = Inr (l, r) \<and> ReadSlice t = Inr (l, r') \<and> same_start (n - length l) r r')"
proof -
  have b: "same_start read_buffer s t" by (rule same_start_mono [OF assms])
  show ?thesis
  proof (cases "IndexByte (take read_buffer s) (CHR 0x0A)")
    case None
    then show ?thesis using b by (simp add: ReadSlice_def same_start_def)
  next
    case (Some i)
    then have i: "Suc i \<le> read_buffer" using IndexByte_less [OF Some] by simp
    then have l: "take (Suc i) s = take (Suc i) t" "length (take (Suc i) s) = Suc i"
      using same_start_mono [OF b i] by (auto simp: same_start_def)
    have "same_start (Suc i + (n - Suc i)) (take (Suc i) s @ drop (Suc i) s) (take (Suc i) s @ drop (Suc i) t)"
      using assms i l(1) by (metis append_take_drop_id le_add_diff_inverse le_trans)
    then have "same_start (n - Suc i) (drop (Suc i) s) (drop (Suc i) t)" using same_start_append [of "take (Suc i) s"] l(2) by metis
    then show ?thesis using Some b l by (auto simp: ReadSlice_def same_start_def)
  qed
qed

lemma read_lines_start:
  "n \<le> max_request \<Longrightarrow> same_start (max_request - n + read_buffer) s t \<Longrightarrow> read_lines s line n = read_lines t line n"
proof (induction s line n arbitrary: t rule: read_lines.induct)
  case (1 s line n)
  have "read_buffer \<le> max_request - n + read_buffer" by simp
  from ReadSlice_start [OF "1.prems"(2) this]
  show ?case
  proof (elim disjE exE conjE)
    fix e assume "ReadSlice s = Inl e" "ReadSlice t = Inl e"
    then show ?thesis by (simp add: read_lines.simps [of s] read_lines.simps [of t])
  next
    fix l r r'
    assume l: "ReadSlice s = Inr (l, r)" "ReadSlice t = Inr (l, r')"
      and rest: "same_start (max_request - n + read_buffer - length l) r r'"
    show ?thesis
    proof (cases "max_request < n + length l \<or> TrimSpace l = []")
      case True
      then show ?thesis using l by (auto simp: read_lines.simps [of s] read_lines.simps [of t])
    next
      case False
      then have n: "n + length l \<le> max_request" by simp
      have "same_start (max_request - (n + length l) + read_buffer) r r'" using rest n by simp
      from "1.IH" [OF l(1) refl _ refl _ n this] False l
      show ?thesis by (simp add: read_lines.simps [of s] read_lines.simps [of t])
    qed
  qed
qed

section \<open>Reading the answer\<close>

text \<open>The figures a client finds in the answer for a user on an inbound.\<close>

definition jmember :: "string \<Rightarrow> json \<Rightarrow> json option" where
  "jmember k j = (case j of JObj ms \<Rightarrow> mget ms k | _ \<Rightarrow> None)"

definition figure :: "json \<Rightarrow> string \<Rightarrow> string \<Rightarrow> json option" where
  "figure doc t u = jmember t doc \<bind> jmember u"

lemma jmember_sorted:
  assumes "wf_map m"
  shows "jmember k (JObj (sort_key fst (map (\<lambda>(x, y). (x, f y)) m))) = map_option f (mget m k)"
proof -
  have "map (\<lambda>(x, y). (x, f y)) m = mmap (\<lambda>_. f) m" by (simp add: mmap_def)
  moreover have "distinct (map fst (mmap (\<lambda>_. f) m))" using assms by simp
  ultimately show ?thesis by (simp add: jmember_def map_of_sort_key)
qed

lemma figure_snapshot:
  assumes "wf_deltas ds"
  shows "figure (snapshot_json ds) t u =
    (case mget ds t of None \<Rightarrow> None | Some d \<Rightarrow> map_option (\<lambda>p. JArr [int_json (fst p), int_json (snd p)]) (mget d u))"
  using assms jmember_sorted [of ds t delta_json]
    jmember_sorted [of _ u "\<lambda>p. JArr [int_json (fst p), int_json (snd p)]"]
  by (auto simp: figure_def snapshot_json_def delta_json_def wf_deltas_def split: option.splits)

lemma wf_snapshot_json: "wf_json (snapshot_json ds)"
  by (auto simp: snapshot_json_def delta_json_def int_json_def intro!: exI)

lemma read_stats_headers:
  assumes "0 \<le> n" and "word ty"
  shows "read_headers (''Content-Type: '' @ ty @ crlf @ ''Content-Length: '' @ Itoa n @ crlf @ ''Connection: close'' @ crlf @ crlf @ r) [] =
    Some ([(''content-type'', ty), (''content-length'', Itoa n), (''connection'', ''close'')], r)"
proof -
  have names: "word ''Content-Type''" "ToLower ''Content-Type'' = ''content-type''" by code_simp+
  have "plain_line (''Content-Type: '' @ ty)" "plain_line (''Content-Length: '' @ Itoa n)" "plain_line ''Connection: close''"
    using word_plain [OF assms(2)] word_plain [OF word_Itoa [OF assms(1)]] by (auto simp: plain_line_def crlf_def)
  note lines = this [THEN read_headers_line]
  have "put_header (''Content-Type: '' @ ty) [] = [(''content-type'', ty)]"
    using put_header_line [OF names(1) _ assms(2), of "[]"] names(2) by simp
  moreover have "put_header ''Connection: close'' m = mput ''connection'' ''close'' m" for m
  proof -
    have "word ''Connection''" "word ''close''" "ToLower ''Connection'' = ''connection''" by code_simp+
    with put_header_line [OF this(1) _ this(2), of m] show ?thesis by simp
  qed
  ultimately show ?thesis
    using lines(1) [of "''Content-Length: '' @ Itoa n @ crlf @ ''Connection: close'' @ crlf @ crlf @ r" "[]"]
      lines(2) [of "''Connection: close'' @ crlf @ crlf @ r" "[(''content-type'', ty)]"]
      lines(3) [of "crlf @ r" "[(''content-type'', ty), (''content-length'', Itoa n)]"]
      put_length_header [OF assms(1), of "[(''content-type'', ty)]"]
    by (simp add: read_headers_end)
qed

lemma read_stats_answer:
  assumes "word ty" and "length body \<le> minHTTPMaxBody" and "0 \<le> c" and "is_int64 c" and "word reason"
  shows "read_response e (stats_answer (Itoa c @ '' '' @ reason, ty, body)) =
    Inr \<lparr>rs_StatusCode = c, rs_Status = Itoa c @ '' '' @ reason, rs_Body = body\<rparr>"
proof -
  have n: "is_int64 (int (length body))" using assms(2) by (simp add: is_int64_def minHTTPMaxBody_def)
  have "ParseInt (Itoa (int (length body))) 10 = POk (int (length body))" using Atoi_Itoa [OF n] by (simp add: Atoi_def)
  then have "read_length (Itoa (int (length body))) body = Inr body" using assms(2) by (simp add: read_length_def ReadFull_def)
  moreover have "Itoa (int (length body)) \<noteq> []" using digits_Itoa by simp
  moreover have "\<not> Contains [] ''chunked''" by code_simp
  ultimately show ?thesis
    using read_response_head [OF assms(3-5) read_stats_headers [of "int (length body)" ty body, OF _ assms(1)], of e]
    by (simp add: stats_answer_def status_head_def read_body_def mget0_def)
qed

section \<open>Properties\<close>


definition endless :: "nat \<Rightarrow> string" where
  "endless n = replicate (max_request + read_buffer + n) (CHR ''x'')"



definition stats_request :: string where
  "stats_request = ''GET /stats?delta=1 HTTP/1.1'' @ crlf @ crlf"

lemma ReadSlice_crlf:
  assumes "CHR 0x0A \<notin> set l" "length l + 2 \<le> read_buffer"
  shows "ReadSlice (l @ crlf @ r) = Inr (l @ crlf, r)"
proof -
  obtain k where "read_buffer - (length l + 1) = Suc k" using assms(2) by (cases "read_buffer - (length l + 1)") auto
  then have "take read_buffer (l @ crlf @ r) = (l @ [CHR 0x0D]) @ CHR 0x0A # take k r" using assms(2) by (simp add: crlf_def take_Cons')
  then show ?thesis using IndexByte_append [of "CHR 0x0A" "l @ [CHR 0x0D]"] assms(1) by (simp add: ReadSlice_def crlf_def)
qed

lemma stats_request_target: "readHTTPRequest stats_request = Inr ''/stats?delta=1''"
proof -
  have "ReadSlice stats_request = Inr (''GET /stats?delta=1 HTTP/1.1'' @ crlf, crlf)"
    using ReadSlice_crlf [of "''GET /stats?delta=1 HTTP/1.1''" crlf] by (simp add: stats_request_def read_buffer_def)
  moreover have "ReadSlice crlf = Inr (crlf, [])" using ReadSlice_crlf [of "[]" "[]"] by (simp add: read_buffer_def)
  moreover have "TrimSpace (''GET /stats?delta=1 HTTP/1.1'' @ crlf) = ''GET /stats?delta=1 HTTP/1.1''" "TrimSpace crlf = []"
    "Fields ''GET /stats?delta=1 HTTP/1.1'' = [''GET'', ''/stats?delta=1'', ''HTTP/1.1'']" by code_simp+
  moreover have "length crlf = 2" by (simp add: crlf_def)
  ultimately show ?thesis
    by (simp add: readHTTPRequest_def read_lines.simps [of stats_request] read_lines.simps [of crlf] max_request_def)
qed


end
