(* ===== verification/Runtime_Debug.thy ===== *)
theory Runtime_Debug
  imports Go_Strconv Go_Path
begin

text \<open>
  The runtime diagnostics of the agent (\<^verbatim>\<open>cmd/mini-sb-agent/runtime_debug.go\<close>): reading the
  process and control group files, and the rows of the CSV file. Reading a file is an
  argument, \<open>None\<close> for an error, and so are the process identifier and what the Go
  runtime reports of itself.
\<close>

section \<open>Samples\<close>

record runtimeDebugSample =
  rd_pid :: int
  rd_utimeTicks :: nat
  rd_stimeTicks :: nat
  rd_startTimeTicks :: nat
  rd_threads :: int
  rd_vmRSSKB :: nat
  rd_vmHWMKB :: nat
  rd_vmDataKB :: nat
  rd_cgroupMemory :: nat
  rd_cgroupOOM :: nat
  rd_cgroupOOMKill :: nat
  rd_cgroupPids :: nat
  rd_cgroupPidsMax :: string
  rd_memAvailableKB :: nat
  rd_goroutines :: int
  rd_heapAlloc :: nat
  rd_heapSys :: nat
  rd_heapIdle :: nat
  rd_heapReleased :: nat
  rd_stackInuse :: nat
  rd_otherSys :: nat
  rd_numGC :: nat
  rd_pauseTotalNs :: nat
  rd_lastGCPauseNs :: nat

record mem_stats =
  ms_HeapAlloc :: nat
  ms_HeapSys :: nat
  ms_HeapIdle :: nat
  ms_HeapReleased :: nat
  ms_StackInuse :: nat
  ms_OtherSys :: nat
  ms_NumGC :: nat
  ms_PauseTotalNs :: nat
  ms_PauseNs :: "nat \<Rightarrow> nat"

type_synonym files = "string \<Rightarrow> string option"

section \<open>Reading numbers and files\<close>

definition atoi :: "string \<Rightarrow> int" where
  "atoi s = parse_value 0 (Atoi s)"

definition atou :: "string \<Rightarrow> nat" where
  "atou s = parse_value 0 (ParseUint s 10 64)"

definition lines_of :: "string \<Rightarrow> string list list" where
  "lines_of text = map Fields (SplitByte text (CHR 0x0A))"

definition readTrim :: "files \<Rightarrow> string \<Rightarrow> string" where
  "readTrim fs path = (case fs path of None \<Rightarrow> [] | Some text \<Rightarrow> TrimSpace text)"

fun readUintFirst :: "files \<Rightarrow> string list \<Rightarrow> nat" where
  "readUintFirst fs [] = 0"
| "readUintFirst fs (path # paths) =
     (let text = readTrim fs path in
      if text = [] \<or> text = ''max'' then readUintFirst fs paths
      else case ParseUint (hd (Fields text)) 10 64 of
        POk v \<Rightarrow> v
      | _ \<Rightarrow> readUintFirst fs paths)"

definition status_line :: "string list \<Rightarrow> runtimeDebugSample \<Rightarrow> runtimeDebugSample" where
  "status_line fl s =
     (if length fl < 2 then s
      else if fl ! 0 = ''Threads:'' then s\<lparr>rd_threads := atoi (fl ! 1)\<rparr>
      else if fl ! 0 = ''VmRSS:'' then s\<lparr>rd_vmRSSKB := atou (fl ! 1)\<rparr>
      else if fl ! 0 = ''VmHWM:'' then s\<lparr>rd_vmHWMKB := atou (fl ! 1)\<rparr>
      else if fl ! 0 = ''VmData:'' then s\<lparr>rd_vmDataKB := atou (fl ! 1)\<rparr>
      else s)"

definition fillProcStatus :: "files \<Rightarrow> runtimeDebugSample \<Rightarrow> runtimeDebugSample" where
  "fillProcStatus fs s =
     (case fs ''/proc/self/status'' of None \<Rightarrow> s | Some text \<Rightarrow> fold status_line (lines_of text) s)"

text \<open>\<open>strings.LastIndex\<close> of a byte.\<close>

definition LastIndexByte :: "string \<Rightarrow> char \<Rightarrow> nat option" where
  "LastIndexByte s b = map_option (\<lambda>i. length s - 1 - i) (IndexByte (rev s) b)"

definition stat_fields :: "string \<Rightarrow> string list option" where
  "stat_fields text =
     (case LastIndexByte text (CHR '')'') of
        None \<Rightarrow> None
      | Some idx \<Rightarrow>
          if length text \<le> idx + 2 then None
          else let fl = Fields (drop (idx + 2) text) in if length fl < 20 then None else Some fl)"

definition fillProcStat :: "files \<Rightarrow> runtimeDebugSample \<Rightarrow> runtimeDebugSample" where
  "fillProcStat fs s =
     (case fs ''/proc/self/stat'' \<bind> stat_fields of
        None \<Rightarrow> s
      | Some fl \<Rightarrow>
          s\<lparr>rd_utimeTicks := atou (fl ! 11), rd_stimeTicks := atou (fl ! 12), rd_startTimeTicks := atou (fl ! 19)\<rparr>)"

definition event_line :: "string list \<Rightarrow> runtimeDebugSample \<Rightarrow> runtimeDebugSample" where
  "event_line fl s =
     (if length fl \<noteq> 2 then s
      else if fl ! 0 = ''oom'' then s\<lparr>rd_cgroupOOM := atou (fl ! 1)\<rparr>
      else if fl ! 0 = ''oom_kill'' then s\<lparr>rd_cgroupOOMKill := atou (fl ! 1)\<rparr>
      else s)"

definition fillCgroupMemoryEvents :: "files \<Rightarrow> runtimeDebugSample \<Rightarrow> runtimeDebugSample" where
  "fillCgroupMemoryEvents fs s =
     (case fs ''/sys/fs/cgroup/memory.events'' of None \<Rightarrow> s | Some text \<Rightarrow> fold event_line (lines_of text) s)"

definition readMemAvailableKB :: "files \<Rightarrow> nat" where
  "readMemAvailableKB fs =
     (case fs ''/proc/meminfo'' of
        None \<Rightarrow> 0
      | Some text \<Rightarrow>
          (case find (\<lambda>fl. 2 \<le> length fl \<and> fl ! 0 = ''MemAvailable:'') (lines_of text) of
             None \<Rightarrow> 0
           | Some fl \<Rightarrow> atou (fl ! 1)))"

definition empty_sample :: "int \<Rightarrow> string \<Rightarrow> runtimeDebugSample" where
  "empty_sample pid pids_max =
     \<lparr>rd_pid = pid, rd_utimeTicks = 0, rd_stimeTicks = 0, rd_startTimeTicks = 0, rd_threads = 0, rd_vmRSSKB = 0, rd_vmHWMKB = 0,
      rd_vmDataKB = 0, rd_cgroupMemory = 0, rd_cgroupOOM = 0, rd_cgroupOOMKill = 0, rd_cgroupPids = 0, rd_cgroupPidsMax = pids_max,
      rd_memAvailableKB = 0, rd_goroutines = 0, rd_heapAlloc = 0, rd_heapSys = 0, rd_heapIdle = 0, rd_heapReleased = 0,
      rd_stackInuse = 0, rd_otherSys = 0, rd_numGC = 0, rd_pauseTotalNs = 0, rd_lastGCPauseNs = 0\<rparr>"

text \<open>The pauses are a ring of 256 entries; the number of collections is a 32-bit integer.\<close>

definition last_pause :: "mem_stats \<Rightarrow> nat" where
  "last_pause ms = (if 0 < ms_NumGC ms then ms_PauseNs ms ((ms_NumGC ms + 255) mod 2 ^ 32 mod 256) else 0)"

definition collectRuntimeDebugSample :: "files \<Rightarrow> int \<Rightarrow> int \<Rightarrow> mem_stats \<Rightarrow> runtimeDebugSample" where
  "collectRuntimeDebugSample fs pid goroutines ms =
     (let s0 = empty_sample pid (readTrim fs ''/sys/fs/cgroup/pids.max'');
          s1 = fillProcStat fs (fillProcStatus fs s0);
          s2 = fillCgroupMemoryEvents fs (s1\<lparr>rd_cgroupMemory :=
                 readUintFirst fs [''/sys/fs/cgroup/memory.current'', ''/sys/fs/cgroup/memory/memory.usage_in_bytes'']\<rparr>)
      in s2\<lparr>rd_cgroupPids := readUintFirst fs [''/sys/fs/cgroup/pids.current''], rd_memAvailableKB := readMemAvailableKB fs,
            rd_goroutines := goroutines, rd_heapAlloc := ms_HeapAlloc ms, rd_heapSys := ms_HeapSys ms, rd_heapIdle := ms_HeapIdle ms,
            rd_heapReleased := ms_HeapReleased ms, rd_stackInuse := ms_StackInuse ms, rd_otherSys := ms_OtherSys ms,
            rd_numGC := ms_NumGC ms, rd_pauseTotalNs := ms_PauseTotalNs ms, rd_lastGCPauseNs := last_pause ms\<rparr>)"

section \<open>The CSV file\<close>

definition csvSafe :: "string \<Rightarrow> string" where
  "csvSafe s = map (\<lambda>c. if c = CHR '','' then CHR ''_'' else c) s"

definition csv_columns :: "string list" where
  "csv_columns =
     [''ts'', ''pid'', ''utime_ticks'', ''stime_ticks'', ''threads'', ''vmrss_kb'', ''vmhwm_kb'', ''vmdata_kb'', ''cgroup_memory'',
      ''cgroup_oom'', ''cgroup_oom_kill'', ''cgroup_pids'', ''cgroup_pids_max'', ''mem_available_kb'', ''goroutines'', ''heap_alloc'',
      ''heap_sys'', ''heap_idle'', ''heap_released'', ''stack_inuse'', ''other_sys'', ''num_gc'', ''pause_total_ns'', ''last_gc_pause_ns'']"

definition csv_cells :: "int \<Rightarrow> runtimeDebugSample \<Rightarrow> string list" where
  "csv_cells ts s =
     [Itoa ts, Itoa (rd_pid s), nat_str (rd_utimeTicks s), nat_str (rd_stimeTicks s), Itoa (rd_threads s), nat_str (rd_vmRSSKB s),
      nat_str (rd_vmHWMKB s), nat_str (rd_vmDataKB s), nat_str (rd_cgroupMemory s), nat_str (rd_cgroupOOM s),
      nat_str (rd_cgroupOOMKill s), nat_str (rd_cgroupPids s), csvSafe (rd_cgroupPidsMax s), nat_str (rd_memAvailableKB s),
      Itoa (rd_goroutines s), nat_str (rd_heapAlloc s), nat_str (rd_heapSys s), nat_str (rd_heapIdle s), nat_str (rd_heapReleased s),
      nat_str (rd_stackInuse s), nat_str (rd_otherSys s), nat_str (rd_numGC s), nat_str (rd_pauseTotalNs s),
      nat_str (rd_lastGCPauseNs s)]"

definition csv_row :: "string list \<Rightarrow> string" where
  "csv_row cells = Join cells '','' @ [CHR 0x0A]"

text \<open>What the file holds after a number of samples: the header is written only to an empty
  file. Without a path nothing is opened or written.\<close>

definition startRuntimeDebugLogger :: "string \<Rightarrow> string option \<Rightarrow> (int \<times> runtimeDebugSample) list \<Rightarrow> string option" where
  "startRuntimeDebugLogger path content samples =
     (if path = [] then content
      else let old = (case content of None \<Rightarrow> [] | Some c \<Rightarrow> c);
               start = (if old = [] then csv_row csv_columns else old)
           in Some (start @ concat (map (\<lambda>(ts, s). csv_row (csv_cells ts s)) samples)))"

definition sample_interval :: "int \<Rightarrow> int" where
  "sample_interval every = (if every \<le> 0 then 1000000000 else every)"

section \<open>Every row has the columns of the header\<close>

lemma SplitByte_Join: "ws \<noteq> [] \<Longrightarrow> list_all (\<lambda>w. b \<notin> set w) ws \<Longrightarrow> SplitByte (Join ws [b]) b = ws"
proof (induction ws rule: induct_list012)
  case (3 w v ws)
  then show ?case using SplitByte_append [of w b "Join (v # ws) [b]"] by (simp add: SplitByte_none)
qed (simp_all add: SplitByte_none)

lemma digit_not_comma: "list_all is_digit s \<Longrightarrow> CHR '','' \<notin> set s"
  by (auto simp: list_all_iff is_digit_def code_def)

lemma nat_str_no_comma: "CHR '','' \<notin> set (nat_str n)"
  by (rule digit_not_comma [OF nat_str_digits])

lemma Itoa_no_comma: "CHR '','' \<notin> set (Itoa i)"
  using nat_str_no_comma by (simp add: Itoa_def)

lemma csv_cells_no_comma: "list_all (\<lambda>w. CHR '','' \<notin> set w) (csv_cells ts s)"
  by (simp add: csv_cells_def nat_str_no_comma Itoa_no_comma) (auto simp: csvSafe_def)

lemma csv_row_columns:
  "SplitByte (Join (csv_cells ts s) '','') (CHR '','') = csv_cells ts s \<and> length (csv_cells ts s) = length csv_columns"
  using SplitByte_Join [OF _ csv_cells_no_comma, of ts s] by (simp add: csv_cells_def csv_columns_def)

section \<open>The fl of the process\<close>

text \<open>The name of a program stands in parentheses in \<^verbatim>\<open>/proc/self/stat\<close> and may itself contain
  blanks and parentheses: only what follows the last closing one is split.\<close>

lemma stat_fields_any_name:
  assumes "CHR '')'' \<notin> set rest" and "20 \<le> length (Fields rest)"
  shows "stat_fields (pid @ '' ('' @ name @ '') '' @ rest) = Some (Fields rest)"
proof -
  let ?text = "(pid @ '' ('' @ name) @ CHR '')'' # CHR '' '' # rest"
  have "CHR '')'' \<notin> set (rev rest @ '' '')" using assms(1) by simp
  from IndexByte_append [OF this, of "rev (pid @ '' ('' @ name)"]
  have "IndexByte (rev ?text) (CHR '')'') = Some (length rest + 1)" by simp
  then have "LastIndexByte ?text (CHR '')'') = Some (length (pid @ '' ('' @ name))" by (simp add: LastIndexByte_def)
  moreover have "rest \<noteq> []" using assms(2) by (auto simp: Fields.simps)
  moreover have "drop (length (pid @ '' ('' @ name) + 2) ?text = rest" by (simp only: drop_append drop_all length_append) (simp add: numeral_2_eq_2)
  ultimately show ?thesis using assms(2) by (simp add: stat_fields_def)
qed

end
