(* ===== verification/Spec2Isabelle.thy ===== *)
theory Spec2Isabelle
  imports Agent_Main Conn_Wrap Router Panel_Server Stats_Api Runtime_Debug
begin

text \<open>
  A verification development of mini-sb-agent, a node agent that embeds a fork of the proxy
  sing-box, meters and limits its users, and reports traffic to a panel; and of the native
  panel that comes with it.

  \<^bold>\<open>The program.\<close> \<^verbatim>\<open>cmd/mini-sb-agent\<close> reads its flags, in the multi-node mode checks a topology and
  generates the proxy's configuration from what the panel serves for each node, starts the
  proxy, and hooks into its router: every routed connection is wrapped by a counter and up
  to four rate limiters. A loop fetches the users of every node, applies them to the live
  inbounds, and pushes the uncommitted traffic; at shutdown a last push settles what is left.
  \<^verbatim>\<open>panelapi\<close> has the clients, \<^verbatim>\<open>counter\<close> the counters and limiters, \<^verbatim>\<open>panelserver\<close> the native panel,
  \<^verbatim>\<open>fork/sing-box\<close> the proxy.

  \<^bold>\<open>The language.\<close> A Go map is an association list (\<open>gomap\<close> in \<open>Prelude\<close>), traversed in the order
  of the list; a theorem that quantifies over the list so covers every order of traversal.
  Counters are integers with the wrap-around of \<open>int64\<close> written out (\<open>add64\<close>), ports and addresses
  of the router are words, \<open>float64\<close> is the rational numbers rounded to 53 bits with an exponent
  that is not bounded (\<open>Float64\<close>). A string is a list of bytes; case folding and white space are
  those of ASCII, and JSON text is taken to be well-formed UTF-8. Errors are sums or options; a panic is an error of its own. State is passed
  explicitly; objects shared by pointer live in a store with addresses (\<open>Counter\<close>,
  \<open>User_Manager\<close>). Goroutines appear as steps of others between two critical sections: as
  the environment of \<open>Wait\<close> in \<open>Rate_Limit\<close>, as events during a fetch and a push in \<open>Sync\<close>.
  HTTP is a \<open>transport\<close>, a function from a remote state and a request to a new state and perhaps
  an answer. \<open>Go_Strings\<close>, \<open>Go_Strconv\<close>, \<open>Go_Path\<close>, \<open>Go_Time\<close>, \<open>Json\<close> and \<open>Json_Indent\<close> model what
  the sources use of the standard library, with the round trips of printing and parsing.

  \<^bold>\<open>Theories, sources and results.\<close>

  \<^item> \<open>Rate_Limit\<close> (\<^verbatim>\<open>counter/ratelimit.go\<close>): the token bucket, \<open>Allow\<close> and \<open>Wait\<close>. The bytes granted in
    any interval are bounded by one burst plus rate times time, rounding included; \<open>Wait\<close>
    returns under interference; the invariant of the bucket; closing and disabling.
  \<^item> \<open>Counter\<close> (\<^verbatim>\<open>counter/counter.go\<close>, \<open>Hook\<close> in \<^verbatim>\<open>main.go\<close>): snapshot, commit and pruning. After a commit
    the next snapshot has exactly the growth since; pruning loses nothing unbilled.
    \<open>Hook_Ledger\<close> interprets the locale \<open>traffic_ledger\<close> of \<open>Sync\<close> on it.
  \<^item> \<open>Topology\<close> (\<^verbatim>\<open>panelapi/topology.go\<close>): decoding, tags and \<open>Validate\<close>, characterised by a
    formula; tags and keys identify nodes. \<open>Capabilities\<close> (\<^verbatim>\<open>capabilities.go\<close> and the build tags).
  \<^item> \<open>Http\<close>, \<open>Panel_Client\<close> (\<^verbatim>\<open>client.go\<close>, \<^verbatim>\<open>multi.go\<close>, \<^verbatim>\<open>local.go\<close>), \<open>Min_Http\<close> (\<^verbatim>\<open>minhttp.go\<close>): requests, the three
    framings of an answer read alike, and the bound on bodies.
  \<^item> \<open>Sync\<close> (\<^verbatim>\<open>sync.go\<close>): the loop, with the locales \<open>traffic_ledger\<close> (what the counters
    promise), \<open>panel_contract\<close> (what a panel promises) and \<open>billing\<close>, in which the
    conservation of traffic over a run is proved once.
  \<^item> \<open>Inbound_Users\<close> (\<^verbatim>\<open>user_delta.go\<close>, \<^verbatim>\<open>user_apply_*.go\<close> and the user tables of the VLESS and Hysteria2 inbounds
    of the fork), \<open>User_Manager\<close> (\<^verbatim>\<open>user_manager.go\<close>): after an application each inbound has exactly
    its own users; limits change without touching sessions; the life of limiters; deletion.
  \<^item> \<open>Topology_Panel\<close> (\<^verbatim>\<open>topology_panel.go\<close>, \<^verbatim>\<open>node_runtime.go\<close>), \<open>Billing\<close>: the multi-node panel, all or
    nothing; the interpretation of the billing locales on it, exact billing, the last flush.
  \<^item> \<open>Conn_Wrap\<close> (the wrappers in \<^verbatim>\<open>counter\<close> and \<open>RoutedConnection\<close>): the locale \<open>stream\<close> and its
    extensions; the stack is transparent for data and counts exactly what passes; writes
    complete; a dropped packet is billed.
  \<^item> \<open>Node_Config\<close> (\<^verbatim>\<open>node_config.go\<close>), \<open>Xboard_Config\<close> (\<^verbatim>\<open>xboard_config.go\<close>): the generated configuration,
    read back as JSON, routes each node to its outbound and the rest to the block;
    certificates.
  \<^item> \<open>Control_Plane\<close> (\<^verbatim>\<open>control_plane.go\<close>), \<open>Panel_Store\<close> (\<^verbatim>\<open>panelserver/store.go\<close>), \<open>Panel_Server\<close> (\<^verbatim>\<open>server.go\<close>): the store
    refines a ledger of accepted batches; a retried batch is billed once; changes need
    credentials and answers hide secrets.
  \<^item> \<open>Stats_Api\<close> (the statistics interface of \<^verbatim>\<open>main.go\<close>), \<open>Runtime_Debug\<close> (\<^verbatim>\<open>runtime_debug.go\<close>).
  \<^item> \<open>Outbound_Manager\<close> (\<^verbatim>\<open>adapter/outbound/manager.go\<close>): outbounds start in the order of their
    dependencies exactly if there is one; a closed manager panics.
  \<^item> \<open>Rule_Item\<close>, \<open>Route_Rule\<close>, \<open>Rule_Builder\<close> (\<^verbatim>\<open>route/rule\<close>): conditions, rules and their construction.
    The match on flags equals a formula over the conditions (locale \<open>looking_items\<close>,
    interpreted on headless rules and on rules of the route); rule sets of one rule merge,
    rules of a larger set leak into each other.
  \<^item> \<open>Router\<close> (\<^verbatim>\<open>route/route.go\<close>): the loop over the rules and the choice of the outbound; with the
    rules generated for a topology a node's traffic leaves by its own outbound or not at all.
  \<^item> \<open>Agent_Main\<close> (\<^verbatim>\<open>main.go\<close>): options, tuning, start and stop. A successful start runs the
    configuration of a checked topology; everything counted in the life of the agent,
    failures and the last bytes at shutdown included, is billed exactly once.

  \<^bold>\<open>Bounds and fuel.\<close> The JSON parser takes fuel twice the length of the text plus two, which is
    proved enough for every printed document (\<open>fuel_bound\<close>). All other loops are total functions
    with termination proofs: the chunks of a body and the lines of a request consume input,
    waiting and chunked writing consume bytes, and starting outbounds consumes tags.

  \<^bold>\<open>Assumptions.\<close> They are hypotheses of the theorems: a remote that books a push exactly if it
  answers with success (\<open>honest\<close>), clocks that do not go back, users identified by decimal
  numbers, a base address of plain characters (\<open>plain_base\<close>). Their witnesses give concrete instances.

  \<^bold>\<open>Not modelled.\<close>
  \<^item> The protocols of the fork (\<^verbatim>\<open>protocol\<close> except the user tables, \<^verbatim>\<open>transport\<close>): they are mostly wrappers
    around packages outside the repository, which do the cryptography and the framing.
  \<^item> DNS (\<^verbatim>\<open>dns\<close>, \<^verbatim>\<open>route/dns.go\<close>, DNS rules): built on the package \<^verbatim>\<open>miekg/dns\<close>.
  \<^item> Sniffers, TLS, dialers, certificate lists and process search (\<^verbatim>\<open>common\<close>): most read wire formats
    of other protocols or call the operating system; the router takes sniffing and process
    search as arguments.
  \<^item> The inbound, endpoint and service managers (\<^verbatim>\<open>adapter\<close>) and the life cycle of the proxy (\<^verbatim>\<open>box.go\<close>):
    the agent's start takes a started proxy, or its failure, as an argument.
  \<^item> Decoding of options (\<^verbatim>\<open>option\<close>): reflection by the package \<^verbatim>\<open>badjson\<close>. Rules start from decoded options.
  \<^item> Services, the experimental interfaces and the mobile library (\<^verbatim>\<open>service\<close>, \<^verbatim>\<open>experimental\<close>), command line
    tools (\<^verbatim>\<open>fork/sing-box/cmd\<close>) and logging: the agent registers no service
    and generates no experimental options; tools and logging only print.
  \<^item> Remote and file rule sets, pre-matching of packets, copying between sockets and network monitoring in \<^verbatim>\<open>route\<close>: file
    watching, downloads, sockets and system interfaces.
  \<^item> Listening sockets, signals, parsing of flags, the memory scavenger, the subcommands and the entry point of the native panel.
\<close>

end
